(* ===== verification/Prelude.thy ===== *)
theory Prelude
  imports Complex_Main "HOL-Library.AList" "HOL-Library.Sublist"
begin

text \<open>
  What every component shares: the clock type, Python's list slices and truncation, and filtering
  by age.
\<close>

named_theorems window_simps \<open>facts about ages within a window\<close>

section \<open>Time, truncation, slices\<close>

text \<open>
  Clock readings (\<^verbatim>\<open>time.monotonic()\<close>, \<^verbatim>\<open>time.time()\<close>) are reals; the rounding of
  IEEE floats is not modelled. A synchronous callback runs at one instant: two reads of the
  clock inside it give the same value, which is an argument of the operation.
\<close>

type_synonym time = real

definition py_trunc :: "real \<Rightarrow> int" where
  "py_trunc x = (if 0 \<le> x then \<lfloor>x\<rfloor> else \<lceil>x\<rceil>)"

lemma py_trunc_nonneg: "0 \<le> x \<Longrightarrow> 0 \<le> py_trunc x"
  by (simp add: py_trunc_def)

lemma py_trunc_le: "0 \<le> x \<Longrightarrow> of_int (py_trunc x) \<le> x"
  by (simp add: py_trunc_def)

lemma py_trunc_lt: "0 \<le> x \<Longrightarrow> x < of_int b \<Longrightarrow> py_trunc x < b"
  by (simp add: py_trunc_def floor_less_iff)

text \<open>\<^verbatim>\<open>xs[-n:]\<close> for a positive \<open>n\<close>.\<close>

definition last_n :: "nat \<Rightarrow> 'a list \<Rightarrow> 'a list" where
  "last_n n xs = drop (length xs - n) xs"

lemma length_last_n [simp]: "length (last_n n xs) = min n (length xs)"
  by (simp add: last_n_def)

lemma set_last_n: "set (last_n n xs) \<subseteq> set xs"
  by (simp add: last_n_def set_drop_subset)

lemma last_n_short [simp]: "length xs \<le> n \<Longrightarrow> last_n n xs = xs"
  by (simp add: last_n_def)

lemma last_n_snoc: "0 < n \<Longrightarrow> last_n n (last_n n xs @ [x]) = last_n n (xs @ [x])"
  by (cases "length xs < n") (auto simp: last_n_def Suc_diff_le)

lemma list_all_replicate: "P x \<Longrightarrow> list_all P (replicate n x)"
  by (induction n) simp_all

lemma set_subseq: "subseq us xs \<Longrightarrow> set us \<subseteq> set xs"
  by (induction rule: list_emb.induct) auto

lemma sorted_wrt_subseq: "subseq us xs \<Longrightarrow> sorted_wrt P xs \<Longrightarrow> sorted_wrt P us"
  by (induction rule: list_emb.induct) (auto dest: set_subseq)

section \<open>Filtering by age\<close>

definition recent_at :: "time \<Rightarrow> time \<Rightarrow> time list \<Rightarrow> time list" where
  "recent_at window now ts = filter (\<lambda>t. now - t < window) ts"

lemma recent_at_simps [simp]:
  "recent_at w n [] = []"
  "recent_at w n (t # ts) = (if n - t < w then t # recent_at w n ts else recent_at w n ts)"
  "recent_at w n (xs @ ys) = recent_at w n xs @ recent_at w n ys"
  by (simp_all add: recent_at_def)

lemma recent_at_later [window_simps]:
  "n \<le> n' \<Longrightarrow> recent_at w n' (recent_at w n ts) = recent_at w n' ts"
  by (induction ts) auto

lemma set_recent_at [window_simps]: "set (recent_at w n ts) = {t \<in> set ts. n - t < w}"
  by (auto simp: recent_at_def)

lemma length_recent_at_mono:
  "n \<le> n' \<Longrightarrow> length (recent_at w n' ts) \<le> length (recent_at w n ts)"
  by (induction ts) auto

lemma length_recent_at_window:
  "w \<le> w' \<Longrightarrow> length (recent_at w n ts) \<le> length (recent_at w' n ts)"
  by (induction ts) auto

end
