(* ===== verification/Json.thy ===== *)
theory Json
  imports Prelude
begin

text \<open>
  The values \<^verbatim>\<open>json.loads\<close> returns and the Python type tests the program applies to
  them. A payload is represented by the outcome of \<^verbatim>\<open>json.loads\<close>: \<open>None\<close> when it raises,
  \<open>Some v\<close> for the decoded value. A JSON number without fraction and exponent is an \<open>int\<close>,
  every other number is a float (the literals NaN and Infinity are not represented). Python's
  \<open>bool\<close> is a subclass of \<open>int\<close>, which the tests below spell out. An object keeps its
  key order.
\<close>

datatype json =
  JNull
| JBool bool
| JInt int
| JFloat real
| JStr string
| JArr "json list"
| JObj "(string \<times> json) list"

type_synonym payload = "json option"

section \<open>Dictionaries\<close>

text \<open>\<open>keys_of d\<close> is \<^verbatim>\<open>set(d)\<close>; \<open>get d k\<close> is \<^verbatim>\<open>d.get(k)\<close>, which is None (JSON's null) for a missing key.\<close>

definition keys_of :: "(string \<times> json) list \<Rightarrow> string set" where
  "keys_of d = fst ` set d"

definition get :: "(string \<times> json) list \<Rightarrow> string \<Rightarrow> json" where
  "get d k = (case map_of d k of None \<Rightarrow> JNull | Some v \<Rightarrow> v)"

definition get_default :: "(string \<times> json) list \<Rightarrow> string \<Rightarrow> json \<Rightarrow> json" where
  "get_default d k v0 = (case map_of d k of None \<Rightarrow> v0 | Some v \<Rightarrow> v)"

lemma get_simps [simp]:
  "get [] k = JNull"
  "get ((k', v) # d) k = (if k' = k then v else get d k)"
  by (auto simp: get_def)

lemma get_default_simps [simp]:
  "get_default [] k v0 = v0"
  "get_default ((k', v) # d) k v0 = (if k' = k then v else get_default d k v0)"
  by (auto simp: get_default_def)

lemma keys_of_simps [simp]:
  "keys_of [] = {}"
  "keys_of ((k, v) # d) = insert k (keys_of d)"
  by (auto simp: keys_of_def)

lemma map_of_get: "k \<in> keys_of d \<Longrightarrow> map_of d k = Some (get d k)"
  by (auto simp: keys_of_def get_def weak_map_of_SomeI split: option.splits
      dest: weak_map_of_SomeI)

section \<open>Python's type tests\<close>

fun is_str :: "json \<Rightarrow> bool" where
  "is_str (JStr s) = True"
| "is_str _ = False"

fun the_str :: "json \<Rightarrow> string" where
  "the_str (JStr s) = s"
| "the_str _ = []"

text \<open>\<^verbatim>\<open>isinstance(v, int) and not isinstance(v, bool)\<close>\<close>

fun is_int :: "json \<Rightarrow> bool" where
  "is_int (JInt n) = True"
| "is_int _ = False"

fun the_int :: "json \<Rightarrow> int" where
  "the_int (JInt n) = n"
| "the_int _ = 0"

fun is_bool :: "json \<Rightarrow> bool" where
  "is_bool (JBool b) = True"
| "is_bool _ = False"

fun the_bool :: "json \<Rightarrow> bool" where
  "the_bool (JBool b) = b"
| "the_bool _ = False"

lemma is_str_iff: "is_str v \<longleftrightarrow> (\<exists>s. v = JStr s)"
  by (cases v) auto

lemma is_int_iff: "is_int v \<longleftrightarrow> (\<exists>n. v = JInt n)"
  by (cases v) auto

lemma is_bool_iff: "is_bool v \<longleftrightarrow> (\<exists>b. v = JBool b)"
  by (cases v) auto

text \<open>\<^verbatim>\<open>isinstance(v, int | float) and not isinstance(v, bool)\<close>, and the number it is.\<close>

fun num_of :: "json \<Rightarrow> real option" where
  "num_of (JInt n) = Some (of_int n)"
| "num_of (JFloat x) = Some x"
| "num_of _ = None"

text \<open>\<^verbatim>\<open>v == n\<close> for an int \<open>n\<close>: Python compares numbers by value, and True and False are 1 and 0.\<close>

fun py_eq_int :: "json \<Rightarrow> int \<Rightarrow> bool" where
  "py_eq_int (JInt m) n = (m = n)"
| "py_eq_int (JFloat x) n = (x = of_int n)"
| "py_eq_int (JBool b) n = ((if b then 1 else 0) = n)"
| "py_eq_int _ n = False"

text \<open>
  \<^verbatim>\<open>v in S\<close> for a frozenset or set \<open>S\<close> of strings hashes \<open>v\<close> first: a list or a dict
  has no hash and raises TypeError, which is \<open>None\<close> here.
\<close>

fun member_hash :: "json \<Rightarrow> string list \<Rightarrow> bool option" where
  "member_hash (JArr _) S = None"
| "member_hash (JObj _) S = None"
| "member_hash (JStr s) S = Some (s \<in> set S)"
| "member_hash _ S = Some False"

lemma member_hash_True: "member_hash v S = Some True \<longleftrightarrow> (\<exists>s. v = JStr s \<and> s \<in> set S)"
  by (cases v) auto

lemma member_hash_None: "member_hash v S = None \<longleftrightarrow> (\<exists>xs. v = JArr xs) \<or> (\<exists>d. v = JObj d)"
  by (cases v) auto

section \<open>Character classes of the regular expressions\<close>

definition in_range :: "char \<Rightarrow> char \<Rightarrow> char \<Rightarrow> bool" where
  "in_range lo hi c \<longleftrightarrow> (of_char lo :: nat) \<le> of_char c \<and> of_char c \<le> (of_char hi :: nat)"

definition full_match :: "(char \<Rightarrow> bool) \<Rightarrow> nat \<Rightarrow> nat \<Rightarrow> string \<Rightarrow> bool" where
  "full_match p lo hi s \<longleftrightarrow> lo \<le> length s \<and> length s \<le> hi \<and> list_all p s"

end
