(* ===== verification/Protocol.thy ===== *)
theory Protocol
  imports Json
begin

text \<open>
  \<^verbatim>\<open>custom_components/casambi_mqtt/health_protocol.py\<close>: the versioned health messages the
  bridge publishes and Home Assistant parses. Encoders build the JSON value that
  \<^verbatim>\<open>json.dumps\<close> serialises; parsers take the outcome of \<^verbatim>\<open>json.loads\<close>. Enum-like
  strings stay strings, as on the wire.
\<close>

section \<open>Constants\<close>

abbreviation "PROTOCOL_VERSION \<equiv> (1 :: int)"

abbreviation "GET_STATUS_ACTION \<equiv> ''GET_STATUS''"
abbreviation "PUBLISH_ENTITIES_ACTION \<equiv> ''PUBLISH_ENTITIES''"

abbreviation "PHASE_STARTING \<equiv> ''starting''"
abbreviation "PHASE_DISCOVERING \<equiv> ''discovering''"
abbreviation "PHASE_CONNECTING \<equiv> ''connecting''"
abbreviation "PHASE_READY \<equiv> ''ready''"
abbreviation "PHASE_DEGRADED \<equiv> ''degraded''"
abbreviation "PHASE_OFFLINE \<equiv> ''offline''"

definition PHASES :: "string list" where
  "PHASES = [PHASE_STARTING, PHASE_DISCOVERING, PHASE_CONNECTING, PHASE_READY,
     PHASE_DEGRADED, PHASE_OFFLINE]"

abbreviation "LINK_CONNECTED \<equiv> ''connected''"
abbreviation "LINK_DISCONNECTED \<equiv> ''disconnected''"
abbreviation "LINK_UNKNOWN \<equiv> ''unknown''"

definition LINK_STATES :: "string list" where
  "LINK_STATES = [LINK_CONNECTED, LINK_DISCONNECTED, LINK_UNKNOWN]"

abbreviation "ERROR_NONE \<equiv> ''none''"
abbreviation "ERROR_BLE_DISCONNECTED \<equiv> ''ble_disconnected''"
abbreviation "ERROR_BLE_DISCOVERY_IN_PROGRESS \<equiv> ''ble_discovery_in_progress''"
abbreviation "ERROR_BLE_DISCOVERY_FAILED \<equiv> ''ble_discovery_failed''"
abbreviation "ERROR_BLE_CONNECT_FAILED \<equiv> ''ble_connect_failed''"
abbreviation "ERROR_NETWORK_NOT_FOUND \<equiv> ''network_not_found''"
abbreviation "ERROR_CONFIGURATION \<equiv> ''configuration''"
abbreviation "ERROR_MQTT \<equiv> ''mqtt_error''"
abbreviation "ERROR_SNAPSHOT_PUBLISH_FAILED \<equiv> ''snapshot_publish_failed''"
abbreviation "ERROR_STATE_PUBLISH_FAILED \<equiv> ''state_publish_failed''"
abbreviation "ERROR_CONNECTION_LOST \<equiv> ''connection_lost''"
abbreviation "ERROR_SHUTDOWN \<equiv> ''shutdown''"
abbreviation "ERROR_UNKNOWN \<equiv> ''unknown''"

definition ERROR_CATEGORIES :: "string list" where
  "ERROR_CATEGORIES = [ERROR_NONE, ERROR_BLE_DISCONNECTED, ERROR_BLE_DISCOVERY_IN_PROGRESS,
     ERROR_BLE_DISCOVERY_FAILED, ERROR_BLE_CONNECT_FAILED, ERROR_NETWORK_NOT_FOUND,
     ERROR_CONFIGURATION, ERROR_MQTT, ERROR_SNAPSHOT_PUBLISH_FAILED,
     ERROR_STATE_PUBLISH_FAILED, ERROR_CONNECTION_LOST, ERROR_SHUTDOWN, ERROR_UNKNOWN]"

abbreviation "REPLY_STATUS \<equiv> ''status''"
abbreviation "REPLY_SNAPSHOT \<equiv> ''snapshot''"

definition REPLY_TYPES :: "string list" where
  "REPLY_TYPES = [REPLY_STATUS, REPLY_SNAPSHOT]"

abbreviation "RESULT_OK \<equiv> ''ok''"
abbreviation "RESULT_FAILED \<equiv> ''failed''"
abbreviation "RESULT_RATE_LIMITED \<equiv> ''rate_limited''"
abbreviation "RESULT_BUSY \<equiv> ''busy''"

definition RESULTS :: "string list" where
  "RESULTS = [RESULT_OK, RESULT_FAILED, RESULT_RATE_LIMITED, RESULT_BUSY]"

abbreviation "MAX_COUNTER \<equiv> (2 ^ 53 - 1 :: int)"

definition STATUS_KEYS :: "string set" where
  "STATUS_KEYS = {''protocol_version'', ''instance_id'', ''sequence'', ''phase'', ''ble'',
     ''mqtt'', ''uptime_s'', ''snapshot'', ''error'', ''time''}"

definition SNAPSHOT_KEYS :: "string set" where
  "SNAPSHOT_KEYS = {''generation'', ''units'', ''scenes'', ''failed'', ''age_s''}"

definition REPLY_KEYS :: "string set" where
  "REPLY_KEYS = {''protocol_version'', ''type'', ''request_id'', ''instance_id'', ''result'',
     ''status''}"

definition SNAPSHOT_REPLY_KEYS :: "string set" where
  "SNAPSHOT_REPLY_KEYS = REPLY_KEYS \<union> {''units'', ''scenes'', ''failed'', ''generation''}"

text \<open>The member lists are small: membership in them is a disjunction the simplifier decides.\<close>

lemmas protocol_sets = PHASES_def LINK_STATES_def ERROR_CATEGORIES_def REPLY_TYPES_def
  RESULTS_def STATUS_KEYS_def SNAPSHOT_KEYS_def REPLY_KEYS_def SNAPSHOT_REPLY_KEYS_def

section \<open>Topics and validators\<close>

definition status_topic :: "string \<Rightarrow> string \<Rightarrow> string" where
  "status_topic pre network_name = pre @ ''/'' @ network_name @ ''/status''"

definition reply_topic :: "string \<Rightarrow> string \<Rightarrow> string" where
  "reply_topic pre network_name = pre @ ''/'' @ network_name @ ''/health/reply''"

definition request_id_char :: "char \<Rightarrow> bool" where
  "request_id_char c \<longleftrightarrow> in_range (CHR ''A'') (CHR ''Z'') c \<or> in_range (CHR ''a'') (CHR ''z'') c
     \<or> in_range (CHR ''0'') (CHR ''9'') c \<or> c \<in> set ''._:-''"

definition instance_id_char :: "char \<Rightarrow> bool" where
  "instance_id_char c \<longleftrightarrow> in_range (CHR ''0'') (CHR ''9'') c \<or> in_range (CHR ''a'') (CHR ''f'') c"

definition request_id_ok :: "string \<Rightarrow> bool" where
  "request_id_ok s = full_match request_id_char 1 64 s"

definition instance_id_ok :: "string \<Rightarrow> bool" where
  "instance_id_ok s = full_match instance_id_char 32 32 s"

fun is_valid_request_id :: "json \<Rightarrow> bool" where
  "is_valid_request_id (JStr s) = request_id_ok s"
| "is_valid_request_id _ = False"

fun is_valid_instance_id :: "json \<Rightarrow> bool" where
  "is_valid_instance_id (JStr s) = instance_id_ok s"
| "is_valid_instance_id _ = False"

fun is_member :: "json \<Rightarrow> string list \<Rightarrow> bool" where
  "is_member (JStr s) allowed = (s \<in> set allowed)"
| "is_member _ allowed = False"

definition counter_ok :: "int \<Rightarrow> bool" where
  "counter_ok n \<longleftrightarrow> 0 \<le> n \<and> n \<le> MAX_COUNTER"

fun is_counter :: "json \<Rightarrow> bool" where
  "is_counter (JInt n) = counter_ok n"
| "is_counter _ = False"

fun is_optional_counter :: "json \<Rightarrow> bool" where
  "is_optional_counter JNull = True"
| "is_optional_counter v = is_counter v"

text \<open>The value of an \<^verbatim>\<open>int | None\<close> field, read and written.\<close>

fun opt_int :: "json \<Rightarrow> int option" where
  "opt_int (JInt n) = Some n"
| "opt_int _ = None"

definition json_of_opt_int :: "int option \<Rightarrow> json" where
  "json_of_opt_int x = (case x of None \<Rightarrow> JNull | Some n \<Rightarrow> JInt n)"

definition json_of_opt_str :: "string option \<Rightarrow> json" where
  "json_of_opt_str x = (case x of None \<Rightarrow> JNull | Some s \<Rightarrow> JStr s)"

fun opt_str :: "json \<Rightarrow> string option" where
  "opt_str (JStr s) = Some s"
| "opt_str _ = None"

lemma opt_int_json [simp]: "opt_int (json_of_opt_int x) = x"
  by (cases x) (simp_all add: json_of_opt_int_def)

lemma opt_str_json [simp]: "opt_str (json_of_opt_str x) = x"
  by (cases x) (simp_all add: json_of_opt_str_def)

lemma json_of_opt_inject [simp]:
  "json_of_opt_int x = json_of_opt_int y \<longleftrightarrow> x = y"
  "json_of_opt_str s = json_of_opt_str t \<longleftrightarrow> s = t"
  by (metis opt_int_json, metis opt_str_json)

lemma is_valid_request_id_iff: "is_valid_request_id v \<longleftrightarrow> (\<exists>s. v = JStr s \<and> request_id_ok s)"
  by (cases v) auto

lemma is_valid_instance_id_iff: "is_valid_instance_id v \<longleftrightarrow> (\<exists>s. v = JStr s \<and> instance_id_ok s)"
  by (cases v) auto

lemma is_member_iff: "is_member v S \<longleftrightarrow> (\<exists>s. v = JStr s \<and> s \<in> set S)"
  by (cases v) auto

lemma is_counter_iff: "is_counter v \<longleftrightarrow> (\<exists>n. v = JInt n \<and> counter_ok n)"
  by (cases v) auto

lemma is_optional_counter_iff:
  "is_optional_counter v \<longleftrightarrow> (\<exists>x. v = json_of_opt_int x \<and> pred_option counter_ok x)"
  by (cases v) (auto simp: json_of_opt_int_def split: option.splits)

lemmas validator_iffs = is_valid_request_id_iff is_valid_instance_id_iff is_member_iff
  is_counter_iff is_optional_counter_iff

definition load_object :: "payload \<Rightarrow> (string \<times> json) list option" where
  "load_object payload =
     (case payload of None \<Rightarrow> None | Some v \<Rightarrow> (case v of JObj d \<Rightarrow> Some d | _ \<Rightarrow> None))"

lemma load_object_Some: "load_object p = Some d \<longleftrightarrow> p = Some (JObj d)"
  by (auto simp: load_object_def split: option.splits json.splits)

section \<open>Messages and their encoders\<close>

record snapshot_summary =
  ss_generation :: int
  ss_units :: int
  ss_scenes :: int
  ss_failed :: int
  ss_age_s :: "int option"

definition empty_snapshot_summary :: snapshot_summary where
  "empty_snapshot_summary =
     \<lparr>ss_generation = 0, ss_units = 0, ss_scenes = 0, ss_failed = 0, ss_age_s = None\<rparr>"

definition snapshot_dict :: "snapshot_summary \<Rightarrow> json" where
  "snapshot_dict s = JObj
     [(''generation'', JInt (ss_generation s)),
      (''units'', JInt (ss_units s)),
      (''scenes'', JInt (ss_scenes s)),
      (''failed'', JInt (ss_failed s)),
      (''age_s'', json_of_opt_int (ss_age_s s))]"

record bridge_status =
  bs_instance_id :: string
  bs_sequence :: "int option"
  bs_phase :: string
  bs_ble :: string
  bs_mqtt :: string
  bs_uptime_s :: "int option"
  bs_snapshot :: snapshot_summary
  bs_error :: string
  bs_time :: "string option"
  bs_protocol_version :: int

definition status_dict :: "bridge_status \<Rightarrow> json" where
  "status_dict s = JObj
     [(''protocol_version'', JInt (bs_protocol_version s)),
      (''instance_id'', JStr (bs_instance_id s)),
      (''sequence'', json_of_opt_int (bs_sequence s)),
      (''phase'', JStr (bs_phase s)),
      (''ble'', JStr (bs_ble s)),
      (''mqtt'', JStr (bs_mqtt s)),
      (''uptime_s'', json_of_opt_int (bs_uptime_s s)),
      (''snapshot'', snapshot_dict (bs_snapshot s)),
      (''error'', JStr (bs_error s)),
      (''time'', json_of_opt_str (bs_time s))]"

record health_reply =
  hr_type :: string
  hr_request_id :: string
  hr_instance_id :: string
  hr_result :: string
  hr_status :: bridge_status
  hr_units :: "int option"
  hr_scenes :: "int option"
  hr_failed :: "int option"
  hr_generation :: "int option"

definition reply_json :: "health_reply \<Rightarrow> json" where
  "reply_json r = JObj
     ([(''protocol_version'', JInt PROTOCOL_VERSION),
       (''type'', JStr (hr_type r)),
       (''request_id'', JStr (hr_request_id r)),
       (''instance_id'', JStr (hr_instance_id r)),
       (''result'', JStr (hr_result r)),
       (''status'', status_dict (hr_status r))] @
      (if hr_type r = REPLY_SNAPSHOT then
         [(''units'', json_of_opt_int (hr_units r)),
          (''scenes'', json_of_opt_int (hr_scenes r)),
          (''failed'', json_of_opt_int (hr_failed r)),
          (''generation'', json_of_opt_int (hr_generation r))]
       else []))"

definition get_status_command :: "string \<Rightarrow> json" where
  "get_status_command request_id =
     JObj [(''action'', JStr GET_STATUS_ACTION), (''request_id'', JStr request_id)]"

definition snapshot_command :: "string \<Rightarrow> json" where
  "snapshot_command request_id =
     JObj [(''action'', JStr PUBLISH_ENTITIES_ACTION), (''request_id'', JStr request_id)]"

section \<open>Parsers\<close>

definition parse_snapshot :: "json \<Rightarrow> snapshot_summary option" where
  "parse_snapshot value = (case value of
     JObj d \<Rightarrow>
       if keys_of d \<noteq> SNAPSHOT_KEYS then None
       else if \<not> (is_counter (get d ''generation'') \<and> is_counter (get d ''units'')
                 \<and> is_counter (get d ''scenes'') \<and> is_counter (get d ''failed'')) then None
       else if \<not> is_optional_counter (get d ''age_s'') then None
       else Some \<lparr>ss_generation = the_int (get d ''generation''),
                  ss_units = the_int (get d ''units''),
                  ss_scenes = the_int (get d ''scenes''),
                  ss_failed = the_int (get d ''failed''),
                  ss_age_s = opt_int (get d ''age_s'')\<rparr>
   | _ \<Rightarrow> None)"

definition protocol_version_of :: "payload \<Rightarrow> int option" where
  "protocol_version_of payload = (case load_object payload of
     None \<Rightarrow> None
   | Some d \<Rightarrow> (let version = get d ''protocol_version'' in
       if is_int version \<and> is_counter version then Some (the_int version) else None))"

text \<open>\<^verbatim>\<open>time is None or (isinstance(time, str) and len(time) <= 40)\<close>\<close>

fun time_ok :: "json \<Rightarrow> bool" where
  "time_ok JNull = True"
| "time_ok (JStr s) = (length s \<le> 40)"
| "time_ok _ = False"

definition status_from_dict :: "json \<Rightarrow> bridge_status option" where
  "status_from_dict value = (case value of
     JObj d \<Rightarrow>
       if keys_of d \<noteq> STATUS_KEYS then None
       else if get d ''protocol_version'' \<noteq> JInt PROTOCOL_VERSION then None
       else (let snapshot = parse_snapshot (get d ''snapshot''); tm = get d ''time'' in
         if \<not> is_valid_instance_id (get d ''instance_id'')
            \<or> \<not> is_optional_counter (get d ''sequence'')
            \<or> \<not> is_member (get d ''phase'') PHASES
            \<or> \<not> is_member (get d ''ble'') LINK_STATES
            \<or> \<not> is_member (get d ''mqtt'') LINK_STATES
            \<or> \<not> is_optional_counter (get d ''uptime_s'')
            \<or> snapshot = None
            \<or> \<not> is_member (get d ''error'') ERROR_CATEGORIES
            \<or> \<not> time_ok tm then None
         else if get d ''sequence'' = JNull \<and> get d ''phase'' \<noteq> JStr PHASE_OFFLINE then None
         else Some \<lparr>bs_instance_id = the_str (get d ''instance_id''),
                    bs_sequence = opt_int (get d ''sequence''),
                    bs_phase = the_str (get d ''phase''),
                    bs_ble = the_str (get d ''ble''),
                    bs_mqtt = the_str (get d ''mqtt''),
                    bs_uptime_s = opt_int (get d ''uptime_s''),
                    bs_snapshot = the snapshot,
                    bs_error = the_str (get d ''error''),
                    bs_time = opt_str tm,
                    bs_protocol_version = PROTOCOL_VERSION\<rparr>)
   | _ \<Rightarrow> None)"

definition parse_status :: "payload \<Rightarrow> bridge_status option" where
  "parse_status payload =
     (case load_object payload of None \<Rightarrow> None | Some d \<Rightarrow> status_from_dict (JObj d))"

definition parse_reply :: "payload \<Rightarrow> health_reply option" where
  "parse_reply payload = (case load_object payload of
     None \<Rightarrow> None
   | Some d \<Rightarrow>
      (let reply_type = get d ''type'';
           expected_keys = (if reply_type = JStr REPLY_SNAPSHOT then SNAPSHOT_REPLY_KEYS
                            else REPLY_KEYS) in
       if keys_of d \<noteq> expected_keys \<or> \<not> is_member reply_type REPLY_TYPES then None
       else if get d ''protocol_version'' \<noteq> JInt PROTOCOL_VERSION then None
       else (case status_from_dict (get d ''status'') of
         None \<Rightarrow> None
       | Some status \<Rightarrow>
          if \<not> is_valid_request_id (get d ''request_id'')
             \<or> \<not> is_valid_instance_id (get d ''instance_id'')
             \<or> get d ''instance_id'' \<noteq> JStr (bs_instance_id status)
             \<or> \<not> is_member (get d ''result'') RESULTS then None
          else if reply_type = JStr REPLY_SNAPSHOT then
            (if \<not> (is_counter (get d ''units'') \<and> is_counter (get d ''scenes'')
                   \<and> is_counter (get d ''failed'') \<and> is_counter (get d ''generation'')) then None
             else Some \<lparr>hr_type = the_str reply_type,
                        hr_request_id = the_str (get d ''request_id''),
                        hr_instance_id = the_str (get d ''instance_id''),
                        hr_result = the_str (get d ''result''),
                        hr_status = status,
                        hr_units = Some (the_int (get d ''units'')),
                        hr_scenes = Some (the_int (get d ''scenes'')),
                        hr_failed = Some (the_int (get d ''failed'')),
                        hr_generation = Some (the_int (get d ''generation''))\<rparr>)
          else Some \<lparr>hr_type = the_str reply_type,
                     hr_request_id = the_str (get d ''request_id''),
                     hr_instance_id = the_str (get d ''instance_id''),
                     hr_result = the_str (get d ''result''),
                     hr_status = status,
                     hr_units = None, hr_scenes = None, hr_failed = None,
                     hr_generation = None\<rparr>)))"

section \<open>Valid messages\<close>

definition snapshot_ok :: "snapshot_summary \<Rightarrow> bool" where
  "snapshot_ok s \<longleftrightarrow> counter_ok (ss_generation s) \<and> counter_ok (ss_units s)
     \<and> counter_ok (ss_scenes s) \<and> counter_ok (ss_failed s) \<and> pred_option counter_ok (ss_age_s s)"

definition status_ok :: "bridge_status \<Rightarrow> bool" where
  "status_ok s \<longleftrightarrow> bs_protocol_version s = PROTOCOL_VERSION
     \<and> instance_id_ok (bs_instance_id s)
     \<and> pred_option counter_ok (bs_sequence s)
     \<and> bs_phase s \<in> set PHASES \<and> bs_ble s \<in> set LINK_STATES \<and> bs_mqtt s \<in> set LINK_STATES
     \<and> pred_option counter_ok (bs_uptime_s s)
     \<and> snapshot_ok (bs_snapshot s)
     \<and> bs_error s \<in> set ERROR_CATEGORIES
     \<and> pred_option (\<lambda>t. length t \<le> 40) (bs_time s)
     \<and> (bs_sequence s = None \<longrightarrow> bs_phase s = PHASE_OFFLINE)"

definition reply_ok :: "health_reply \<Rightarrow> bool" where
  "reply_ok r \<longleftrightarrow> status_ok (hr_status r)
     \<and> request_id_ok (hr_request_id r)
     \<and> hr_instance_id r = bs_instance_id (hr_status r)
     \<and> hr_result r \<in> set RESULTS
     \<and> (if hr_type r = REPLY_SNAPSHOT
        then (\<exists>u c f g. hr_units r = Some u \<and> hr_scenes r = Some c \<and> hr_failed r = Some f
                \<and> hr_generation r = Some g \<and> counter_ok u \<and> counter_ok c \<and> counter_ok f
                \<and> counter_ok g)
        else hr_type r = REPLY_STATUS \<and> hr_units r = None \<and> hr_scenes r = None
             \<and> hr_failed r = None \<and> hr_generation r = None)"

text \<open>
  The contract of an encoder and its failing-closed parser: what the encoder writes for a valid
  message parses back to it, and the parser returns valid messages only.
\<close>

locale codec =
  fixes enc :: "'a \<Rightarrow> 'v"
    and dec :: "'v \<Rightarrow> 'a option"
    and ok :: "'a \<Rightarrow> bool"
  assumes dec_enc: "ok x \<Longrightarrow> dec (enc x) = Some x"
    and dec_ok: "dec v = Some x \<Longrightarrow> ok x"
begin

lemma dec_enc_iff: "dec (enc x) = Some x \<longleftrightarrow> ok x"
  using dec_enc dec_ok by blast

lemma enc_inj: "ok x \<Longrightarrow> ok y \<Longrightarrow> enc x = enc y \<Longrightarrow> x = y"
  by (metis dec_enc option.inject)

lemma re_encode: "dec v = Some x \<Longrightarrow> dec (enc x) = dec v"
  by (simp add: dec_enc dec_ok)

lemma ex_encoding: "(\<exists>v. dec v = Some x) \<longleftrightarrow> ok x"
  using dec_enc dec_ok by blast

end

lemma time_ok_iff: "time_ok v \<longleftrightarrow> (\<exists>x. v = json_of_opt_str x \<and> pred_option (\<lambda>t. length t \<le> 40) x)"
  by (cases v) (auto simp: json_of_opt_str_def split: option.splits)

lemma validators_of_encoders [simp]:
  "is_optional_counter (json_of_opt_int x) = pred_option counter_ok x"
  "time_ok (json_of_opt_str t) = pred_option (\<lambda>t. length t \<le> 40) t"
  "json_of_opt_int x = JNull \<longleftrightarrow> x = None"
  by (cases x; cases t; simp add: json_of_opt_int_def json_of_opt_str_def)+

lemma parse_snapshot_enc: "parse_snapshot (snapshot_dict s) = (if snapshot_ok s then Some s else None)"
  by (simp add: parse_snapshot_def snapshot_dict_def snapshot_ok_def SNAPSHOT_KEYS_def insert_commute)

lemma parse_snapshot_ok: "parse_snapshot v = Some s \<Longrightarrow> snapshot_ok s"
  by (auto simp: parse_snapshot_def snapshot_ok_def validator_iffs split: json.splits if_splits)

interpretation snapshot_codec: codec snapshot_dict parse_snapshot snapshot_ok
  by unfold_locales (simp_all add: parse_snapshot_enc parse_snapshot_ok)

lemma status_dict_keys: "status_dict s = JObj d \<Longrightarrow> keys_of d = STATUS_KEYS"
  by (auto simp: status_dict_def STATUS_KEYS_def)

lemma status_from_dict_enc:
  "status_from_dict (status_dict s) = (if status_ok s then Some s else None)"
  by (auto simp: status_from_dict_def status_dict_def status_ok_def Let_def parse_snapshot_enc
      STATUS_KEYS_def)

lemma status_from_dict_ok: "status_from_dict v = Some s \<Longrightarrow> status_ok s"
  by (auto simp: status_from_dict_def status_ok_def Let_def validator_iffs time_ok_iff
      dest: parse_snapshot_ok split: json.splits if_splits)

interpretation status_codec: codec status_dict status_from_dict status_ok
  by unfold_locales (simp_all add: status_from_dict_enc status_from_dict_ok)

lemma parse_status_enc: "parse_status (Some (status_dict s)) = (if status_ok s then Some s else None)"
  by (simp add: parse_status_def load_object_def status_from_dict_enc[symmetric] status_dict_def)

lemma parse_status_ok: "parse_status p = Some s \<Longrightarrow> status_ok s"
  by (auto simp: parse_status_def dest: status_from_dict_ok split: option.splits)

lemma status_ok_instance [simp]: "status_ok s \<Longrightarrow> instance_id_ok (bs_instance_id s)"
  by (simp add: status_ok_def)

lemma snapshot_reply_keys: "SNAPSHOT_REPLY_KEYS =
    {''protocol_version'', ''type'', ''request_id'', ''instance_id'', ''result'', ''status'',
     ''units'', ''scenes'', ''failed'', ''generation''}"
  by (simp add: SNAPSHOT_REPLY_KEYS_def REPLY_KEYS_def Un_insert_left insert_commute)

lemma parse_reply_enc: "reply_ok r \<Longrightarrow> parse_reply (Some (reply_json r)) = Some r"
  by (cases r) (auto simp: parse_reply_def load_object_def reply_json_def reply_ok_def Let_def
      status_from_dict_enc snapshot_reply_keys REPLY_KEYS_def REPLY_TYPES_def
      json_of_opt_int_def split: if_splits)

lemma parse_reply_ok: "parse_reply p = Some r \<Longrightarrow> reply_ok r"
  by (auto simp: parse_reply_def load_object_Some reply_ok_def Let_def validator_iffs REPLY_TYPES_def
      dest: status_from_dict_ok split: option.splits if_splits)

interpretation reply_codec: codec "\<lambda>r. Some (reply_json r)" parse_reply reply_ok
  by unfold_locales (simp_all add: parse_reply_enc parse_reply_ok)

interpretation status_payload_codec: codec "\<lambda>s. Some (status_dict s)" parse_status status_ok
  by unfold_locales (simp_all add: parse_status_enc parse_status_ok)

text \<open>
  What an accepted status payload is: the valid status's own encoding up to the order of the keys.
  \<open>same_fields S d e\<close> compares two objects on the keys \<open>S\<close>.
\<close>

definition same_fields :: "string set \<Rightarrow> (string \<times> json) list \<Rightarrow> (string \<times> json) list \<Rightarrow> bool" where
  "same_fields S d e \<longleftrightarrow> (\<forall>k\<in>S. get d k = get e k)"

fun obj_fields :: "json \<Rightarrow> (string \<times> json) list" where
  "obj_fields (JObj d) = d"
| "obj_fields _ = []"

definition encodes_snapshot :: "json \<Rightarrow> snapshot_summary \<Rightarrow> bool" where
  "encodes_snapshot v s \<longleftrightarrow> (\<exists>d. v = JObj d \<and> keys_of d = SNAPSHOT_KEYS
     \<and> same_fields SNAPSHOT_KEYS d (obj_fields (snapshot_dict s)))"

definition encodes_status :: "json \<Rightarrow> bridge_status \<Rightarrow> bool" where
  "encodes_status v s \<longleftrightarrow> (\<exists>d. v = JObj d \<and> keys_of d = STATUS_KEYS
     \<and> same_fields (STATUS_KEYS - {''snapshot''}) d (obj_fields (status_dict s))
     \<and> encodes_snapshot (get d ''snapshot'') (bs_snapshot s))"

lemma same_fields_insert:
  "same_fields {} d e"
  "same_fields (insert k S) d e \<longleftrightarrow> get d k = get e k \<and> same_fields S d e"
  by (auto simp: same_fields_def)

lemma same_snapshot_fields: "same_fields SNAPSHOT_KEYS d (obj_fields (snapshot_dict s)) \<longleftrightarrow>
    get d ''generation'' = JInt (ss_generation s) \<and> get d ''units'' = JInt (ss_units s)
    \<and> get d ''scenes'' = JInt (ss_scenes s) \<and> get d ''failed'' = JInt (ss_failed s)
    \<and> get d ''age_s'' = json_of_opt_int (ss_age_s s)"
  by (simp add: SNAPSHOT_KEYS_def same_fields_insert snapshot_dict_def)

lemma status_keys_without_snapshot: "STATUS_KEYS - {''snapshot''} =
    {''protocol_version'', ''instance_id'', ''sequence'', ''phase'', ''ble'', ''mqtt'',
     ''uptime_s'', ''error'', ''time''}"
  by (simp add: STATUS_KEYS_def insert_Diff_if)

lemma same_status_fields:
  "same_fields (STATUS_KEYS - {''snapshot''}) d (obj_fields (status_dict s)) \<longleftrightarrow>
    get d ''protocol_version'' = JInt (bs_protocol_version s)
    \<and> get d ''instance_id'' = JStr (bs_instance_id s)
    \<and> get d ''sequence'' = json_of_opt_int (bs_sequence s)
    \<and> get d ''phase'' = JStr (bs_phase s) \<and> get d ''ble'' = JStr (bs_ble s)
    \<and> get d ''mqtt'' = JStr (bs_mqtt s) \<and> get d ''uptime_s'' = json_of_opt_int (bs_uptime_s s)
    \<and> get d ''error'' = JStr (bs_error s) \<and> get d ''time'' = json_of_opt_str (bs_time s)"
  by (simp add: status_keys_without_snapshot same_fields_insert status_dict_def)

lemma parse_snapshot_iff: "parse_snapshot v = Some s \<longleftrightarrow> snapshot_ok s \<and> encodes_snapshot v s"
proof (cases v)
  case (JObj d)
  then show ?thesis
    by (cases s) (auto simp: parse_snapshot_def snapshot_ok_def encodes_snapshot_def
        same_snapshot_fields is_counter_iff is_optional_counter_iff)
qed (simp_all add: parse_snapshot_def encodes_snapshot_def)

lemma status_from_dict_iff: "status_from_dict v = Some s \<longleftrightarrow> status_ok s \<and> encodes_status v s"
proof (cases v)
  case (JObj d)
  show ?thesis
  proof
    assume a: "status_from_dict v = Some s"
    then have "status_ok s" by (rule status_from_dict_ok)
    moreover from a JObj obtain y where y: "parse_snapshot (get d ''snapshot'') = Some y"
      by (auto simp: status_from_dict_def Let_def split: if_splits)
    then have "encodes_snapshot (get d ''snapshot'') y"
      by (simp add: parse_snapshot_iff)
    with a JObj y have "encodes_status v s"
      by (auto simp: status_from_dict_def encodes_status_def same_status_fields Let_def
          validator_iffs time_ok_iff split: if_splits)
    ultimately show "status_ok s \<and> encodes_status v s" by simp
  next
    assume a: "status_ok s \<and> encodes_status v s"
    with JObj have "parse_snapshot (get d ''snapshot'') = Some (bs_snapshot s)"
      by (simp add: parse_snapshot_iff status_ok_def encodes_status_def)
    with a JObj show "status_from_dict v = Some s"
      by (cases s) (auto simp: status_from_dict_def status_ok_def encodes_status_def
          same_status_fields Let_def)
  qed
qed (simp_all add: status_from_dict_def encodes_status_def)

lemma protocol_version_of_status:
  "protocol_version_of (Some (status_dict s)) =
     (if counter_ok (bs_protocol_version s) then Some (bs_protocol_version s) else None)"
  by (simp add: protocol_version_of_def load_object_def status_dict_def)

section \<open>Sample messages\<close>

text \<open>A valid heartbeat of the instance whose id is 32 times one hex digit, used by the witnesses.\<close>

definition sample_status :: "char \<Rightarrow> int \<Rightarrow> string \<Rightarrow> bridge_status" where
  "sample_status c n phase =
     \<lparr>bs_instance_id = replicate 32 c, bs_sequence = Some n, bs_phase = phase,
      bs_ble = LINK_CONNECTED, bs_mqtt = LINK_CONNECTED, bs_uptime_s = Some 60,
      bs_snapshot = \<lparr>ss_generation = 1, ss_units = 2, ss_scenes = 1, ss_failed = 0, ss_age_s = Some 5\<rparr>,
      bs_error = ERROR_NONE, bs_time = None, bs_protocol_version = 1\<rparr>"

lemma sample_status_ok:
  "instance_id_char c \<Longrightarrow> counter_ok n \<Longrightarrow> phase \<in> set PHASES \<Longrightarrow> status_ok (sample_status c n phase)"
  by (simp add: sample_status_def status_ok_def snapshot_ok_def instance_id_ok_def full_match_def
      list_all_iff counter_ok_def LINK_STATES_def ERROR_CATEGORIES_def)

lemma sample_status_fields [simp]:
  "bs_instance_id (sample_status c n phase) = replicate 32 c"
  "bs_sequence (sample_status c n phase) = Some n"
  "bs_phase (sample_status c n phase) = phase"
  "bs_protocol_version (sample_status c n phase) = 1"
  by (simp_all add: sample_status_def)

lemma hex_digits [simp]: "instance_id_char (CHR ''a'')" "instance_id_char (CHR ''b'')"
  by (simp_all add: instance_id_char_def in_range_def)

end
