(* ===== verification/Health_Settings.thy ===== *)
theory Health_Settings
  imports Json
begin

text \<open>
  The validated settings of one config entry (\<^verbatim>\<open>health.py\<close>, \<^verbatim>\<open>HealthSettings\<close> and
  \<^verbatim>\<open>SETTING_RANGES\<close>). Options are the JSON values Home Assistant stores for the entry.
\<close>

abbreviation "DEFAULT_STALE_SECONDS \<equiv> (120 :: int)"
abbreviation "DEFAULT_STARTUP_GRACE_SECONDS \<equiv> (90 :: int)"
abbreviation "DEFAULT_PROBE_INTERVAL_SECONDS \<equiv> (300 :: int)"
abbreviation "DEFAULT_CONSUMER_PROBE_INTERVAL_SECONDS \<equiv> (900 :: int)"
abbreviation "DEFAULT_PROBE_DEADLINE_SECONDS \<equiv> (20 :: int)"
abbreviation "MIN_PROBE_INTERVAL_SECONDS \<equiv> (300 :: int)"
abbreviation "RETIRED_INSTANCE_MEMORY \<equiv> (8 :: nat)"
abbreviation "DEFAULT_RECOVERY_COOLDOWN_SECONDS \<equiv> (600 :: int)"
abbreviation "DEFAULT_STALE_CONFIRM_SECONDS \<equiv> (90 :: int)"
abbreviation "DEFAULT_RECOVERY_VERIFY_SECONDS \<equiv> (180 :: int)"

abbreviation "CONF_STALE_SECONDS \<equiv> ''health_stale_seconds''"
abbreviation "CONF_STARTUP_GRACE_SECONDS \<equiv> ''health_startup_grace_seconds''"
abbreviation "CONF_PROBE_INTERVAL_SECONDS \<equiv> ''health_probe_interval_seconds''"
abbreviation "CONF_CONSUMER_PROBE_INTERVAL_SECONDS \<equiv> ''health_consumer_probe_interval_seconds''"
abbreviation "CONF_PROBE_DEADLINE_SECONDS \<equiv> ''health_probe_deadline_seconds''"
abbreviation "CONF_RECOVERY_ENABLED \<equiv> ''health_recovery_enabled''"
abbreviation "CONF_RECOVERY_COOLDOWN_SECONDS \<equiv> ''health_recovery_cooldown_seconds''"
abbreviation "CONF_STALE_CONFIRM_SECONDS \<equiv> ''health_stale_confirm_seconds''"
abbreviation "CONF_RECOVERY_VERIFY_SECONDS \<equiv> ''health_recovery_verify_seconds''"

text \<open>The default, minimum and maximum of every setting, in the source's order.\<close>

definition SETTING_RANGES :: "(string \<times> int \<times> int \<times> int) list" where
  "SETTING_RANGES =
    [(CONF_STALE_SECONDS, DEFAULT_STALE_SECONDS, 60, 3600),
     (CONF_STARTUP_GRACE_SECONDS, DEFAULT_STARTUP_GRACE_SECONDS, 30, 1800),
     (CONF_PROBE_INTERVAL_SECONDS, DEFAULT_PROBE_INTERVAL_SECONDS, MIN_PROBE_INTERVAL_SECONDS, 86400),
     (CONF_CONSUMER_PROBE_INTERVAL_SECONDS, DEFAULT_CONSUMER_PROBE_INTERVAL_SECONDS,
        MIN_PROBE_INTERVAL_SECONDS, 86400),
     (CONF_PROBE_DEADLINE_SECONDS, DEFAULT_PROBE_DEADLINE_SECONDS, 5, 120),
     (CONF_RECOVERY_COOLDOWN_SECONDS, DEFAULT_RECOVERY_COOLDOWN_SECONDS, 600, 86400),
     (CONF_STALE_CONFIRM_SECONDS, DEFAULT_STALE_CONFIRM_SECONDS, 90, 3600),
     (CONF_RECOVERY_VERIFY_SECONDS, DEFAULT_RECOVERY_VERIFY_SECONDS, 60, 900)]"

record health_settings =
  stale_seconds :: int
  startup_grace_seconds :: int
  probe_interval_seconds :: int
  consumer_probe_interval_seconds :: int
  probe_deadline_seconds :: int
  recovery_cooldown_seconds :: int
  stale_confirm_seconds :: int
  recovery_verify_seconds :: int
  recovery_enabled :: bool

text \<open>One pass of the loop of \<^verbatim>\<open>from_options\<close>: the stored value if it is an in-range integer.\<close>

definition option_value :: "(string \<times> json) list \<Rightarrow> string \<Rightarrow> int" where
  "option_value options key =
     (case map_of SETTING_RANGES key of
        None \<Rightarrow> 0
      | Some (dflt, minimum, maximum) \<Rightarrow>
          (case get_default options key (JInt dflt) of
             JInt value \<Rightarrow> if minimum \<le> value \<and> value \<le> maximum then value else dflt
           | _ \<Rightarrow> dflt))"

definition from_options :: "(string \<times> json) list \<Rightarrow> health_settings" where
  "from_options options =
     \<lparr>stale_seconds = option_value options CONF_STALE_SECONDS,
      startup_grace_seconds = option_value options CONF_STARTUP_GRACE_SECONDS,
      probe_interval_seconds = option_value options CONF_PROBE_INTERVAL_SECONDS,
      consumer_probe_interval_seconds = option_value options CONF_CONSUMER_PROBE_INTERVAL_SECONDS,
      probe_deadline_seconds = option_value options CONF_PROBE_DEADLINE_SECONDS,
      recovery_cooldown_seconds = option_value options CONF_RECOVERY_COOLDOWN_SECONDS,
      stale_confirm_seconds = option_value options CONF_STALE_CONFIRM_SECONDS,
      recovery_verify_seconds = option_value options CONF_RECOVERY_VERIFY_SECONDS,
      recovery_enabled =
        (case get_default options CONF_RECOVERY_ENABLED (JBool True) of JBool b \<Rightarrow> b | _ \<Rightarrow> True)\<rparr>"

definition default_settings :: health_settings where
  "default_settings = from_options []"

text \<open>The ranges every \<open>HealthSettings\<close> built from stored options lies in.\<close>

definition settings_in_range :: "health_settings \<Rightarrow> bool" where
  "settings_in_range s \<longleftrightarrow>
     60 \<le> stale_seconds s \<and> stale_seconds s \<le> 3600
   \<and> 30 \<le> startup_grace_seconds s \<and> startup_grace_seconds s \<le> 1800
   \<and> MIN_PROBE_INTERVAL_SECONDS \<le> probe_interval_seconds s \<and> probe_interval_seconds s \<le> 86400
   \<and> MIN_PROBE_INTERVAL_SECONDS \<le> consumer_probe_interval_seconds s
   \<and> consumer_probe_interval_seconds s \<le> 86400
   \<and> 5 \<le> probe_deadline_seconds s \<and> probe_deadline_seconds s \<le> 120
   \<and> 600 \<le> recovery_cooldown_seconds s \<and> recovery_cooldown_seconds s \<le> 86400
   \<and> 90 \<le> stale_confirm_seconds s \<and> stale_confirm_seconds s \<le> 3600
   \<and> 60 \<le> recovery_verify_seconds s \<and> recovery_verify_seconds s \<le> 900"

lemma option_value_range:
  assumes "map_of SETTING_RANGES key = Some (dflt, minimum, maximum)" "minimum \<le> dflt" "dflt \<le> maximum"
  shows "minimum \<le> option_value options key \<and> option_value options key \<le> maximum"
  using assms by (simp add: option_value_def split: json.split)

lemma from_options_in_range: "settings_in_range (from_options options)"
proof -
  note r = option_value_range[where options = options]
  show ?thesis
    unfolding settings_in_range_def from_options_def health_settings.simps
    using r[of CONF_STALE_SECONDS] r[of CONF_STARTUP_GRACE_SECONDS]
      r[of CONF_PROBE_INTERVAL_SECONDS] r[of CONF_CONSUMER_PROBE_INTERVAL_SECONDS]
      r[of CONF_PROBE_DEADLINE_SECONDS] r[of CONF_RECOVERY_COOLDOWN_SECONDS]
      r[of CONF_STALE_CONFIRM_SECONDS] r[of CONF_RECOVERY_VERIFY_SECONDS]
    by (simp add: SETTING_RANGES_def)
qed

text \<open>A stored integer inside its range is used as it is; anything else gives the default.\<close>

lemma option_value_kept:
  assumes "map_of SETTING_RANGES key = Some (dflt, minimum, maximum)"
    and "map_of options key = Some (JInt n)" "minimum \<le> n" "n \<le> maximum"
  shows "option_value options key = n"
  using assms by (simp add: option_value_def get_default_def)

lemma option_value_default:
  assumes "map_of SETTING_RANGES key = Some (dflt, minimum, maximum)"
    and "\<And>n. map_of options key = Some (JInt n) \<Longrightarrow> n < minimum \<or> maximum < n"
  shows "option_value options key = dflt"
  using assms by (fastforce simp: option_value_def get_default_def split: json.split option.split)

end
