(* ===== verification/Bridge_Tracker.thy ===== *)
theory Bridge_Tracker
  imports Protocol Health_Settings
begin

text \<open>
  \<^verbatim>\<open>health.py\<close>, \<^verbatim>\<open>BridgeStatusTracker\<close>: Home Assistant's verdict about the bridge from live,
  ordered v1 status messages only.
\<close>

section \<open>State and operations\<close>

datatype bridge_state = STARTING | HEALTHY | DEGRADED | UNAVAILABLE | UNKNOWN | UNSUPPORTED

record tracker =
  tr_settings :: health_settings
  tr_started_at :: time
  tr_status :: "bridge_status option"
  tr_received_at :: "time option"
  tr_retained :: "bridge_status option"
  tr_unsupported_version :: bool
  tr_ignored :: nat
  tr_retired :: "string list"
  tr_max_sequence :: "int option"

definition new_tracker :: "health_settings \<Rightarrow> time \<Rightarrow> tracker" where
  "new_tracker settings started_at =
     \<lparr>tr_settings = settings, tr_started_at = started_at, tr_status = None, tr_received_at = None,
      tr_retained = None, tr_unsupported_version = False, tr_ignored = 0, tr_retired = [],
      tr_max_sequence = None\<rparr>"

definition tracker_instance_id :: "tracker \<Rightarrow> string option" where
  "tracker_instance_id t = map_option bs_instance_id (tr_status t)"

text \<open>The tail of \<^verbatim>\<open>on_message\<close>: the message is live and becomes the current status.\<close>

definition accept_status :: "tracker \<Rightarrow> bridge_status \<Rightarrow> time \<Rightarrow> tracker" where
  "accept_status t status now =
     t\<lparr>tr_max_sequence := (case bs_sequence status of None \<Rightarrow> tr_max_sequence t | Some n \<Rightarrow> Some n),
       tr_status := Some status, tr_received_at := Some now\<rparr>"

definition ignore_status :: "tracker \<Rightarrow> tracker" where
  "ignore_status t = t\<lparr>tr_ignored := Suc (tr_ignored t)\<rparr>"

text \<open>\<^verbatim>\<open>status.sequence is not None and self._max_sequence is not None and status.sequence <= self._max_sequence\<close>\<close>

fun not_increasing :: "int option \<Rightarrow> int option \<Rightarrow> bool" where
  "not_increasing (Some n) (Some m) = (n \<le> m)"
| "not_increasing _ _ = False"

text \<open>The branch for another instance: retire the current one and start a new sequence.\<close>

definition retire_current :: "tracker \<Rightarrow> tracker" where
  "retire_current t =
     t\<lparr>tr_retired := (case tr_status t of
          None \<Rightarrow> tr_retired t
        | Some current \<Rightarrow>
            last_n RETIRED_INSTANCE_MEMORY (tr_retired t @ [bs_instance_id current])),
       tr_max_sequence := None\<rparr>"

definition on_message :: "payload \<Rightarrow> bool \<Rightarrow> time \<Rightarrow> tracker \<Rightarrow> bool \<times> tracker" where
  "on_message payload retain now t =
     (let version = protocol_version_of payload in
      if version \<noteq> None \<and> version \<noteq> Some PROTOCOL_VERSION
      then (False, t\<lparr>tr_unsupported_version := True\<rparr>)
      else (case parse_status payload of
        None \<Rightarrow> (False, ignore_status t)
      | Some status \<Rightarrow>
          if retain then (False, t\<lparr>tr_retained := Some status\<rparr>)
          else if bs_instance_id status \<in> set (tr_retired t) then (False, ignore_status t)
          else if tracker_instance_id t = Some (bs_instance_id status) then
            (if not_increasing (bs_sequence status) (tr_max_sequence t)
             then (False, ignore_status t)
             else (True, accept_status t status now))
          else (True, accept_status (retire_current t) status now)))"

definition evaluate :: "time \<Rightarrow> tracker \<Rightarrow> bridge_state" where
  "evaluate now t =
     (let in_grace = now - tr_started_at t < of_int (startup_grace_seconds (tr_settings t)) in
      case (tr_status t, tr_received_at t) of
        (Some status, Some received_at) \<Rightarrow>
          if bs_phase status = PHASE_OFFLINE then UNAVAILABLE
          else if now - received_at > of_int (stale_seconds (tr_settings t)) then UNAVAILABLE
          else if bs_phase status = PHASE_READY then HEALTHY
          else if bs_phase status = PHASE_DEGRADED then DEGRADED
          else STARTING
      | _ \<Rightarrow>
          if in_grace then STARTING
          else if tr_unsupported_version t then UNSUPPORTED
          else UNKNOWN)"

text \<open>A run of the status subscription: the accepted messages, in order, and the final tracker.\<close>

fun track :: "(payload \<times> bool \<times> time) list \<Rightarrow> tracker \<Rightarrow> (bridge_status \<times> time) list \<times> tracker" where
  "track [] t = ([], t)"
| "track ((payload, retain, now) # ms) t =
     (let (live, t') = on_message payload retain now t; (rest, t'') = track ms t' in
      ((if live then [(the (parse_status payload), now)] else []) @ rest, t''))"

section \<open>What is accepted\<close>

lemmas tracker_defs = on_message_def accept_status_def ignore_status_def retire_current_def
  tracker_instance_id_def

lemma on_message_accepted:
  assumes "on_message payload retain now t = (True, t')"
  obtains status where "parse_status payload = Some status" "\<not> retain"
    "bs_instance_id status \<notin> set (tr_retired t)"
    "tr_status t' = Some status" "tr_received_at t' = Some now"
    "tracker_instance_id t = Some (bs_instance_id status) \<Longrightarrow>
       \<not> not_increasing (bs_sequence status) (tr_max_sequence t)
       \<and> t' = accept_status t status now"
    "tracker_instance_id t \<noteq> Some (bs_instance_id status) \<Longrightarrow>
       t' = accept_status (retire_current t) status now"
  using assms
  by (auto simp: on_message_def Let_def accept_status_def split: if_splits option.splits)

lemma on_message_rejected:
  assumes "on_message payload retain now t = (False, t')"
  shows "tr_status t' = tr_status t \<and> tr_received_at t' = tr_received_at t
    \<and> tr_retired t' = tr_retired t \<and> tr_max_sequence t' = tr_max_sequence t"
  using assms by (auto simp: on_message_def Let_def ignore_status_def split: if_splits option.splits)

lemma on_message_retires:
  "on_message payload retain now t = (True, t') \<Longrightarrow> parse_status payload = Some status \<Longrightarrow>
     tr_retired t' = (if tracker_instance_id t = Some (bs_instance_id status) then tr_retired t
       else tr_retired (retire_current t))"
  by (auto simp: on_message_def accept_status_def Let_def split: if_splits option.splits)

lemma on_message_constant:
  "tr_settings (snd (on_message payload retain now t)) = tr_settings t"
  "tr_started_at (snd (on_message payload retain now t)) = tr_started_at t"
  by (auto simp: tracker_defs Let_def split: if_splits option.splits)

text \<open>
  The tracker's invariant: a status and its receipt time come together, at most eight
  instances are remembered as replaced, and the current one is not among them; the highest
  sequence belongs to the current instance.
\<close>

definition tracker_inv :: "tracker \<Rightarrow> bool" where
  "tracker_inv t \<longleftrightarrow>
     (tr_status t = None \<longleftrightarrow> tr_received_at t = None)
   \<and> length (tr_retired t) \<le> RETIRED_INSTANCE_MEMORY
   \<and> (\<forall>s. tr_status t = Some s \<longrightarrow> status_ok s \<and> bs_instance_id s \<notin> set (tr_retired t)
        \<and> (\<forall>n. bs_sequence s = Some n \<longrightarrow> tr_max_sequence t = Some n))
   \<and> (tr_status t = None \<longrightarrow> tr_max_sequence t = None)"

lemma tracker_inv_new: "tracker_inv (new_tracker settings now)"
  by (simp add: tracker_inv_def new_tracker_def)

lemma tracker_inv_on_message:
  assumes "tracker_inv t" shows "tracker_inv (snd (on_message payload retain now t))"
proof (cases "on_message payload retain now t")
  case (Pair live t')
  show ?thesis
  proof (cases live)
    case False
    with Pair on_message_rejected[of payload retain now t t'] assms show ?thesis
      by (simp add: tracker_inv_def)
  next
    case True
    with Pair have "on_message payload retain now t = (True, t')" by simp
    then show ?thesis
    proof (rule on_message_accepted)
      fix status
      assume parsed: "parse_status payload = Some status"
        and fresh: "bs_instance_id status \<notin> set (tr_retired t)"
        and same: "tracker_instance_id t = Some (bs_instance_id status) \<Longrightarrow>
          \<not> not_increasing (bs_sequence status) (tr_max_sequence t) \<and> t' = accept_status t status now"
        and other: "tracker_instance_id t \<noteq> Some (bs_instance_id status) \<Longrightarrow>
          t' = accept_status (retire_current t) status now"
      have ok: "status_ok status" using parsed by (rule parse_status_ok)
      show ?thesis
      proof (cases "tracker_instance_id t = Some (bs_instance_id status)")
        case True
        with same assms ok fresh Pair show ?thesis
          by (auto simp: tracker_inv_def accept_status_def split: option.splits)
      next
        case False
        have "bs_instance_id status \<notin> set (last_n RETIRED_INSTANCE_MEMORY
            (tr_retired t @ [bs_instance_id current]))" if "tr_status t = Some current" for current
          using False fresh that set_last_n[of RETIRED_INSTANCE_MEMORY
              "tr_retired t @ [bs_instance_id current]"]
          by (auto simp: tracker_instance_id_def)
        with other[OF False] assms ok fresh Pair show ?thesis
          by (auto simp: tracker_inv_def accept_status_def retire_current_def split: option.splits)
      qed
    qed
  qed
qed

section \<open>Runs\<close>

lemma tracker_inv_track: "tracker_inv t \<Longrightarrow> tracker_inv (snd (track ms t))"
proof (induction ms t rule: track.induct)
  case (2 payload retain now ms t)
  then show ?case
    using tracker_inv_on_message[OF "2.prems", of payload retain now]
    by (auto simp: Let_def split: prod.splits)
qed simp

lemma track_constant:
  "tr_settings (snd (track ms t)) = tr_settings t \<and> tr_started_at (snd (track ms t)) = tr_started_at t"
proof (induction ms t rule: track.induct)
  case (2 payload retain now ms t)
  then show ?case
    using on_message_constant[of payload retain now t] by (auto simp: Let_def split: prod.splits)
qed simp

text \<open>Every accepted status is a live (not retained) message of the run.\<close>

lemma track_live:
  "(status, now) \<in> set (fst (track ms t)) \<Longrightarrow>
     \<exists>payload. (payload, False, now) \<in> set ms \<and> parse_status payload = Some status"
proof (induction ms t rule: track.induct)
  case (2 payload retain rcv ms t)
  obtain live t' where a: "on_message payload retain rcv t = (live, t')" by force
  show ?case
  proof (cases "(status, now) \<in> set (fst (track ms t'))")
    case True
    with "2.IH"[OF a[symmetric] refl True] show ?thesis by auto
  next
    case False
    with "2.prems" a have "live" "status = the (parse_status payload)" "now = rcv"
      by (auto simp: Let_def split: prod.splits if_splits)
    with a show ?thesis by (auto elim!: on_message_accepted)
  qed
qed simp

text \<open>The tracker's status is the last accepted one.\<close>

lemma track_last:
  "fst (track ms t) \<noteq> [] \<Longrightarrow>
     tr_status (snd (track ms t)) = Some (fst (last (fst (track ms t))))
     \<and> tr_received_at (snd (track ms t)) = Some (snd (last (fst (track ms t))))"
  "fst (track ms t) = [] \<Longrightarrow>
     tr_status (snd (track ms t)) = tr_status t \<and> tr_received_at (snd (track ms t)) = tr_received_at t"
proof (induction ms t rule: track.induct)
  case (2 payload retain now ms t)
  obtain live t' where a: "on_message payload retain now t = (live, t')" by force
  obtain acc t'' where b: "track ms t' = (acc, t'')" by force
  note IH = "2.IH"[OF a[symmetric] refl, unfolded b, simplified]
  have acc: "live \<Longrightarrow> tr_status t' = Some (the (parse_status payload)) \<and> tr_received_at t' = Some now"
    using a by (auto elim!: on_message_accepted)
  have rej: "\<not> live \<Longrightarrow> tr_status t' = tr_status t \<and> tr_received_at t' = tr_received_at t"
    using a on_message_rejected[of payload retain now t t'] by simp
  {
    case 1
    show ?case using 1 IH acc a b by (cases "acc = []") (auto split: if_splits)
  next
    case 2
    show ?case using 2 IH rej a b by (auto split: if_splits)
  }
qed simp_all

lemma evaluate_healthy:
  "evaluate now t = HEALTHY \<Longrightarrow> \<exists>status rcv. tr_status t = Some status \<and> tr_received_at t = Some rcv
     \<and> bs_phase status = PHASE_READY \<and> now - rcv \<le> of_int (stale_seconds (tr_settings t))"
  by (auto simp: evaluate_def Let_def split: option.splits if_splits)

text \<open>The number of times the instance changes along a list of instance ids.\<close>

fun switches :: "string list \<Rightarrow> nat" where
  "switches (x # y # zs) = (if x = y then 0 else 1) + switches (y # zs)"
| "switches _ = 0"

abbreviation instance_of :: "bridge_status \<times> time \<Rightarrow> string" where
  "instance_of e \<equiv> bs_instance_id (fst e)"

text \<open>A run up to an accepted message, and the run from the state right after it.\<close>

lemma track_split:
  assumes "track ms t = (us @ a # rest, t')" "tracker_inv t"
  shows "\<exists>ms2 t2. track ms2 t2 = (rest, t') \<and> tr_status t2 = Some (fst a) \<and> tracker_inv t2"
  using assms
proof (induction ms arbitrary: t us)
  case Nil
  then show ?case by simp
next
  case (Cons m ms)
  obtain payload retain now where m: "m = (payload, retain, now)" by (cases m) auto
  obtain live t1 where a: "on_message payload retain now t = (live, t1)" by force
  obtain acc t'' where b: "track ms t1 = (acc, t'')" by force
  have inv: "tracker_inv t1" using tracker_inv_on_message[OF Cons.prems(2), of payload retain now] a by simp
  have run: "(if live then [(the (parse_status payload), now)] else []) @ acc = us @ a # rest" "t'' = t'"
    using Cons.prems(1) m a b by auto
  show ?case
  proof (cases "live \<and> us = []")
    case True
    then have "tr_status t1 = Some (fst a)" "acc = rest"
      using run a by (auto elim!: on_message_accepted)
    with b run inv show ?thesis by blast
  next
    case False
    with run obtain us' where "acc = us' @ a # rest" by (cases us) (auto split: if_splits)
    with Cons.IH[of t1 us'] b run inv show ?thesis by simp
  qed
qed

lemma last_n_keeps:
  "length q < n \<Longrightarrow> \<exists>p'. last_n n (p @ i # q) = p' @ i # q"
  by (rule exI[of _ "drop (length p + Suc (length q) - n) p"]) (auto simp: last_n_def)

lemma retired_stays_out:
  assumes "track ms t = (zs @ ws, t')" "tr_retired t = p @ i # q" "tracker_instance_id t = Some c"
    and "length q + switches (c # map instance_of zs) < RETIRED_INSTANCE_MEMORY"
  shows "i \<notin> set (map instance_of zs)"
  using assms
proof (induction ms arbitrary: t p q c zs)
  case Nil
  then show ?case by simp
next
  case (Cons m ms)
  obtain payload retain now where m: "m = (payload, retain, now)" by (cases m) auto
  obtain live t1 where a: "on_message payload retain now t = (live, t1)" by force
  obtain acc1 where b: "track ms t1 = (acc1, t')" using Cons.prems(1) m a by (auto split: prod.splits)
  have acc: "zs @ ws = (if live then [(the (parse_status payload), now)] else []) @ acc1"
    using Cons.prems(1) m a b by auto
  show ?case
  proof (cases live)
    case False
    with a on_message_rejected[of payload retain now t t1]
    have "tr_status t1 = tr_status t" "tr_retired t1 = tr_retired t"
      by (auto simp: on_message_def ignore_status_def Let_def split: if_splits option.splits)
    with Cons.IH[of t1 zs p q c] b Cons.prems acc False show ?thesis
      by (simp add: tracker_instance_id_def)
  next
    case True
    with a obtain status where st: "parse_status payload = Some status"
      "bs_instance_id status \<notin> set (tr_retired t)" "tr_status t1 = Some status"
      by (auto elim!: on_message_accepted)
    note retired = on_message_retires[of payload retain now t t1 status]
    have inst: "tracker_instance_id t1 = Some (bs_instance_id status)"
      using st by (simp add: tracker_instance_id_def)
    show ?thesis
    proof (cases zs)
      case Nil
      then show ?thesis by simp
    next
      case zs: (Cons z zs')
      with acc \<open>live\<close> st have z: "z = (status, now)" and acc1: "acc1 = zs' @ ws" by auto
      show ?thesis
      proof (cases "c = bs_instance_id status")
        case True
        with retired a \<open>live\<close> st Cons.prems(2,3) have "tr_retired t1 = p @ i # q" by simp
        from Cons.IH[OF b[unfolded acc1] this inst] Cons.prems(4) zs z st True Cons.prems(2)
        show ?thesis by auto
      next
        case False
        with Cons.prems(4) zs z
        have len: "length (q @ [c]) + switches (bs_instance_id status # map instance_of zs')
            < RETIRED_INSTANCE_MEMORY" by simp
        have "tr_retired (retire_current t) = last_n RETIRED_INSTANCE_MEMORY (p @ i # (q @ [c]))"
          using Cons.prems(2,3) by (auto simp: retire_current_def tracker_instance_id_def)
        moreover obtain p' where "last_n RETIRED_INSTANCE_MEMORY (p @ i # (q @ [c])) = p' @ i # (q @ [c])"
          using last_n_keeps[of "q @ [c]" RETIRED_INSTANCE_MEMORY p i] len by auto
        ultimately have "tr_retired t1 = p' @ i # (q @ [c])"
          using retired a \<open>live\<close> st False Cons.prems(3) by auto
        from Cons.IH[OF b[unfolded acc1] this inst len] zs z st Cons.prems(2) show ?thesis by auto
      qed
    qed
  qed
qed

lemma sequence_stays_above:
  assumes "track ms t = (vs @ b # ws, t')" "tracker_instance_id t = Some i" "instance_of b = i"
    and "switches (i # map instance_of (vs @ [b])) \<le> RETIRED_INSTANCE_MEMORY"
  shows "(\<forall>e \<in> set vs. instance_of e = i)
    \<and> (\<forall>m n. tr_max_sequence t = Some m \<longrightarrow> bs_sequence (fst b) = Some n \<longrightarrow> m < n)"
  using assms
proof (induction ms arbitrary: t vs)
  case Nil
  then show ?case by simp
next
  case (Cons m ms)
  obtain payload retain now where m: "m = (payload, retain, now)" by (cases m) auto
  obtain live t1 where a: "on_message payload retain now t = (live, t1)" by force
  obtain acc1 where b: "track ms t1 = (acc1, t')" using Cons.prems(1) m a by (auto split: prod.splits)
  have acc: "vs @ b # ws = (if live then [(the (parse_status payload), now)] else []) @ acc1"
    using Cons.prems(1) m a b by auto
  show ?case
  proof (cases live)
    case False
    with a on_message_rejected[of payload retain now t t1] have
      "tr_status t1 = tr_status t" "tr_max_sequence t1 = tr_max_sequence t" by auto
    with Cons.IH[of t1 vs] b Cons.prems acc False show ?thesis by (simp add: tracker_instance_id_def)
  next
    case True
    with a obtain status where st: "parse_status payload = Some status" "tr_status t1 = Some status"
      by (auto elim!: on_message_accepted)
    have inst: "tracker_instance_id t1 = Some (bs_instance_id status)"
      using st by (simp add: tracker_instance_id_def)
    show ?thesis
    proof (cases "bs_instance_id status = i")
      case True
      with a \<open>live\<close> st Cons.prems(2)
      have inc: "\<not> not_increasing (bs_sequence status) (tr_max_sequence t)"
        and t1: "t1 = accept_status t status now"
        by (auto elim!: on_message_accepted)
      show ?thesis
      proof (cases vs)
        case Nil
        with acc \<open>live\<close> st inc show ?thesis by auto
      next
        case (Cons v vs')
        with acc \<open>live\<close> have v: "v = (status, now)" and acc1: "acc1 = vs' @ b # ws" using st by auto
        have "switches (i # map instance_of (vs' @ [b])) \<le> RETIRED_INSTANCE_MEMORY"
          using Cons.prems(4) Cons v True by simp
        from Cons.IH[OF b[unfolded acc1] inst[unfolded True] Cons.prems(3) this] Cons v True inc t1
        show ?thesis by (fastforce simp: accept_status_def split: option.splits)
      qed
    next
      case False
      with acc \<open>live\<close> st Cons.prems(3) obtain vs' where vs: "vs = (status, now) # vs'"
        and acc1: "acc1 = vs' @ b # ws" by (cases vs) auto
      have "tr_retired t1 = last_n RETIRED_INSTANCE_MEMORY (tr_retired t @ i # [])"
        using on_message_retires[of payload retain now t t1 status] a \<open>live\<close> st False Cons.prems(2)
        by (auto simp: retire_current_def tracker_instance_id_def)
      then obtain p where p: "tr_retired t1 = p @ i # []"
        using last_n_keeps[of "[]" RETIRED_INSTANCE_MEMORY "tr_retired t" i] by auto
      have "i \<notin> set (map instance_of (vs' @ [b]))"
        using retired_stays_out[of ms t1 "vs' @ [b]" ws t', OF _ p inst] b Cons.prems(4) vs acc1 False
        by simp
      with Cons.prems(3) show ?thesis by auto
    qed
  qed
qed

section \<open>Properties\<close>

text \<open>Two live heartbeats of one instance, as the witnesses use them.\<close>

definition sample_run :: "(payload \<times> bool \<times> time) list" where
  "sample_run =
     [(Some (status_dict (sample_status (CHR ''a'') 1 PHASE_STARTING)), False, 1),
      (Some (status_dict (sample_status (CHR ''a'') 2 PHASE_READY)), False, 2)]"

lemma parse_sample:
  "instance_id_char c \<Longrightarrow> counter_ok n \<Longrightarrow> phase \<in> set PHASES \<Longrightarrow>
     parse_status (Some (status_dict (sample_status c n phase))) = Some (sample_status c n phase)
     \<and> protocol_version_of (Some (status_dict (sample_status c n phase))) = Some 1"
  by (simp add: parse_status_enc sample_status_ok protocol_version_of_status counter_ok_def)

lemma track_sample_run:
  "track sample_run (new_tracker settings 0) =
     ([(sample_status (CHR ''a'') 1 PHASE_STARTING, 1), (sample_status (CHR ''a'') 2 PHASE_READY, 2)],
      accept_status (accept_status (new_tracker settings 0) (sample_status (CHR ''a'') 1 PHASE_STARTING) 1)
        (sample_status (CHR ''a'') 2 PHASE_READY) 2)"
  by (simp add: sample_run_def on_message_def parse_sample counter_ok_def PHASES_def
      tracker_instance_id_def new_tracker_def accept_status_def retire_current_def)

text \<open>
  C26: the order of live statuses. Of two accepted statuses of one bridge instance, with at
  most eight changes of instance from the first to the second, everything accepted between them is of
  the same instance and the later sequence is the greater one; so a redelivered heartbeat, or one
  of a replaced process, never undoes a newer status, whatever last wills arrive between.
\<close>

theorem tracker_status_order:
  assumes "fst (track ms (new_tracker settings t0)) = us @ a # vs @ b # ws"
    and "instance_of a = instance_of b"
    and "switches (map instance_of (a # vs @ [b])) \<le> RETIRED_INSTANCE_MEMORY"
  shows "(\<forall>e \<in> set vs. instance_of e = instance_of a)
    \<and> (\<forall>m n. bs_sequence (fst a) = Some m \<longrightarrow> bs_sequence (fst b) = Some n \<longrightarrow> m < n)"
proof -
  obtain t' where run: "track ms (new_tracker settings t0) = (us @ a # vs @ b # ws, t')"
    using assms(1) by (metis prod.collapse)
  obtain ms2 t2 where t2: "track ms2 t2 = (vs @ b # ws, t')" "tr_status t2 = Some (fst a)" "tracker_inv t2"
    using track_split[OF run tracker_inv_new] by blast
  then have max: "bs_sequence (fst a) = Some m \<Longrightarrow> tr_max_sequence t2 = Some m" for m
    by (simp add: tracker_inv_def)
  have inst: "tracker_instance_id t2 = Some (instance_of a)"
    using t2(2) by (simp add: tracker_instance_id_def)
  have sw: "switches (instance_of a # map instance_of (vs @ [b])) \<le> RETIRED_INSTANCE_MEMORY"
    using assms(3) by (simp only: list.map)
  from sequence_stays_above[OF t2(1) inst assms(2)[symmetric] sw] max show ?thesis by blast
qed

theorem tracker_status_order_witness:
  "fst (track sample_run (new_tracker default_settings 0)) =
     [(sample_status (CHR ''a'') 1 PHASE_STARTING, 1), (sample_status (CHR ''a'') 2 PHASE_READY, 2)]
   \<and> (1 :: int) < 2"
  using tracker_status_order[of sample_run default_settings 0 "[]"
      "(sample_status (CHR ''a'') 1 PHASE_STARTING, 1)" "[]"
      "(sample_status (CHR ''a'') 2 PHASE_READY, 2)" "[]"]
  by (simp add: track_sample_run)

text \<open>
  The tracker is healthy only on live evidence: the run holds a message that is not
  retained, parses as a valid v1 status of phase ready, was received within the stale limit and is
  the last one accepted.
\<close>

theorem tracker_healthy_evidence:
  assumes "evaluate now (snd (track ms (new_tracker settings t0))) = HEALTHY"
  shows "\<exists>payload status rcv. (payload, False, rcv) \<in> set ms \<and> parse_status payload = Some status
    \<and> status_ok status \<and> bs_phase status = PHASE_READY
    \<and> now - rcv \<le> of_int (stale_seconds settings)
    \<and> last (fst (track ms (new_tracker settings t0))) = (status, rcv)"
proof -
  let ?t = "new_tracker settings t0"
  from evaluate_healthy[OF assms] obtain status rcv where
    s: "tr_status (snd (track ms ?t)) = Some status" "tr_received_at (snd (track ms ?t)) = Some rcv"
      "bs_phase status = PHASE_READY" "now - rcv \<le> of_int (stale_seconds settings)"
    by (auto simp: track_constant new_tracker_def)
  have ne: "fst (track ms ?t) \<noteq> []"
  proof
    assume "fst (track ms ?t) = []"
    from track_last(2)[OF this] s(1) show False by (simp add: new_tracker_def)
  qed
  then have l: "last (fst (track ms ?t)) = (status, rcv)"
    using track_last(1)[OF ne] s(1,2) by (simp add: prod_eq_iff)
  with ne have "(status, rcv) \<in> set (fst (track ms ?t))" by (metis last_in_set)
  with track_live[OF this] l s show ?thesis by (auto dest: parse_status_ok)
qed

theorem tracker_healthy_evidence_witness:
  "evaluate 60 (snd (track sample_run (new_tracker default_settings 0))) = HEALTHY
   \<and> (\<exists>payload status rcv. (payload, False, rcv) \<in> set sample_run
        \<and> parse_status payload = Some status \<and> bs_phase status = PHASE_READY)"
proof -
  have h: "evaluate 60 (snd (track sample_run (new_tracker default_settings 0))) = HEALTHY"
    unfolding track_sample_run
    by (simp add: evaluate_def accept_status_def new_tracker_def
        default_settings_def from_options_def option_value_def SETTING_RANGES_def)
  from tracker_healthy_evidence[OF h] h show ?thesis by blast
qed

end
