(* ===== verification/Probe_Tracker.thy ===== *)
theory Probe_Tracker
  imports Protocol Health_Settings
begin

text \<open>
  \<^verbatim>\<open>health.py\<close>, \<^verbatim>\<open>PendingProbe\<close> and \<^verbatim>\<open>ProbeTracker\<close>: one correlated probe at a time,
  which succeeds only by its own reply and, for a consumer probe, only if the entry's callback
  handled every unit message the raw listener saw. Every operation returns the finished probe's
  result, if it finished one, and the next tracker.
\<close>

section \<open>Probes\<close>

datatype probe_kind = STATUS | CONSUMER

datatype probe_outcome =
  OK
| NO_REPLY
| BRIDGE_FAILED
| BRIDGE_BUSY
| DELIVERY_INCOMPLETE
| CONSUMER_PARTIAL
| CONSUMER_STALE
| NO_UNITS
| SUPERSEDED

text \<open>
  The identity of one MQTT message: its receipt timestamp, or a fresh \<^verbatim>\<open>object()\<close>, which is
  equal to nothing else; fresh objects are numbered.
\<close>

datatype identity = Stamp time | Fresh nat

type_synonym message_id = "string \<times> identity"

definition message_key :: "string \<Rightarrow> time option \<Rightarrow> nat \<Rightarrow> message_id" where
  "message_key topic ident fresh = (topic, case ident of None \<Rightarrow> Fresh fresh | Some x \<Rightarrow> Stamp x)"

record pending_probe =
  pp_kind :: probe_kind
  pp_request_id :: string
  pp_sent_at :: time
  pp_deadline_at :: time
  pp_instance_id :: "string option"
  pp_reply :: "health_reply option"
  pp_raw_messages :: "message_id set"
  pp_processed_messages :: "message_id set"

definition raw_topics :: "pending_probe \<Rightarrow> string set" where
  "raw_topics p = fst ` pp_raw_messages p"

definition processed_topics :: "pending_probe \<Rightarrow> string set" where
  "processed_topics p =
     raw_topics p - fst ` {m \<in> pp_raw_messages p. m \<notin> pp_processed_messages p}"

definition all_handled :: "pending_probe \<Rightarrow> bool" where
  "all_handled p \<longleftrightarrow> pp_raw_messages p \<subseteq> pp_processed_messages p"

definition any_handled :: "pending_probe \<Rightarrow> bool" where
  "any_handled p \<longleftrightarrow> pp_raw_messages p \<inter> pp_processed_messages p \<noteq> {}"

record probe_result =
  res_kind :: probe_kind
  res_outcome :: probe_outcome
  res_finished_at :: time
  res_expected_units :: "int option"
  res_raw_units :: nat
  res_processed_units :: nat

record probe_tracker =
  pt_settings :: health_settings
  pt_pending :: "pending_probe option"
  pt_rejected_replies :: nat
  pt_fresh :: nat

definition new_probe_tracker :: "health_settings \<Rightarrow> probe_tracker" where
  "new_probe_tracker settings =
     \<lparr>pt_settings = settings, pt_pending = None, pt_rejected_replies = 0, pt_fresh = 0\<rparr>"

section \<open>Operations\<close>

text \<open>\<open>token\<close> is the value \<^verbatim>\<open>self._token()\<close> returns for this probe.\<close>

definition start :: "probe_kind \<Rightarrow> time \<Rightarrow> string option \<Rightarrow> string \<Rightarrow> probe_tracker
    \<Rightarrow> pending_probe option \<times> probe_tracker" where
  "start kind now instance_id token t =
     (case pt_pending t of
        Some _ \<Rightarrow> (None, t)
      | None \<Rightarrow>
          let p = \<lparr>pp_kind = kind, pp_request_id = token, pp_sent_at = now,
                   pp_deadline_at = now + of_int (probe_deadline_seconds (pt_settings t)),
                   pp_instance_id = instance_id, pp_reply = None,
                   pp_raw_messages = {}, pp_processed_messages = {}\<rparr>
          in (Some p, t\<lparr>pt_pending := Some p\<rparr>))"

text \<open>\<open>_finish\<close>, for the pending probe \<open>p\<close> (its assertion that there is one).\<close>

definition finish :: "pending_probe \<Rightarrow> probe_outcome \<Rightarrow> time \<Rightarrow> probe_tracker
    \<Rightarrow> probe_result option \<times> probe_tracker" where
  "finish p outcome now t =
     (Some \<lparr>res_kind = pp_kind p, res_outcome = outcome, res_finished_at = now,
            res_expected_units = Option.bind (pp_reply p) hr_units,
            res_raw_units = card (raw_topics p),
            res_processed_units = card (processed_topics p)\<rparr>,
      t\<lparr>pt_pending := None\<rparr>)"

text \<open>\<^verbatim>\<open>reply.units or 0\<close>\<close>

definition units_or_0 :: "health_reply \<Rightarrow> int" where
  "units_or_0 r = (case hr_units r of None \<Rightarrow> 0 | Some u \<Rightarrow> u)"

definition check :: "time \<Rightarrow> probe_tracker \<Rightarrow> probe_result option \<times> probe_tracker" where
  "check now t =
     (case pt_pending t of
        None \<Rightarrow> (None, t)
      | Some p \<Rightarrow>
          if now \<le> pp_deadline_at p then
            (case pp_reply p of
               Some r \<Rightarrow>
                 if pp_kind p = CONSUMER \<and> units_or_0 r \<noteq> 0
                    \<and> int (card (raw_topics p)) \<ge> units_or_0 r \<and> all_handled p
                 then finish p OK now t else (None, t)
             | None \<Rightarrow> (None, t))
          else
            (case pp_reply p of
               None \<Rightarrow> finish p NO_REPLY now t
             | Some r \<Rightarrow>
                 if int (card (raw_topics p)) < units_or_0 r then finish p DELIVERY_INCOMPLETE now t
                 else if \<not> any_handled p then finish p CONSUMER_STALE now t
                 else finish p CONSUMER_PARTIAL now t))"

definition reply_type_of :: "probe_kind \<Rightarrow> string" where
  "reply_type_of kind = (if kind = STATUS then REPLY_STATUS else REPLY_SNAPSHOT)"

definition on_reply :: "payload \<Rightarrow> time \<Rightarrow> string option \<Rightarrow> probe_tracker
    \<Rightarrow> probe_result option \<times> probe_tracker" where
  "on_reply payload now instance_id t =
     (case (parse_reply payload, pt_pending t) of
        (Some reply, Some p) \<Rightarrow>
          if pp_reply p \<noteq> None
             \<or> hr_request_id reply \<noteq> pp_request_id p
             \<or> now > pp_deadline_at p
             \<or> (instance_id \<noteq> None \<and> Some (hr_instance_id reply) \<noteq> instance_id)
             \<or> hr_type reply \<noteq> reply_type_of (pp_kind p)
          then (None, t\<lparr>pt_rejected_replies := Suc (pt_rejected_replies t)\<rparr>)
          else
            (let p' = p\<lparr>pp_reply := Some reply\<rparr>; t' = t\<lparr>pt_pending := Some p'\<rparr> in
             if hr_result reply \<in> {RESULT_RATE_LIMITED, RESULT_BUSY} then finish p' BRIDGE_BUSY now t'
             else if hr_result reply \<noteq> RESULT_OK then finish p' BRIDGE_FAILED now t'
             else if pp_kind p = STATUS then finish p' OK now t'
             else if units_or_0 reply = 0 then finish p' NO_UNITS now t'
             else check now t')
      | _ \<Rightarrow> (None, t\<lparr>pt_rejected_replies := Suc (pt_rejected_replies t)\<rparr>))"

definition collecting :: "time \<Rightarrow> probe_tracker \<Rightarrow> pending_probe option" where
  "collecting now t =
     (case pt_pending t of
        None \<Rightarrow> None
      | Some p \<Rightarrow> if pp_kind p \<noteq> CONSUMER \<or> now > pp_deadline_at p then None else Some p)"

definition record_raw :: "string \<Rightarrow> time \<Rightarrow> time option \<Rightarrow> probe_tracker
    \<Rightarrow> probe_result option \<times> probe_tracker" where
  "record_raw topic now ident t =
     (case collecting now t of
        None \<Rightarrow> check now t
      | Some p \<Rightarrow>
          check now (t\<lparr>pt_pending := Some (p\<lparr>pp_raw_messages :=
                insert (message_key topic ident (pt_fresh t)) (pp_raw_messages p)\<rparr>),
              pt_fresh := Suc (pt_fresh t)\<rparr>))"

definition record_processed :: "string \<Rightarrow> time \<Rightarrow> time option \<Rightarrow> probe_tracker
    \<Rightarrow> probe_result option \<times> probe_tracker" where
  "record_processed topic now ident t =
     (case collecting now t of
        None \<Rightarrow> check now t
      | Some p \<Rightarrow>
          check now (t\<lparr>pt_pending := Some (p\<lparr>pp_processed_messages :=
                insert (message_key topic ident (pt_fresh t)) (pp_processed_messages p)\<rparr>),
              pt_fresh := Suc (pt_fresh t)\<rparr>))"

definition supersede :: "time \<Rightarrow> string option \<Rightarrow> probe_tracker
    \<Rightarrow> probe_result option \<times> probe_tracker" where
  "supersede now instance_id t =
     (case (pt_pending t, instance_id) of
        (Some p, Some i) \<Rightarrow>
          if (pp_instance_id p \<noteq> None \<and> pp_instance_id p \<noteq> Some i)
             \<or> (case pp_reply p of None \<Rightarrow> False | Some r \<Rightarrow> hr_instance_id r \<noteq> i)
          then finish p SUPERSEDED now t
          else (None, t)
      | _ \<Rightarrow> (None, t))"

definition cancel :: "probe_tracker \<Rightarrow> probe_tracker" where
  "cancel t = t\<lparr>pt_pending := None\<rparr>"

section \<open>Single operations\<close>

lemma finish_simps [simp]:
  "fst (finish p outcome now t) \<noteq> None"
  "snd (finish p outcome now t) = t\<lparr>pt_pending := None\<rparr>"
  by (simp_all add: finish_def)

lemma finish_eq [simp]:
  "finish p outcome now t = (Some r, t') \<longleftrightarrow>
     t' = t\<lparr>pt_pending := None\<rparr> \<and> Some r = fst (finish p outcome now t)"
  by (auto simp: finish_def)

lemma finish_outcome [simp]:
  "fst (finish p outcome now t) = Some r \<Longrightarrow> res_outcome r = outcome \<and> res_kind r = pp_kind p
     \<and> res_finished_at r = now \<and> res_raw_units r = card (raw_topics p)"
  by (auto simp: finish_def)

text \<open>A result is published exactly when the pending probe ends.\<close>

lemma check_pending:
  "check now t = (None, t') \<Longrightarrow> t' = t"
  "check now t = (Some r, t') \<Longrightarrow> pt_pending t \<noteq> None \<and> pt_pending t' = None"
  by (auto simp: check_def finish_def split: option.splits if_splits)

lemma check_after_deadline:
  "pt_pending t = Some p \<Longrightarrow> pp_deadline_at p < now \<Longrightarrow>
     \<exists>r. check now t = (Some r, t\<lparr>pt_pending := None\<rparr>) \<and> res_outcome r \<noteq> OK"
  by (auto simp: check_def finish_def split: option.splits)

lemma check_OK:
  assumes "check now t = (Some r, t')" "res_outcome r = OK"
  obtains p reply where "pt_pending t = Some p" "pp_kind p = CONSUMER" "pp_reply p = Some reply"
    "now \<le> pp_deadline_at p" "units_or_0 reply \<noteq> 0" "units_or_0 reply \<le> int (card (raw_topics p))"
    "all_handled p"
  using assms by (auto simp: check_def finish_def split: option.splits if_splits)

lemma check_STALE:
  assumes "check now t = (Some r, t')" "res_outcome r = CONSUMER_STALE"
  obtains p reply where "pt_pending t = Some p" "pp_reply p = Some reply"
    "pp_deadline_at p < now" "units_or_0 reply \<le> int (card (raw_topics p))" "\<not> any_handled p"
  using assms by (auto simp: check_def finish_def split: option.splits if_splits)

section \<open>Runs of the pending probe\<close>

text \<open>
  What can happen to a pending probe: a reply, a message seen by the raw listener or handled by
  the unit callback, a health tick, or a live status (which supersedes a probe of another instance).
\<close>

datatype probe_event =
  Reply payload "string option"
| Raw string "time option"
| Processed string "time option"
| Tick
| Live_Status "string option"

fun probe_step :: "probe_event \<Rightarrow> time \<Rightarrow> probe_tracker \<Rightarrow> probe_result option \<times> probe_tracker" where
  "probe_step (Reply payload instance_id) now t = on_reply payload now instance_id t"
| "probe_step (Raw topic ident) now t = record_raw topic now ident t"
| "probe_step (Processed topic ident) now t = record_processed topic now ident t"
| "probe_step Tick now t = check now t"
| "probe_step (Live_Status instance_id) now t = supersede now instance_id t"

text \<open>The run up to the first result: the result and the events it took.\<close>

fun run_probe :: "(probe_event \<times> time) list \<Rightarrow> probe_tracker
    \<Rightarrow> (probe_result \<times> (probe_event \<times> time) list) option" where
  "run_probe [] t = None"
| "run_probe ((e, now) # es) t =
     (case probe_step e now t of
        (Some r, t') \<Rightarrow> Some (r, [(e, now)])
      | (None, t') \<Rightarrow> map_option (\<lambda>(r, used). (r, (e, now) # used)) (run_probe es t'))"

text \<open>
  The messages and replies a list of events delivers by the deadline \<open>d\<close>: topic and identity of
  the raw and of the handled messages, payload and live instance of the replies.
\<close>

fun raws :: "time \<Rightarrow> (probe_event \<times> time) list \<Rightarrow> (string \<times> time option) set" where
  "raws d [] = {}"
| "raws d ((Raw topic ident, now) # h) = (if now \<le> d then {(topic, ident)} else {}) \<union> raws d h"
| "raws d (_ # h) = raws d h"

fun processeds :: "time \<Rightarrow> (probe_event \<times> time) list \<Rightarrow> (string \<times> time option) set" where
  "processeds d [] = {}"
| "processeds d ((Processed topic ident, now) # h) =
     (if now \<le> d then {(topic, ident)} else {}) \<union> processeds d h"
| "processeds d (_ # h) = processeds d h"

fun replies :: "time \<Rightarrow> (probe_event \<times> time) list \<Rightarrow> (payload \<times> string option) set" where
  "replies d [] = {}"
| "replies d ((Reply payload i, now) # h) = (if now \<le> d then {(payload, i)} else {}) \<union> replies d h"
| "replies d (_ # h) = replies d h"

lemma events_append [simp]:
  "raws d (h @ g) = raws d h \<union> raws d g"
  "processeds d (h @ g) = processeds d h \<union> processeds d g"
  "replies d (h @ g) = replies d h \<union> replies d g"
proof -
  show "raws d (h @ g) = raws d h \<union> raws d g" by (induction d h rule: raws.induct) auto
  show "processeds d (h @ g) = processeds d h \<union> processeds d g"
    by (induction d h rule: processeds.induct) auto
  show "replies d (h @ g) = replies d h \<union> replies d g" by (induction d h rule: replies.induct) auto
qed

text \<open>
  What a pending consumer probe's fields say about the events since its start: the raw set holds
  exactly the messages received by the deadline, a handled message is in the processed set exactly if it
  was handled by the deadline, fresh identities are never shared, and an accepted reply is this
  probe's.
\<close>

definition raw_seen :: "(probe_event \<times> time) list \<Rightarrow> pending_probe \<Rightarrow> bool" where
  "raw_seen h p \<longleftrightarrow>
     (\<forall>topic x. (topic, Stamp x) \<in> pp_raw_messages p \<longleftrightarrow> (topic, Some x) \<in> raws (pp_deadline_at p) h)
   \<and> (\<forall>topic. (\<exists>n. (topic, Fresh n) \<in> pp_raw_messages p) \<longleftrightarrow> (topic, None) \<in> raws (pp_deadline_at p) h)"

definition processed_seen :: "(probe_event \<times> time) list \<Rightarrow> pending_probe \<Rightarrow> bool" where
  "processed_seen h p \<longleftrightarrow>
     (\<forall>topic x. (topic, Stamp x) \<in> pp_processed_messages p
        \<longleftrightarrow> (topic, Some x) \<in> processeds (pp_deadline_at p) h)"

definition fresh_apart :: "nat \<Rightarrow> pending_probe \<Rightarrow> bool" where
  "fresh_apart n p \<longleftrightarrow>
     (\<forall>topic k. (topic, Fresh k) \<in> pp_raw_messages p \<longrightarrow> k < n)
   \<and> (\<forall>topic k. (topic, Fresh k) \<in> pp_processed_messages p \<longrightarrow> k < n)
   \<and> (\<forall>topic topic' k. (topic, Fresh k) \<in> pp_raw_messages p \<longrightarrow>
        (topic', Fresh k) \<notin> pp_processed_messages p)"

definition reply_seen :: "(probe_event \<times> time) list \<Rightarrow> pending_probe \<Rightarrow> bool" where
  "reply_seen h p \<longleftrightarrow> (\<forall>reply. pp_reply p = Some reply \<longrightarrow>
     hr_request_id reply = pp_request_id p \<and> hr_result reply = RESULT_OK
     \<and> hr_type reply = REPLY_SNAPSHOT \<and> units_or_0 reply \<noteq> 0
     \<and> (\<exists>payload i. (payload, i) \<in> replies (pp_deadline_at p) h \<and> parse_reply payload = Some reply
          \<and> (i \<noteq> None \<longrightarrow> i = Some (hr_instance_id reply))))"

definition probe_inv :: "(probe_event \<times> time) list \<Rightarrow> string \<Rightarrow> time \<Rightarrow> probe_tracker \<Rightarrow> bool" where
  "probe_inv h rid d t \<longleftrightarrow> (\<exists>p. pt_pending t = Some p \<and> pp_kind p = CONSUMER
     \<and> pp_request_id p = rid \<and> pp_deadline_at p = d
     \<and> raw_seen h p \<and> processed_seen h p \<and> fresh_apart (pt_fresh t) p \<and> reply_seen h p)"

lemmas probe_inv_defs = raw_seen_def processed_seen_def fresh_apart_def reply_seen_def

lemma probe_inv_start:
  assumes "start CONSUMER now i token t = (Some p, t')"
  shows "probe_inv [] token (now + of_int (probe_deadline_seconds (pt_settings t))) t'"
  using assms
  by (auto simp: start_def Let_def probe_inv_def probe_inv_defs raw_topics_def split: option.splits)

text \<open>The sets grow by the event's own message; a reply is recorded only with its correlation.\<close>

lemma raw_step:
  assumes "probe_inv h rid d t" "collecting now t = Some p"
  shows "probe_inv (h @ [(Raw topic ident, now)]) rid d
    (t\<lparr>pt_pending := Some (p\<lparr>pp_raw_messages :=
        insert (message_key topic ident (pt_fresh t)) (pp_raw_messages p)\<rparr>),
      pt_fresh := Suc (pt_fresh t)\<rparr>)"
  using assms
  by (cases ident) (fastforce simp: probe_inv_def probe_inv_defs collecting_def message_key_def
      less_Suc_eq split: option.splits if_splits)+

lemma processed_step:
  assumes "probe_inv h rid d t" "collecting now t = Some p"
  shows "probe_inv (h @ [(Processed topic ident, now)]) rid d
    (t\<lparr>pt_pending := Some (p\<lparr>pp_processed_messages :=
        insert (message_key topic ident (pt_fresh t)) (pp_processed_messages p)\<rparr>),
      pt_fresh := Suc (pt_fresh t)\<rparr>)"
  using assms
  by (cases ident) (fastforce simp: probe_inv_def probe_inv_defs collecting_def message_key_def
      less_Suc_eq split: option.splits if_splits)+


lemma probe_inv_other:
  assumes "probe_inv h rid d t" and "raws d [e] = {}" "processeds d [e] = {}"
  shows "probe_inv (h @ [e]) rid d t"
proof -
  from assms(1) obtain p where p: "pt_pending t = Some p" "pp_kind p = CONSUMER"
      "pp_request_id p = rid" "pp_deadline_at p = d" "raw_seen h p" "processed_seen h p"
      "fresh_apart (pt_fresh t) p" "reply_seen h p" by (auto simp: probe_inv_def)
  have "raw_seen (h @ [e]) p" "processed_seen (h @ [e]) p"
    using p assms(2,3) by (auto simp: raw_seen_def processed_seen_def)
  moreover have "reply_seen (h @ [e]) p"
    using p(8) unfolding reply_seen_def events_append by blast
  ultimately show ?thesis using p by (auto simp: probe_inv_def)
qed

lemma on_reply_accepted:
  assumes "parse_reply payload = Some reply" "pt_pending t = Some p" "pp_reply p = None"
    "hr_request_id reply = pp_request_id p" "now \<le> pp_deadline_at p"
    "i = None \<or> i = Some (hr_instance_id reply)" "hr_type reply = reply_type_of (pp_kind p)"
  shows "on_reply payload now i t =
    (let p' = p\<lparr>pp_reply := Some reply\<rparr>; t' = t\<lparr>pt_pending := Some p'\<rparr> in
             if hr_result reply \<in> {RESULT_RATE_LIMITED, RESULT_BUSY} then finish p' BRIDGE_BUSY now t'
             else if hr_result reply \<noteq> RESULT_OK then finish p' BRIDGE_FAILED now t'
             else if pp_kind p = STATUS then finish p' OK now t'
             else if units_or_0 reply = 0 then finish p' NO_UNITS now t'
             else check now t')"
  using assms unfolding on_reply_def by auto

text \<open>
  One step of a pending consumer probe: a verdict on the consumer is always the verdict of \<open>check\<close> on
  the evidence so far; every other result is inconclusive.
\<close>

definition inconclusive :: "probe_outcome \<Rightarrow> bool" where
  "inconclusive out \<longleftrightarrow> out \<in> {BRIDGE_BUSY, BRIDGE_FAILED, NO_UNITS, SUPERSEDED}"

lemma reply_step:
  assumes inv: "probe_inv h rid d t" and s: "on_reply payload now i t = (res, t')"
  shows "(\<exists>t1. probe_inv (h @ [(Reply payload i, now)]) rid d t1
             \<and> (check now t1 = (res, t') \<or> (res = None \<and> t' = t1)))
       \<or> (\<exists>r. res = Some r \<and> inconclusive (res_outcome r))"
proof -
  let ?e = "(Reply payload i, now)"
  from inv obtain p where p: "pt_pending t = Some p" "pp_kind p = CONSUMER"
      "pp_request_id p = rid" "pp_deadline_at p = d" "raw_seen h p" "processed_seen h p"
      "fresh_apart (pt_fresh t) p" "reply_seen h p" by (auto simp: probe_inv_def)
  have "raws d [?e] = {}" "processeds d [?e] = {}" by simp_all
  from probe_inv_other[OF inv this] have same: "probe_inv (h @ [?e]) rid d t" .
  then have reject: "probe_inv (h @ [?e]) rid d (t\<lparr>pt_rejected_replies := k\<rparr>)" for k
    by (simp add: probe_inv_def)
  show ?thesis
  proof (cases "parse_reply payload")
    case None
    then show ?thesis using s reject by (auto simp: on_reply_def)
  next
    case (Some reply)
    let ?t1 = "t\<lparr>pt_pending := Some (p\<lparr>pp_reply := Some reply\<rparr>)\<rparr>"
    show ?thesis
    proof (cases "pp_reply p \<noteq> None \<or> hr_request_id reply \<noteq> pp_request_id p
             \<or> now > pp_deadline_at p \<or> (i \<noteq> None \<and> Some (hr_instance_id reply) \<noteq> i)
             \<or> hr_type reply \<noteq> reply_type_of (pp_kind p)")
      case True
      then have "(res, t') = (None, t\<lparr>pt_rejected_replies := Suc (pt_rejected_replies t)\<rparr>)"
        using s Some p(1) unfolding on_reply_def by simp
      then show ?thesis using reject by auto
    next
      case False
      then have acc: "on_reply payload now i t =
        (let p' = p\<lparr>pp_reply := Some reply\<rparr>; t' = t\<lparr>pt_pending := Some p'\<rparr> in
             if hr_result reply \<in> {RESULT_RATE_LIMITED, RESULT_BUSY} then finish p' BRIDGE_BUSY now t'
             else if hr_result reply \<noteq> RESULT_OK then finish p' BRIDGE_FAILED now t'
             else if pp_kind p = STATUS then finish p' OK now t'
             else if units_or_0 reply = 0 then finish p' NO_UNITS now t'
             else check now t')"
        by (intro on_reply_accepted[OF Some p(1)]) auto
      show ?thesis
      proof (cases "hr_result reply = RESULT_OK \<and> units_or_0 reply \<noteq> 0")
        case True
        have "probe_inv (h @ [?e]) rid d ?t1"
          using p False True Some
          by (auto simp: probe_inv_def raw_seen_def processed_seen_def fresh_apart_def
              reply_seen_def reply_type_of_def)
        moreover have "check now ?t1 = (res, t')"
          using s p(2) True unfolding acc by (simp add: Let_def)
        ultimately show ?thesis by blast
      next
        case bad: False
        then show ?thesis
          using s p(2) unfolding acc
          by (auto simp: Let_def inconclusive_def finish_def split: if_splits)
      qed
    qed
  qed
qed

lemma probe_advance:
  assumes inv: "probe_inv h rid d t" and s: "probe_step e now t = (res, t')"
  shows "(\<exists>t1. probe_inv (h @ [(e, now)]) rid d t1
             \<and> (check now t1 = (res, t') \<or> (res = None \<and> t' = t1)))
       \<or> (\<exists>r. res = Some r \<and> inconclusive (res_outcome r))"
proof (cases e)
  case (Reply payload i)
  with reply_step[OF inv] s show ?thesis by simp
next
  case (Raw topic ident)
  show ?thesis
  proof (cases "collecting now t")
    case None
    with inv have "d < now" by (auto simp: probe_inv_def collecting_def split: if_splits)
    with None s Raw probe_inv_other[OF inv, of "(e, now)"] show ?thesis
      by (auto simp: record_raw_def)
  next
    case (Some p)
    with s Raw raw_step[OF inv Some, of topic ident] show ?thesis by (auto simp: record_raw_def)
  qed
next
  case (Processed topic ident)
  show ?thesis
  proof (cases "collecting now t")
    case None
    with inv have "d < now" by (auto simp: probe_inv_def collecting_def split: if_splits)
    with None s Processed probe_inv_other[OF inv, of "(e, now)"] show ?thesis
      by (auto simp: record_processed_def)
  next
    case (Some p)
    with s Processed processed_step[OF inv Some, of topic ident] show ?thesis
      by (auto simp: record_processed_def)
  qed
next
  case Tick
  with s probe_inv_other[OF inv, of "(e, now)"] show ?thesis by auto
next
  case (Live_Status i)
  with s probe_inv_other[OF inv, of "(e, now)"] show ?thesis
    by (auto simp: supersede_def inconclusive_def finish_def split: option.splits if_splits)
qed

text \<open>A conclusive result of a run is \<open>check\<close>'s, on evidence that is exactly the run's.\<close>

lemma run_conclusive:
  assumes "probe_inv h rid d t" "run_probe es t = Some (r, used)" "\<not> inconclusive (res_outcome r)"
  obtains t1 now t' where "probe_inv (h @ used) rid d t1" "check now t1 = (Some r, t')"
proof -
  from assms have "\<exists>t1 now t'. probe_inv (h @ used) rid d t1 \<and> check now t1 = (Some r, t')"
  proof (induction es t arbitrary: h used rule: run_probe.induct)
    case (1 t)
    then show ?case by simp
  next
    case (2 e now es t)
    obtain res t' where s: "probe_step e now t = (res, t')" by force
    show ?case
    proof (cases res)
      case (Some r')
      with 2 s have "r' = r" "used = [(e, now)]" by auto
      with probe_advance[OF "2.prems"(1) s] Some "2.prems"(3) show ?thesis by auto
    next
      case None
      with probe_advance[OF "2.prems"(1) s] have inv: "probe_inv (h @ [(e, now)]) rid d t'"
        by (auto dest: check_pending)
      from None 2 s obtain used' where u: "run_probe es t' = Some (r, used')"
        "used = (e, now) # used'" by auto
      from "2.IH"[OF s[symmetric] None inv u(1) "2.prems"(3)] u(2) show ?thesis by simp
    qed
  qed
  then show ?thesis using that by blast
qed

lemma raw_topics_seen: "raw_seen h p \<Longrightarrow> raw_topics p = fst ` raws (pp_deadline_at p) h"
proof (rule set_eqI, rule iffI)
  fix x
  assume r: "raw_seen h p" and "x \<in> raw_topics p"
  then obtain i where "(x, i) \<in> pp_raw_messages p" by (auto simp: raw_topics_def)
  with r show "x \<in> fst ` raws (pp_deadline_at p) h"
    by (cases i) (force simp: raw_seen_def)+
next
  fix x
  assume r: "raw_seen h p" and "x \<in> fst ` raws (pp_deadline_at p) h"
  then obtain i where "(x, i) \<in> raws (pp_deadline_at p) h" by auto
  with r have "\<exists>k. (x, k) \<in> pp_raw_messages p" by (cases i) (force simp: raw_seen_def)+
  then show "x \<in> raw_topics p" by (force simp: raw_topics_def)
qed

lemma all_handled_seen:
  assumes "raw_seen h p" "processed_seen h p" "fresh_apart n p"
  shows "all_handled p \<longleftrightarrow>
    (\<forall>m \<in> raws (pp_deadline_at p) h. m \<in> processeds (pp_deadline_at p) h \<and> snd m \<noteq> None)"
    (is "_ \<longleftrightarrow> (\<forall>m \<in> ?R. m \<in> ?P \<and> snd m \<noteq> None)")
proof
  assume all: "all_handled p"
  show "\<forall>m \<in> ?R. m \<in> ?P \<and> snd m \<noteq> None"
  proof
    fix m assume m: "m \<in> ?R"
    obtain topic i where mi: "m = (topic, i)" by force
    show "m \<in> ?P \<and> snd m \<noteq> None"
    proof (cases i)
      case None
      with m mi assms(1) obtain k where "(topic, Fresh k) \<in> pp_raw_messages p"
        unfolding raw_seen_def by blast
      with all assms(3) show ?thesis by (auto simp: all_handled_def fresh_apart_def)
    next
      case (Some x)
      with m mi assms(1) have "(topic, Stamp x) \<in> pp_raw_messages p" unfolding raw_seen_def by blast
      with all have "(topic, Stamp x) \<in> pp_processed_messages p" by (auto simp: all_handled_def)
      with mi Some assms(2) show ?thesis unfolding processed_seen_def by auto
    qed
  qed
next
  assume seen: "\<forall>m \<in> ?R. m \<in> ?P \<and> snd m \<noteq> None"
  show "all_handled p" unfolding all_handled_def
  proof
    fix k assume k: "k \<in> pp_raw_messages p"
    obtain topic i where ki: "k = (topic, i)" by force
    show "k \<in> pp_processed_messages p"
    proof (cases i)
      case (Stamp x)
      with k ki assms seen show ?thesis by (auto simp: raw_seen_def processed_seen_def)
    next
      case (Fresh x)
      with k ki assms(1) have "(topic, None) \<in> ?R" by (auto simp: raw_seen_def)
      with seen show ?thesis by auto
    qed
  qed
qed

lemma any_handled_seen:
  assumes "raw_seen h p" "processed_seen h p" "\<not> any_handled p" "(topic, Some x) \<in> raws (pp_deadline_at p) h"
  shows "(topic, Some x) \<notin> processeds (pp_deadline_at p) h"
  using assms unfolding raw_seen_def processed_seen_def any_handled_def by blast

text \<open>A pending probe keeps its kind and deadline until its result; late events end it.\<close>

definition pending_with :: "probe_kind \<Rightarrow> time \<Rightarrow> probe_tracker \<Rightarrow> bool" where
  "pending_with kind d t \<longleftrightarrow>
     (case pt_pending t of None \<Rightarrow> False | Some p \<Rightarrow> pp_kind p = kind \<and> pp_deadline_at p = d)"

fun expires :: "probe_event \<Rightarrow> bool" where
  "expires (Raw _ _) = True"
| "expires (Processed _ _) = True"
| "expires Tick = True"
| "expires _ = False"

lemma check_pending_with:
  assumes "pending_with kind d t" "check now t = (res, t')"
  shows "(res = None \<and> t' = t \<and> now \<le> d)
    \<or> (\<exists>r. res = Some r \<and> res_finished_at r = now \<and> (res_outcome r = OK \<longrightarrow> now \<le> d))"
  using assms by (auto simp: pending_with_def check_def finish_def split: option.splits if_splits)

lemma step_pending_with:
  assumes "pending_with kind d t" "probe_step e now t = (res, t')"
  shows "(res = None \<and> pending_with kind d t' \<and> (expires e \<longrightarrow> now \<le> d))
    \<or> (\<exists>r. res = Some r \<and> res_finished_at r = now \<and> (res_outcome r = OK \<longrightarrow> now \<le> d))"
proof (cases e)
  case (Reply payload i)
  from assms(1) obtain p where p: "pt_pending t = Some p" "pp_kind p = kind" "pp_deadline_at p = d"
    by (auto simp: pending_with_def split: option.splits)
  show ?thesis
  proof (cases "\<exists>reply. parse_reply payload = Some reply \<and> pp_reply p = None
      \<and> hr_request_id reply = pp_request_id p \<and> now \<le> pp_deadline_at p
      \<and> (i = None \<or> i = Some (hr_instance_id reply)) \<and> hr_type reply = reply_type_of (pp_kind p)")
    case True
    then obtain reply where "parse_reply payload = Some reply" "pp_reply p = None"
      "hr_request_id reply = pp_request_id p" "now \<le> pp_deadline_at p"
      "i = None \<or> i = Some (hr_instance_id reply)" "hr_type reply = reply_type_of (pp_kind p)"
      by blast
    note acc = on_reply_accepted[OF this(1) p(1) this(2-6)]
    let ?t = "t\<lparr>pt_pending := Some (p\<lparr>pp_reply := Some reply\<rparr>)\<rparr>"
    have pend: "pending_with kind d ?t" using p by (simp add: pending_with_def)
    show ?thesis
      using assms(2) Reply p \<open>now \<le> _\<close> check_pending_with[OF pend, of now res t'] pend
      unfolding Reply probe_step.simps acc
      by (fastforce simp: Let_def finish_def split: if_splits)
  next
    case False
    then have "on_reply payload now i t =
        (None, t\<lparr>pt_rejected_replies := Suc (pt_rejected_replies t)\<rparr>)"
      using p(1) by (cases "parse_reply payload") (auto simp: on_reply_def)
    with assms Reply show ?thesis by (auto simp: pending_with_def)
  qed
next
  case (Raw topic ident)
  with assms show ?thesis
    by (cases "collecting now t")
      (auto simp: record_raw_def collecting_def pending_with_def
        split: option.splits if_splits dest!: check_pending_with[of kind d, rotated])
next
  case (Processed topic ident)
  with assms show ?thesis
    by (cases "collecting now t")
      (auto simp: record_processed_def collecting_def pending_with_def
        split: option.splits if_splits dest!: check_pending_with[of kind d, rotated])
next
  case Tick
  with assms check_pending_with[OF assms(1)] show ?thesis by auto
next
  case (Live_Status i)
  with assms show ?thesis
    by (auto simp: supersede_def finish_def pending_with_def split: option.splits if_splits)
qed

lemma run_late:
  assumes "pending_with kind d t" "run_probe es t = Some (r, used)" "res_outcome r = OK"
  shows "res_finished_at r \<le> d"
  using assms
proof (induction es t arbitrary: used rule: run_probe.induct)
  case (2 e now es t)
  obtain res t' where s: "probe_step e now t = (res, t')" by force
  with 2 step_pending_with[OF "2.prems"(1) s] show ?case by (cases res) auto
qed simp

lemma run_expires:
  assumes "pending_with kind d t" "(e, late) \<in> set es" "expires e" "d < late"
  shows "run_probe es t \<noteq> None"
  using assms
proof (induction es t rule: run_probe.induct)
  case (2 e' now es t)
  obtain res t' where s: "probe_step e' now t = (res, t')" by force
  with 2 step_pending_with[OF "2.prems"(1) s] show ?case by (cases res) auto
qed simp

section \<open>What a verdict proves\<close>

text \<open>What an accepted reply and a verdict of \<open>check\<close> say about the run.\<close>

lemma reply_seenD:
  assumes "reply_seen h p" "pp_reply p = Some reply"
  obtains payload live u where "(payload, live) \<in> replies (pp_deadline_at p) h"
    "parse_reply payload = Some reply" "hr_request_id reply = pp_request_id p"
    "hr_type reply = REPLY_SNAPSHOT" "hr_result reply = RESULT_OK"
    "live \<noteq> None \<longrightarrow> live = Some (hr_instance_id reply)"
    "hr_units reply = Some u" "0 < u" "units_or_0 reply = u"
proof -
  from assms obtain payload live where l: "(payload, live) \<in> replies (pp_deadline_at p) h"
    "parse_reply payload = Some reply" "hr_request_id reply = pp_request_id p"
    "hr_type reply = REPLY_SNAPSHOT" "hr_result reply = RESULT_OK"
    "live \<noteq> None \<longrightarrow> live = Some (hr_instance_id reply)" and nz: "units_or_0 reply \<noteq> 0"
    unfolding reply_seen_def by metis
  from parse_reply_ok[OF l(2)] l(4) obtain u where "hr_units reply = Some u" "0 \<le> u"
    by (auto simp: reply_ok_def counter_ok_def)
  with that[OF l] nz show thesis by (auto simp: units_or_0_def)
qed

lemma conclusive_evidence:
  assumes "start CONSUMER now0 inst token t = (Some p, t0)"
    and "run_probe es t0 = Some (r, used)" "\<not> inconclusive (res_outcome r)"
  obtains t1 now t' where "probe_inv used token (pp_deadline_at p) t1" "check now t1 = (Some r, t')"
proof -
  from assms(1) have "pp_deadline_at p = now0 + of_int (probe_deadline_seconds (pt_settings t))"
    by (auto simp: start_def Let_def split: option.splits)
  with probe_inv_start[OF assms(1)] have "probe_inv [] token (pp_deadline_at p) t0" by simp
  from run_conclusive[OF this assms(2,3)] that show thesis by auto
qed

text \<open>A run with one raw and one handled message, then the correlated reply.\<close>

definition sample_reply :: health_reply where
  "sample_reply = \<lparr>hr_type = REPLY_SNAPSHOT, hr_request_id = ''ha-1'',
     hr_instance_id = bs_instance_id (sample_status (CHR ''a'') 2 PHASE_READY),
     hr_result = RESULT_OK, hr_status = sample_status (CHR ''a'') 2 PHASE_READY,
     hr_units = Some 1, hr_scenes = Some 0, hr_failed = Some 0, hr_generation = Some 1\<rparr>"

definition sample_probe_run :: "(probe_event \<times> time) list" where
  "sample_probe_run = [(Raw ''casambi/events/7'' (Some 5), 5), (Processed ''casambi/events/7'' (Some 5), 6),
     (Reply (Some (reply_json sample_reply)) None, 7)]"

definition sample_pending :: "probe_kind \<Rightarrow> pending_probe" where
  "sample_pending kind = \<lparr>pp_kind = kind, pp_request_id = ''ha-1'', pp_sent_at = 0, pp_deadline_at = 20,
     pp_instance_id = None, pp_reply = None, pp_raw_messages = {}, pp_processed_messages = {}\<rparr>"

lemma parse_sample_reply: "parse_reply (Some (reply_json sample_reply)) = Some sample_reply"
  by (rule parse_reply_enc)
    (simp add: reply_ok_def sample_reply_def request_id_ok_def full_match_def
      request_id_char_def RESULTS_def in_range_def counter_ok_def
      sample_status_ok[unfolded counter_ok_def PHASES_def])

lemma start_sample: "start kind 0 None ''ha-1'' (new_probe_tracker default_settings) =
    (Some (sample_pending kind), (new_probe_tracker default_settings)\<lparr>pt_pending := Some (sample_pending kind)\<rparr>)"
  by (simp add: start_def Let_def new_probe_tracker_def sample_pending_def default_settings_def
      from_options_def option_value_def SETTING_RANGES_def)

definition sample_stale_run :: "(probe_event \<times> time) list" where
  "sample_stale_run = [(Raw ''casambi/events/7'' (Some 5), 5),
     (Reply (Some (reply_json sample_reply)) None, 7), (Tick, 25)]"

lemmas run_sample_simps = record_raw_def record_processed_def collecting_def check_def
  new_probe_tracker_def sample_pending_def message_key_def on_reply_def parse_sample_reply

lemmas sample_reply_simps = sample_reply_def reply_type_of_def units_or_0_def raw_topics_def
  all_handled_def any_handled_def finish_def check_def

abbreviation "sample_tracker kind \<equiv> snd (start kind 0 None ''ha-1'' (new_probe_tracker default_settings))"

lemma run_sample: "\<exists>r. run_probe sample_probe_run (sample_tracker CONSUMER) = Some (r, sample_probe_run)
     \<and> res_outcome r = OK"
  unfolding start_sample
  by (simp add: sample_probe_run_def run_sample_simps) (simp add: sample_reply_simps)

lemma run_stale_sample: "\<exists>r. run_probe sample_stale_run (sample_tracker CONSUMER) = Some (r, sample_stale_run)
     \<and> res_outcome r = CONSUMER_STALE"
  unfolding start_sample
  by (simp add: sample_stale_run_def run_sample_simps) (simp add: sample_reply_simps)

text \<open>
  C4: a consumer probe ends OK only on end-to-end proof. By its deadline a snapshot reply with the
  probe's own request id and result \<open>ok\<close> arrived (from the live instance, when one is known),
  the raw listener saw at least as many distinct unit topics as the bridge published, and every
  unit message it saw has an identity and was handled by the entry's callback, in whatever
  order the messages, callbacks and the reply came.
\<close>

theorem consumer_probe_ok:
  assumes "start CONSUMER now0 inst token t = (Some p, t0)"
    and "run_probe es t0 = Some (r, used)" and "res_outcome r = OK"
  shows "(\<exists>payload live reply units. (payload, live) \<in> replies (pp_deadline_at p) used
        \<and> parse_reply payload = Some reply \<and> hr_request_id reply = token
        \<and> hr_type reply = REPLY_SNAPSHOT \<and> hr_result reply = RESULT_OK
        \<and> (live \<noteq> None \<longrightarrow> live = Some (hr_instance_id reply))
        \<and> hr_units reply = Some units \<and> 0 < units
        \<and> units \<le> int (card (fst ` raws (pp_deadline_at p) used)))
    \<and> raws (pp_deadline_at p) used \<subseteq> processeds (pp_deadline_at p) used
    \<and> (\<forall>m \<in> raws (pp_deadline_at p) used. snd m \<noteq> None)"
proof -
  let ?d = "pp_deadline_at p"
  from conclusive_evidence[OF assms(1,2)] assms(3) obtain t1 now t' where
    inv: "probe_inv used token ?d t1" and c: "check now t1 = (Some r, t')"
    by (auto simp: inconclusive_def)
  from check_OK[OF c assms(3)] obtain q reply where q: "pt_pending t1 = Some q"
    "pp_reply q = Some reply" "units_or_0 reply \<le> int (card (raw_topics q))" "all_handled q" by blast
  from inv q(1) have h: "raw_seen used q" "processed_seen used q" "fresh_apart (pt_fresh t1) q"
    "reply_seen used q" and qd: "pp_deadline_at q = ?d" "pp_request_id q = token"
    by (auto simp: probe_inv_def)
  from all_handled_seen[OF h(1-3)] q(4) qd
  have "\<forall>m \<in> raws ?d used. m \<in> processeds ?d used \<and> snd m \<noteq> None" by simp
  with reply_seenD[OF h(4) q(2)] q(3) raw_topics_seen[OF h(1)] show ?thesis
    unfolding qd by (metis subsetI)
qed

theorem consumer_probe_ok_witness:
  "(\<exists>r. run_probe sample_probe_run (sample_tracker CONSUMER) = Some (r, sample_probe_run))
   \<and> raws 20 sample_probe_run \<subseteq> processeds 20 sample_probe_run
   \<and> raws 20 sample_probe_run = {(''casambi/events/7'', Some 5)}"
proof -
  obtain r where r: "run_probe sample_probe_run (sample_tracker CONSUMER) = Some (r, sample_probe_run)"
    "res_outcome r = OK" using run_sample by blast
  have s: "start CONSUMER 0 None ''ha-1'' (new_probe_tracker default_settings) =
      (Some (sample_pending CONSUMER), sample_tracker CONSUMER)" by (simp add: start_sample)
  have d: "pp_deadline_at (sample_pending CONSUMER) = 20" by (simp add: sample_pending_def)
  from consumer_probe_ok[OF s r] d r show ?thesis by (simp add: sample_probe_run_def)
qed

text \<open>
  A consumer probe is judged stale (the verdict that may lead to a reload of the entry) only
  after its deadline, after the bridge confirmed the publish of a positive number of units under
  the probe's request id, with at least that many unit topics delivered to the raw listener
  in time and not one identified delivered message handled by the callback.
\<close>

theorem consumer_probe_stale:
  assumes "start CONSUMER now0 inst token t = (Some p, t0)"
    and "run_probe es t0 = Some (r, used)" and "res_outcome r = CONSUMER_STALE"
  shows "pp_deadline_at p < res_finished_at r
    \<and> (\<exists>payload live reply units. (payload, live) \<in> replies (pp_deadline_at p) used
        \<and> parse_reply payload = Some reply \<and> hr_request_id reply = token
        \<and> hr_result reply = RESULT_OK \<and> hr_units reply = Some units \<and> 0 < units
        \<and> units \<le> int (card (fst ` raws (pp_deadline_at p) used)))
    \<and> (\<forall>topic x. (topic, Some x) \<in> raws (pp_deadline_at p) used
          \<longrightarrow> (topic, Some x) \<notin> processeds (pp_deadline_at p) used)"
proof -
  let ?d = "pp_deadline_at p"
  from conclusive_evidence[OF assms(1,2)] assms(3) obtain t1 now t' where
    inv: "probe_inv used token ?d t1" and c: "check now t1 = (Some r, t')"
    by (auto simp: inconclusive_def)
  from check_STALE[OF c assms(3)] obtain q reply where q: "pt_pending t1 = Some q"
    "pp_reply q = Some reply" "pp_deadline_at q < now"
    "units_or_0 reply \<le> int (card (raw_topics q))" "\<not> any_handled q" by blast
  from inv q(1) have h: "raw_seen used q" "processed_seen used q" "reply_seen used q"
    and qd: "pp_deadline_at q = ?d" "pp_request_id q = token"
    by (auto simp: probe_inv_def)
  have "res_finished_at r = now"
    using c by (auto simp: check_def finish_def split: option.splits if_splits)
  moreover note any_handled_seen[OF h(1,2) q(5)]
  ultimately show ?thesis
    using reply_seenD[OF h(3) q(2)] q(3,4) raw_topics_seen[OF h(1)] unfolding qd by metis
qed

theorem consumer_probe_stale_witness:
  "(\<exists>r. run_probe sample_stale_run (sample_tracker CONSUMER) = Some (r, sample_stale_run)
      \<and> 20 < res_finished_at r)
   \<and> (''casambi/events/7'', Some 5) \<in> raws 20 sample_stale_run
   \<and> (''casambi/events/7'', Some 5) \<notin> processeds 20 sample_stale_run"
proof -
  obtain r where r: "run_probe sample_stale_run (sample_tracker CONSUMER) = Some (r, sample_stale_run)"
    "res_outcome r = CONSUMER_STALE" using run_stale_sample by blast
  have s: "start CONSUMER 0 None ''ha-1'' (new_probe_tracker default_settings) =
      (Some (sample_pending CONSUMER), sample_tracker CONSUMER)" by (simp add: start_sample)
  have d: "pp_deadline_at (sample_pending CONSUMER) = 20" by (simp add: sample_pending_def)
  from consumer_probe_stale[OF s r] d r show ?thesis by (simp add: sample_stale_run_def)
qed

text \<open>
  The deadline is final for both kinds of probe. The first raw message, handled message or
  health tick after it ends the probe, so no probe stays pending for ever, and a result that
  comes after the deadline is never OK.
\<close>

theorem probe_deadline_final:
  assumes "start kind now0 inst token t = (Some p, t0)"
    and "(e, late) \<in> set es" "expires e" "pp_deadline_at p < late"
  shows "\<exists>r used. run_probe es t0 = Some (r, used)
    \<and> (res_outcome r = OK \<longrightarrow> res_finished_at r \<le> pp_deadline_at p)"
proof -
  from assms(1) have "pending_with kind (pp_deadline_at p) t0"
    by (auto simp: start_def Let_def pending_with_def split: option.splits)
  from run_expires[OF this assms(2-4)] run_late[OF this] show ?thesis by auto
qed

theorem probe_deadline_final_witness:
  "(\<exists>r used. run_probe [(Tick, 10), (Tick, 21), (Tick, 30)] (sample_tracker STATUS) = Some (r, used)
      \<and> (res_outcome r = OK \<longrightarrow> res_finished_at r \<le> 20))
   \<and> expires Tick \<and> (20 :: time) < 21"
  using probe_deadline_final[of STATUS 0 None "''ha-1''" "new_probe_tracker default_settings"
      "sample_pending STATUS" "sample_tracker STATUS" Tick 21 "[(Tick, 10), (Tick, 21), (Tick, 30)]"]
  by (simp add: start_sample) (simp add: sample_pending_def)

end
