(* ===== verification/Contracts.thy ===== *)
theory Contracts
  imports Prelude
begin

text \<open>
  The contracts that several components implement: a suppression window per key (retransmitted
  switch frames, duplicate switch events, coalesced health requests), a budget per sliding
  window (entry reloads, Bluetooth resets) and an invariant of a step relation. Each is a
  locale; the components interpret it on their own operations.
\<close>

section \<open>Suppression windows\<close>

text \<open>
  \<open>admit k now s\<close> says whether an event of key \<open>k\<close> passes at time \<open>now\<close>, and the next
  state; \<open>admitted\<close> are the events of a sequence that pass.
\<close>

fun admitted :: "('k \<Rightarrow> time \<Rightarrow> 's \<Rightarrow> bool \<times> 's) \<Rightarrow> 's \<Rightarrow> ('k \<times> time) list \<Rightarrow> ('k \<times> time) list" where
  "admitted admit s [] = []"
| "admitted admit s ((k, now) # es) =
     (if fst (admit k now s) then [(k, now)] else []) @ admitted admit (snd (admit k now s)) es"

definition spaced :: "time \<Rightarrow> ('k \<times> time) list \<Rightarrow> bool" where
  "spaced window es \<longleftrightarrow> sorted_wrt (\<lambda>a b. fst a = fst b \<longrightarrow> window \<le> snd b - snd a) es"

abbreviation chronological :: "('k \<times> time) list \<Rightarrow> bool" where
  "chronological es \<equiv> sorted (map snd es)"

lemma set_admitted: "set (admitted admit s es) \<subseteq> set es"
  by (induction admit s es rule: admitted.induct) auto

text \<open>
  The reference for a gate is a history of all events that passed: \<open>passed_within\<close> looks one of a
  key up. A gate that forgets may still agree with the history from some time on.
\<close>

definition passed_within :: "time \<Rightarrow> ('k \<times> time) list \<Rightarrow> 'k \<Rightarrow> time \<Rightarrow> bool" where
  "passed_within window passed k now \<longleftrightarrow> list_ex (\<lambda>(k', t). k' = k \<and> now - t < window) passed"

definition agrees :: "('s \<Rightarrow> 'k \<Rightarrow> time option) \<Rightarrow> time \<Rightarrow> time \<Rightarrow> 's \<Rightarrow> ('k \<times> time) list \<Rightarrow> bool" where
  "agrees seen window now s passed \<longleftrightarrow> (\<forall>later \<ge> now. \<forall>k.
     passed_within window passed k later \<longleftrightarrow> (\<exists>t. seen s k = Some t \<and> later - t < window))"

lemma passed_within_simps [simp]:
  "passed_within window [] k now = False"
  "passed_within window ((k', t) # passed) k now = (k' = k \<and> now - t < window \<or> passed_within window passed k now)"
  by (simp_all add: passed_within_def)

lemma passed_within_iff: "passed_within window passed k now \<longleftrightarrow> (\<exists>t. (k, t) \<in> set passed \<and> now - t < window)"
  by (induction passed) auto

lemma agrees_later: "agrees seen window now s passed \<Longrightarrow> now \<le> now' \<Longrightarrow> agrees seen window now' s passed"
  by (auto simp: agrees_def)

lemma agrees_start: "(\<And>k. seen s k = None) \<Longrightarrow> agrees seen window now s []"
  by (simp add: agrees_def)

locale window_gate =
  fixes admit :: "'k \<Rightarrow> time \<Rightarrow> 's \<Rightarrow> bool \<times> 's"
    and seen :: "'s \<Rightarrow> 'k \<Rightarrow> time option"
    and window :: time
  assumes admit_iff:
      "fst (admit k now s) \<longleftrightarrow> (case seen s k of None \<Rightarrow> True | Some t \<Rightarrow> window \<le> now - t)"
    and admit_seen: "fst (admit k now s) \<Longrightarrow> seen (snd (admit k now s)) k = Some now"
    and keep_fresh: "seen s k' = Some t \<Longrightarrow> now - t < window \<Longrightarrow>
      k' \<noteq> k \<or> \<not> fst (admit k now s) \<Longrightarrow> seen (snd (admit k now s)) k' = Some t"
    and no_invention: "seen (snd (admit k now s)) k' = Some t \<Longrightarrow>
      seen s k' = Some t \<or> (k' = k \<and> fst (admit k now s) \<and> t = now)"
begin

lemma admitted_after:
  assumes "seen s k = Some t0 \<or> (\<forall>e \<in> set es. t0 + window \<le> snd e)" "chronological es"
    and "(k, t) \<in> set (admitted admit s es)"
  shows "t0 + window \<le> t"
  using assms
proof (induction es arbitrary: s)
  case Nil
  then show ?case by simp
next
  case (Cons e es)
  obtain k' now where e: "e = (k', now)" by force
  obtain passes s' where a: "admit k' now s = (passes, s')" by force
  show ?case
  proof (cases "passes \<and> k = k' \<and> t = now")
    case True
    with Cons.prems(1) e show ?thesis
      using admit_iff[of k now s] a by auto
  next
    case False
    with Cons.prems(3) e a have t: "(k, t) \<in> set (admitted admit s' es)"
      by (auto split: if_splits)
    have later: "\<forall>e' \<in> set es. now \<le> snd e'" and ch: "chronological es"
      using Cons.prems(2) e by auto
    have "seen s' k = Some t0 \<or> (\<forall>e' \<in> set es. t0 + window \<le> snd e')"
    proof (cases "t0 + window \<le> now")
      case True
      with later show ?thesis by force
    next
      case False
      with Cons.prems(1) e have s: "seen s k = Some t0" by auto
      with False have "k \<noteq> k' \<or> \<not> passes"
        using admit_iff[of k now s] a by auto
      with s False show ?thesis
        using keep_fresh[OF s, of now k'] a by auto
    qed
    from Cons.IH[OF this ch t] show ?thesis .
  qed
qed

text \<open>A gate decides as the full history does, and goes on agreeing with it.\<close>

lemma admit_agrees:
  assumes "agrees seen window now s passed"
  shows "fst (admit k now s) \<longleftrightarrow> \<not> passed_within window passed k now"
  using assms admit_iff[of k now s] by (auto simp: agrees_def not_less split: option.splits)

lemma agrees_admit:
  assumes agrees: "agrees seen window now s passed"
  shows "agrees seen window now (snd (admit k now s)) (if fst (admit k now s) then (k, now) # passed else passed)"
  unfolding agrees_def
proof (intro allI impI)
  fix later k' assume "now \<le> later"
  with agrees have before: "passed_within window passed k' later \<longleftrightarrow> (\<exists>t. seen s k' = Some t \<and> later - t < window)"
    by (simp add: agrees_def)
  show "passed_within window (if fst (admit k now s) then (k, now) # passed else passed) k' later
    \<longleftrightarrow> (\<exists>t. seen (snd (admit k now s)) k' = Some t \<and> later - t < window)"
  proof (cases "fst (admit k now s) \<and> k' = k")
    case True
    with admit_iff[of k now s] have "\<not> (\<exists>t. seen s k = Some t \<and> now - t < window)" by (auto split: option.splits)
    with \<open>now \<le> later\<close> have "\<not> (\<exists>t. seen s k = Some t \<and> later - t < window)" by fastforce
    with True before admit_seen[of k now s] show ?thesis by simp
  next
    case False
    then have other: "k' \<noteq> k \<or> \<not> fst (admit k now s)" by blast
    have "seen (snd (admit k now s)) k' = Some t \<longleftrightarrow> seen s k' = Some t" if "later - t < window" for t
      using keep_fresh[OF _ _ other, of t] no_invention[of k now s k' t] other \<open>now \<le> later\<close> that by fastforce
    with before other show ?thesis by (auto split: if_splits)
  qed
qed

text \<open>Two events of one key that both pass are at least the window apart.\<close>

lemma admitted_spaced: "chronological es \<Longrightarrow> spaced window (admitted admit s es)"
proof (induction es arbitrary: s)
  case Nil
  then show ?case by (simp add: spaced_def)
next
  case (Cons e es)
  obtain k now where e: "e = (k, now)" by force
  obtain passes s' where a: "admit k now s = (passes, s')" by force
  from Cons have IH: "spaced window (admitted admit s' es)" and ch: "chronological es"
    by auto
  show ?case
  proof (cases passes)
    case True
    then have "seen s' k = Some now" using admit_seen[of k now s] a by simp
    then have "now + window \<le> t" if "(k, t) \<in> set (admitted admit s' es)" for t
      using admitted_after[OF _ ch that] by blast
    with IH True a e show ?thesis by (fastforce simp: spaced_def)
  next
    case False
    with IH a e show ?thesis by simp
  qed
qed

text \<open>An event passes unless one of its own key passed less than the window before it.\<close>

lemma seen_run:
  assumes "seen (fold (\<lambda>(k, now) s. snd (admit k now s)) es s) k = Some t"
  shows "seen s k = Some t \<or> (k, t) \<in> set (admitted admit s es)"
  using assms
proof (induction es arbitrary: s)
  case Nil
  then show ?case by simp
next
  case (Cons e es)
  obtain k' now where e: "e = (k', now)" by force
  obtain passes s' where a: "admit k' now s = (passes, s')" by force
  from Cons e a have "seen s' k = Some t \<or> (k, t) \<in> set (admitted admit s' es)" by simp
  then show ?case
    using no_invention[of k' now s k t] a e by auto
qed

lemma admitted_append: "admitted admit s (es @ fs) =
    admitted admit s es @ admitted admit (fold (\<lambda>(k, now) s. snd (admit k now s)) es s) fs"
  by (induction es arbitrary: s) auto

lemma not_suppressed:
  assumes "\<And>t. (k, t) \<in> set (admitted admit s es) \<Longrightarrow> window \<le> now - t" and "seen s k = None"
  shows "admitted admit s (es @ [(k, now)]) = admitted admit s es @ [(k, now)]"
proof -
  let ?s = "fold (\<lambda>(k, now) s. snd (admit k now s)) es s"
  have "fst (admit k now ?s)"
    using assms seen_run[of es s k] admit_iff[of k now ?s] by (auto split: option.splits)
  then show ?thesis by (simp add: admitted_append)
qed

end

section \<open>Budgets per sliding window\<close>

text \<open>
  \<open>spend now s\<close> asks for one charge; \<open>granted\<close> are the times of the charges a sequence of
  requests obtains.
\<close>

fun granted :: "(time \<Rightarrow> 's \<Rightarrow> bool \<times> 's) \<Rightarrow> 's \<Rightarrow> time list \<Rightarrow> time list" where
  "granted spend s [] = []"
| "granted spend s (now # ts) =
     (if fst (spend now s) then [now] else []) @ granted spend (snd (spend now s)) ts"

lemma set_granted: "set (granted spend s ts) \<subseteq> set ts"
  by (induction spend s ts rule: granted.induct) auto

lemma filter_eq_snocD:
  assumes "filter P xs = ys @ [y]"
  shows "\<exists>us vs. xs = us @ y # vs \<and> P y \<and> ys = filter P us"
proof -
  from assms have "filter P (rev xs) = y # rev ys" by (simp flip: rev_filter)
  then obtain us vs where "rev xs = us @ y # vs" "P y" "rev ys = filter P vs"
    by (auto dest!: filter_eq_ConsD)
  then have "xs = rev vs @ y # rev us" "P y" "ys = filter P (rev vs)"
    by (simp_all add: rev_swap rev_filter)
  then show ?thesis by blast
qed

lemma granted_append: "granted spend s (ts @ us) =
    granted spend s ts @ granted spend (fold (\<lambda>now s. snd (spend now s)) ts s) us"
  by (induction ts arbitrary: s) auto

locale windowed_budget =
  fixes spend :: "time \<Rightarrow> 's \<Rightarrow> bool \<times> 's"
    and charges :: "'s \<Rightarrow> time list"
    and window :: time
    and cap :: nat
  assumes window_pos: "0 < window"
    and within_cap: "fst (spend now s) \<Longrightarrow> length (recent_at window now (charges s)) < cap"
    and charged: "now \<le> n \<Longrightarrow> length (recent_at window n (charges (snd (spend now s)))) =
      length (recent_at window n (charges s @ (if fst (spend now s) then [now] else [])))"
begin

text \<open>Charges already on the books and charges granted later share the window's cap.\<close>

lemma granted_prefix:
  assumes "sorted ts" "granted spend s ts = pre @ t # post"
  shows "length (recent_at window t (charges s @ pre @ [t])) \<le> cap"
  using assms
proof (induction ts arbitrary: s pre)
  case Nil
  then show ?case by simp
next
  case (Cons now ts)
  obtain g s' where a: "spend now s = (g, s')" by force
  have sorted: "sorted ts" and later: "\<forall>x \<in> set ts. now \<le> x" using Cons.prems(1) by auto
  have step: "length (recent_at window t (charges s' @ pre' @ [t])) \<le> cap \<and> now \<le> t"
    if "granted spend s' ts = pre' @ t # post" for pre'
  proof
    show "length (recent_at window t (charges s' @ pre' @ [t])) \<le> cap"
      by (rule Cons.IH[OF sorted that])
    have "t \<in> set (granted spend s' ts)" using that by simp
    also have "set (granted spend s' ts) \<subseteq> set ts" by (rule set_granted)
    finally show "now \<le> t" using later by simp
  qed
  show ?case
  proof (cases "g \<and> pre = []")
    case True
    with Cons.prems(2) a have "t = now" by simp
    with True show ?thesis using within_cap[of now s] a window_pos by simp
  next
    case False
    define pre' where "pre' = (if g then tl pre else pre)"
    from False Cons.prems(2) a have g': "granted spend s' ts = pre' @ t # post"
      and pre: "pre = (if g then [now] else []) @ pre'"
      by (cases pre; auto simp: pre'_def)+
    from step[OF g'] pre show ?thesis
      using charged[of now t s] a by auto
  qed
qed

text \<open>No window of the configured length holds more than \<open>cap\<close> charges.\<close>

lemma granted_per_window:
  assumes "sorted ts"
  shows "length (filter (\<lambda>x. T - window < x \<and> x \<le> T) (granted spend s ts)) \<le> cap"
proof (cases "filter (\<lambda>x. T - window < x \<and> x \<le> T) (granted spend s ts)" rule: rev_cases)
  case Nil
  then show ?thesis by simp
next
  case (snoc ys t)
  from filter_eq_snocD[OF snoc] obtain pre post where
    G: "granted spend s ts = pre @ t # post" and t: "T - window < t" "t \<le> T"
    and ys: "ys = filter (\<lambda>x. T - window < x \<and> x \<le> T) pre" by blast
  have "length (filter (\<lambda>x. T - window < x \<and> x \<le> T) pre) \<le> length (recent_at window t pre)"
    using t by (induction pre) auto
  moreover have "length (recent_at window t (charges s @ pre @ [t])) \<le> cap"
    by (rule granted_prefix[OF assms G])
  ultimately show ?thesis using snoc ys window_pos by simp
qed

end

end
