(* ===== verification/Observer.thy ===== *)
theory Observer
  imports Bridge_Tracker Probe_Tracker Contracts
begin

text \<open>
  \<^verbatim>\<open>health.py\<close>, \<^verbatim>\<open>HealthObserver\<close>: the decision core of one config entry, which feeds the bridge
  tracker and the probe tracker and says which probe to send. The record is extensible: the
  listener of probe results (\<^verbatim>\<open>HealthCoordinator._on_probe_result\<close>) changes fields of the extension and
  reschedules probes, so every operation that publishes a result takes the listener as a
  parameter. The monotonic clock is read once per callback.
\<close>

section \<open>State\<close>

definition is_unit_event_topic :: "string \<Rightarrow> string \<Rightarrow> bool" where
  "is_unit_event_topic topic event_prefix \<longleftrightarrow>
     take (length event_prefix) topic = event_prefix \<and> length event_prefix < length topic"

record consumer_counters =
  cc_raw_messages :: nat
  cc_processed_messages :: nat
  cc_last_raw_at :: "time option"
  cc_last_processed_at :: "time option"

definition new_consumer_counters :: consumer_counters where
  "new_consumer_counters = \<lparr>cc_raw_messages = 0, cc_processed_messages = 0,
     cc_last_raw_at = None, cc_last_processed_at = None\<rparr>"

text \<open>The dicts keyed by probe kind are association lists in insertion order.\<close>

record observer =
  ob_settings :: health_settings
  ob_event_prefix :: string
  ob_started_at :: time
  ob_bridge :: tracker
  ob_probes :: probe_tracker
  ob_consumer :: consumer_counters
  ob_last_result :: "(probe_kind \<times> probe_result) list"
  ob_last_ok :: "(probe_kind \<times> time) list"
  ob_next_due :: "(probe_kind \<times> time) list"

definition new_observer :: "health_settings \<Rightarrow> string \<Rightarrow> time \<Rightarrow> observer" where
  "new_observer settings event_prefix now =
     \<lparr>ob_settings = settings, ob_event_prefix = event_prefix, ob_started_at = now,
      ob_bridge = new_tracker settings now, ob_probes = new_probe_tracker settings,
      ob_consumer = new_consumer_counters, ob_last_result = [], ob_last_ok = [],
      ob_next_due = [(STATUS, now + of_int (startup_grace_seconds settings)),
                     (CONSUMER, now + of_int (startup_grace_seconds settings))]\<rparr>"

type_synonym 'a listener = "probe_result \<Rightarrow> time \<Rightarrow> 'a observer_scheme \<Rightarrow> 'a observer_scheme"

section \<open>Operations\<close>

definition never_answered :: "'a observer_scheme \<Rightarrow> bool" where
  "never_answered o1 =
     (case map_of (ob_last_result o1) STATUS of
        None \<Rightarrow> False
      | Some r \<Rightarrow> res_outcome r = NO_REPLY \<and> map_of (ob_last_ok o1) STATUS = None)"

definition bridge_state_of :: "time \<Rightarrow> 'a observer_scheme \<Rightarrow> bridge_state" where
  "bridge_state_of now o1 =
     (let state = evaluate now (ob_bridge o1) in
      if state = UNKNOWN \<and> never_answered o1 then UNSUPPORTED else state)"

text \<open>The two dict updates of \<^verbatim>\<open>_publish_result\<close>.\<close>

definition record_result :: "probe_result \<Rightarrow> 'a observer_scheme \<Rightarrow> 'a observer_scheme" where
  "record_result r o1 =
     o1\<lparr>ob_last_result := AList.update (res_kind r) r (ob_last_result o1),
        ob_last_ok := (if res_outcome r = OK
          then AList.update (res_kind r) (res_finished_at r) (ob_last_ok o1) else ob_last_ok o1)\<rparr>"

definition publish_result :: "'a listener \<Rightarrow> time \<Rightarrow> probe_result option \<Rightarrow> 'a observer_scheme
    \<Rightarrow> 'a observer_scheme" where
  "publish_result listener now result o1 =
     (case result of
        None \<Rightarrow> o1
      | Some r \<Rightarrow> listener r now (record_result r o1))"

text \<open>Run an operation of the probe tracker and publish the result it returns.\<close>

definition with_probes :: "'a listener \<Rightarrow> time \<Rightarrow> (probe_tracker \<Rightarrow> probe_result option \<times> probe_tracker)
    \<Rightarrow> 'a observer_scheme \<Rightarrow> 'a observer_scheme" where
  "with_probes listener now f o1 =
     (let (result, probes) = f (ob_probes o1) in
      publish_result listener now result (o1\<lparr>ob_probes := probes\<rparr>))"

definition on_status :: "'a listener \<Rightarrow> payload \<Rightarrow> bool \<Rightarrow> time \<Rightarrow> 'a observer_scheme \<Rightarrow> 'a observer_scheme" where
  "on_status listener payload retain now o1 =
     (let (accepted, bridge) = on_message payload retain now (ob_bridge o1);
          o2 = o1\<lparr>ob_bridge := bridge\<rparr> in
      if accepted then with_probes listener now (supersede now (tracker_instance_id bridge)) o2
      else o2)"

definition on_health_reply :: "'a listener \<Rightarrow> payload \<Rightarrow> time \<Rightarrow> 'a observer_scheme \<Rightarrow> 'a observer_scheme" where
  "on_health_reply listener payload now o1 =
     with_probes listener now (on_reply payload now (tracker_instance_id (ob_bridge o1))) o1"

text \<open>\<open>no_payload\<close>: the payload is empty (\<^verbatim>\<open>not payload\<close>).\<close>

definition on_raw_unit :: "'a listener \<Rightarrow> string \<Rightarrow> bool \<Rightarrow> time option \<Rightarrow> time \<Rightarrow> 'a observer_scheme
    \<Rightarrow> 'a observer_scheme" where
  "on_raw_unit listener topic no_payload ident now o1 =
     (if no_payload \<or> \<not> is_unit_event_topic topic (ob_event_prefix o1) then o1
      else with_probes listener now (record_raw topic now ident)
        (o1\<lparr>ob_consumer := (ob_consumer o1)\<lparr>
              cc_raw_messages := Suc (cc_raw_messages (ob_consumer o1)),
              cc_last_raw_at := Some now\<rparr>\<rparr>))"

definition on_processed_unit :: "'a listener \<Rightarrow> string \<Rightarrow> time option \<Rightarrow> time \<Rightarrow> 'a observer_scheme
    \<Rightarrow> 'a observer_scheme" where
  "on_processed_unit listener topic ident now o1 =
     (if \<not> is_unit_event_topic topic (ob_event_prefix o1) then o1
      else with_probes listener now (record_processed topic now ident)
        (o1\<lparr>ob_consumer := (ob_consumer o1)\<lparr>
              cc_processed_messages := Suc (cc_processed_messages (ob_consumer o1)),
              cc_last_processed_at := Some now\<rparr>\<rparr>))"

definition schedule :: "probe_kind \<Rightarrow> time \<Rightarrow> time \<Rightarrow> 'a observer_scheme \<Rightarrow> 'a observer_scheme" where
  "schedule kind delay now o1 = o1\<lparr>ob_next_due := AList.update kind (now + delay) (ob_next_due o1)\<rparr>"

definition probe_interval :: "probe_kind \<Rightarrow> health_settings \<Rightarrow> time" where
  "probe_interval kind settings =
     of_int (if kind = CONSUMER then consumer_probe_interval_seconds settings
             else probe_interval_seconds settings)"

definition start_probe :: "probe_kind \<Rightarrow> string \<Rightarrow> time \<Rightarrow> 'a observer_scheme
    \<Rightarrow> pending_probe option \<times> 'a observer_scheme" where
  "start_probe kind token now o1 =
     (let (probe, probes) = start kind now (tracker_instance_id (ob_bridge o1)) token (ob_probes o1);
          o2 = o1\<lparr>ob_probes := probes\<rparr> in
      (probe,
       if probe = None then o2
       else o2\<lparr>ob_next_due := AList.update kind (now + probe_interval kind (ob_settings o2)) (ob_next_due o2)\<rparr>))"

text \<open>The loop of \<^verbatim>\<open>tick\<close> over the probe kinds; \<open>ready\<close> is \<^verbatim>\<open>consumer_ready()\<close>.\<close>

fun first_due :: "bool \<Rightarrow> time \<Rightarrow> 'a observer_scheme \<Rightarrow> (probe_kind \<times> time) list \<Rightarrow> probe_kind option" where
  "first_due ready now o1 [] = None"
| "first_due ready now o1 ((kind, due) # rest) =
     (if now < due then first_due ready now o1 rest
      else if kind = CONSUMER \<and> (evaluate now (ob_bridge o1) \<noteq> HEALTHY \<or> \<not> ready)
      then first_due ready now o1 rest
      else Some kind)"

definition tick :: "'a listener \<Rightarrow> bool \<Rightarrow> string \<Rightarrow> time \<Rightarrow> 'a observer_scheme
    \<Rightarrow> pending_probe option \<times> 'a observer_scheme" where
  "tick listener ready token now o1 =
     (let o2 = with_probes listener now (check now) o1 in
      if pt_pending (ob_probes o2) \<noteq> None then (None, o2)
      else (case first_due ready now o2 (sort_key snd (ob_next_due o2)) of
              None \<Rightarrow> (None, o2)
            | Some kind \<Rightarrow> start_probe kind token now o2))"

section \<open>Diagnostics\<close>

fun bridge_state_value :: "bridge_state \<Rightarrow> string" where
  "bridge_state_value STARTING = ''starting''"
| "bridge_state_value HEALTHY = ''healthy''"
| "bridge_state_value DEGRADED = ''degraded''"
| "bridge_state_value UNAVAILABLE = ''unavailable''"
| "bridge_state_value UNKNOWN = ''unknown''"
| "bridge_state_value UNSUPPORTED = ''unsupported''"

fun probe_kind_value :: "probe_kind \<Rightarrow> string" where
  "probe_kind_value STATUS = ''status''"
| "probe_kind_value CONSUMER = ''consumer''"

fun probe_outcome_value :: "probe_outcome \<Rightarrow> string" where
  "probe_outcome_value OK = ''ok''"
| "probe_outcome_value NO_REPLY = ''no_reply''"
| "probe_outcome_value BRIDGE_FAILED = ''bridge_failed''"
| "probe_outcome_value BRIDGE_BUSY = ''bridge_busy''"
| "probe_outcome_value DELIVERY_INCOMPLETE = ''delivery_incomplete''"
| "probe_outcome_value CONSUMER_PARTIAL = ''consumer_partial''"
| "probe_outcome_value CONSUMER_STALE = ''consumer_stale''"
| "probe_outcome_value NO_UNITS = ''no_units''"
| "probe_outcome_value SUPERSEDED = ''superseded''"

definition age :: "time \<Rightarrow> time option \<Rightarrow> json" where
  "age now value = json_of_opt_int (map_option (\<lambda>t. py_trunc (now - t)) value)"

definition diagnostics :: "time \<Rightarrow> 'a observer_scheme \<Rightarrow> json" where
  "diagnostics now o1 =
     (let status = tr_status (ob_bridge o1); counters = ob_consumer o1 in
      JObj [(''protocol_version'', JInt PROTOCOL_VERSION),
        (''bridge_state'', JStr (bridge_state_value (bridge_state_of now o1))),
        (''bridge_phase'', json_of_opt_str (map_option bs_phase status)),
        (''bridge_error'', json_of_opt_str (map_option bs_error status)),
        (''bridge_ble'', json_of_opt_str (map_option bs_ble status)),
        (''bridge_snapshot_units'', json_of_opt_int (map_option (\<lambda>s. ss_units (bs_snapshot s)) status)),
        (''bridge_status_age_s'', age now (tr_received_at (ob_bridge o1))),
        (''ignored_status_messages'', JInt (int (tr_ignored (ob_bridge o1)))),
        (''rejected_replies'', JInt (int (pt_rejected_replies (ob_probes o1)))),
        (''probe_pending'', json_of_opt_str
           (map_option (\<lambda>p. probe_kind_value (pp_kind p)) (pt_pending (ob_probes o1)))),
        (''last_probe'', JObj (map (\<lambda>(kind, result).
           (probe_kind_value kind,
            JObj [(''outcome'', JStr (probe_outcome_value (res_outcome result))),
                  (''age_s'', age now (Some (res_finished_at result))),
                  (''expected_units'', json_of_opt_int (res_expected_units result)),
                  (''raw_units'', JInt (int (res_raw_units result))),
                  (''processed_units'', JInt (int (res_processed_units result)))]))
           (ob_last_result o1))),
        (''last_ok_age_s'', JObj (map (\<lambda>(kind, t). (probe_kind_value kind, age now (Some t)))
           (ob_last_ok o1))),
        (''consumer'', JObj [(''raw_messages'', JInt (int (cc_raw_messages counters))),
           (''processed_messages'', JInt (int (cc_processed_messages counters))),
           (''last_raw_age_s'', age now (cc_last_raw_at counters)),
           (''last_processed_age_s'', age now (cc_last_processed_at counters))])])"

text \<open>
  The strings of a diagnostics object, keys and values, come from a fixed vocabulary as long as the
  status it shows passed the parser.
\<close>

fun json_strings :: "json \<Rightarrow> string list" where
  "json_strings (JStr s) = [s]"
| "json_strings (JArr vs) = concat (map json_strings vs)"
| "json_strings (JObj d) = concat (map (\<lambda>kv. fst kv # json_strings (snd kv)) d)"
| "json_strings _ = []"

definition VOCABULARY :: "string list" where
  "VOCABULARY = PHASES @ LINK_STATES @ ERROR_CATEGORIES
     @ map bridge_state_value [STARTING, HEALTHY, DEGRADED, UNAVAILABLE, UNKNOWN, UNSUPPORTED]
     @ map probe_kind_value [STATUS, CONSUMER]
     @ map probe_outcome_value [OK, NO_REPLY, BRIDGE_FAILED, BRIDGE_BUSY, DELIVERY_INCOMPLETE,
         CONSUMER_PARTIAL, CONSUMER_STALE, NO_UNITS, SUPERSEDED]
     @ [''protocol_version'', ''bridge_state'', ''bridge_phase'', ''bridge_error'', ''bridge_ble'',
        ''bridge_snapshot_units'', ''bridge_status_age_s'', ''ignored_status_messages'',
        ''rejected_replies'', ''probe_pending'', ''last_probe'', ''outcome'', ''age_s'',
        ''expected_units'', ''raw_units'', ''processed_units'', ''last_ok_age_s'', ''consumer'',
        ''raw_messages'', ''processed_messages'', ''last_raw_age_s'', ''last_processed_age_s'']"

lemma value_words:
  "bridge_state_value s \<in> set VOCABULARY" "probe_kind_value k \<in> set VOCABULARY"
  "probe_outcome_value out \<in> set VOCABULARY"
proof -
  show "bridge_state_value s \<in> set VOCABULARY" by (cases s) (simp_all add: VOCABULARY_def)
  show "probe_kind_value k \<in> set VOCABULARY" by (cases k) (simp_all add: VOCABULARY_def)
  show "probe_outcome_value out \<in> set VOCABULARY" by (cases out) (simp_all add: VOCABULARY_def)
qed

lemma json_strings_opt [simp]:
  "json_strings (json_of_opt_int n) = []"
  "json_strings (json_of_opt_str x) = (case x of None \<Rightarrow> [] | Some s \<Rightarrow> [s])"
  "json_strings (age now t) = []"
  by (simp_all add: json_of_opt_int_def json_of_opt_str_def age_def split: option.splits)

lemma key_words: "set [''protocol_version'', ''bridge_state'', ''bridge_phase'', ''bridge_error'', ''bridge_ble'',
        ''bridge_snapshot_units'', ''bridge_status_age_s'', ''ignored_status_messages'',
        ''rejected_replies'', ''probe_pending'', ''last_probe'', ''outcome'', ''age_s'',
        ''expected_units'', ''raw_units'', ''processed_units'', ''last_ok_age_s'', ''consumer'',
        ''raw_messages'', ''processed_messages'', ''last_raw_age_s'', ''last_processed_age_s''] \<subseteq> set VOCABULARY"
  unfolding VOCABULARY_def set_append by blast

lemma status_words:
  assumes "status_ok s"
  shows "bs_phase s \<in> set VOCABULARY" "bs_error s \<in> set VOCABULARY" "bs_ble s \<in> set VOCABULARY"
  using assms unfolding VOCABULARY_def status_ok_def by auto

lemma diagnostics_words:
  assumes "pred_option status_ok (tr_status (ob_bridge o1))"
  shows "set (json_strings (diagnostics now o1)) \<subseteq> set VOCABULARY"
  using key_words assms
  by (cases "tr_status (ob_bridge o1)"; cases "pt_pending (ob_probes o1)")
    (auto simp: diagnostics_def Let_def value_words status_words)

section \<open>Runs\<close>

text \<open>What reaches an observer, and the probes it asks to be sent.\<close>

datatype observer_event =
  Status_Message payload bool
| Reply_Message payload
| Raw_Unit string bool "time option"
| Processed_Unit string "time option"
| Health_Tick bool string

fun observer_call :: "'a listener \<Rightarrow> observer_event \<Rightarrow> time \<Rightarrow> 'a observer_scheme
    \<Rightarrow> pending_probe option \<times> 'a observer_scheme" where
  "observer_call listener (Status_Message payload retain) now o1 = (None, on_status listener payload retain now o1)"
| "observer_call listener (Reply_Message payload) now o1 = (None, on_health_reply listener payload now o1)"
| "observer_call listener (Raw_Unit topic no_payload ident) now o1 =
     (None, on_raw_unit listener topic no_payload ident now o1)"
| "observer_call listener (Processed_Unit topic ident) now o1 =
     (None, on_processed_unit listener topic ident now o1)"
| "observer_call listener (Health_Tick ready token) now o1 = tick listener ready token now o1"

text \<open>
  A run of callbacks; \<open>wiring\<close> is what the caller does after a callback with the probe it returned
  (\<^verbatim>\<open>HealthMonitor._on_tick\<close> sends it). \<open>sent\<close> are the kinds and times of the probes of a run.
\<close>

type_synonym 'a wiring = "observer_event \<Rightarrow> pending_probe option \<Rightarrow> time \<Rightarrow> 'a observer_scheme \<Rightarrow> 'a observer_scheme"

definition callback :: "'a listener \<Rightarrow> 'a wiring \<Rightarrow> observer_event \<Rightarrow> time \<Rightarrow> 'a observer_scheme \<Rightarrow> 'a observer_scheme" where
  "callback listener wiring e now o1 =
     (let (probe, o2) = observer_call listener e now o1 in wiring e probe now o2)"

fun sent :: "'a listener \<Rightarrow> 'a wiring \<Rightarrow> (observer_event \<times> time) list \<Rightarrow> 'a observer_scheme
    \<Rightarrow> (probe_kind \<times> time) list" where
  "sent listener wiring [] o1 = []"
| "sent listener wiring ((e, now) # es) o1 =
     (case fst (observer_call listener e now o1) of None \<Rightarrow> [] | Some p \<Rightarrow> [(pp_kind p, now)])
     @ sent listener wiring es (callback listener wiring e now o1)"

fun health_run :: "'a listener \<Rightarrow> 'a wiring \<Rightarrow> (observer_event \<times> time) list \<Rightarrow> 'a observer_scheme
    \<Rightarrow> 'a observer_scheme" where
  "health_run listener wiring [] o1 = o1"
| "health_run listener wiring ((e, now) # es) o1 =
     health_run listener wiring es (callback listener wiring e now o1)"

lemma first_due_Some:
  "first_due ready now o1 l = Some k \<Longrightarrow>
     \<exists>d. (k, d) \<in> set l \<and> d \<le> now \<and> (k = CONSUMER \<longrightarrow> evaluate now (ob_bridge o1) = HEALTHY \<and> ready)"
  by (induction ready now o1 l rule: first_due.induct) (auto split: if_splits)

lemma first_due_None:
  "first_due ready now o1 l = None \<Longrightarrow> (STATUS, d) \<in> set l \<Longrightarrow> now < d"
  by (induction ready now o1 l rule: first_due.induct) (auto split: if_splits)

text \<open>The most overdue eligible kind comes first.\<close>

lemma first_due_least:
  assumes "first_due ready now o1 l = Some k" "sorted (map snd l)" "(k', d') \<in> set l" "d' \<le> now"
    "k' = CONSUMER \<longrightarrow> evaluate now (ob_bridge o1) = HEALTHY \<and> ready"
  shows "\<exists>d. (k, d) \<in> set l \<and> d \<le> d'"
  using assms by (induction ready now o1 l rule: first_due.induct) (fastforce split: if_splits)+

definition both_kinds :: "'a observer_scheme \<Rightarrow> bool" where
  "both_kinds o1 \<longleftrightarrow> map fst (ob_next_due o1) = [STATUS, CONSUMER]"

lemma both_kinds_new: "both_kinds (new_observer settings event_prefix now)"
  by (simp add: both_kinds_def new_observer_def)

lemma update_keeps_keys:
  "map fst al = [STATUS, CONSUMER] \<Longrightarrow> map fst (AList.update k v al) = [STATUS, CONSUMER]"
  by (cases k) (auto simp: map_eq_Cons_conv)

lemma due_in_map:
  "both_kinds o1 \<Longrightarrow> (k, d) \<in> set (ob_next_due o1) \<longleftrightarrow> map_of (ob_next_due o1) k = Some d"
  by (auto simp: both_kinds_def intro: map_of_SomeD)

definition due_after :: "time \<Rightarrow> probe_kind \<Rightarrow> 'a observer_scheme \<Rightarrow> bool" where
  "due_after t k o1 \<longleftrightarrow> (\<exists>d. map_of (ob_next_due o1) k = Some d \<and> t \<le> d)"

section \<open>The listener's contract\<close>

text \<open>
  What the observer relies on from its listener: it leaves the evidence alone and moves only the
  next consumer probe, no closer than \<open>recheck\<close> seconds.
\<close>

definition same_evidence :: "'a observer_scheme \<Rightarrow> 'a observer_scheme \<Rightarrow> bool" where
  "same_evidence o1 o2 \<longleftrightarrow> ob_settings o2 = ob_settings o1 \<and> ob_event_prefix o2 = ob_event_prefix o1
     \<and> ob_started_at o2 = ob_started_at o1 \<and> ob_bridge o2 = ob_bridge o1
     \<and> ob_probes o2 = ob_probes o1 \<and> ob_consumer o2 = ob_consumer o1
     \<and> ob_last_result o2 = ob_last_result o1 \<and> ob_last_ok o2 = ob_last_ok o1"

locale probe_listener =
  fixes listener :: "probe_result \<Rightarrow> time \<Rightarrow> 'a observer_scheme \<Rightarrow> 'a observer_scheme"
    and wiring :: "observer_event \<Rightarrow> pending_probe option \<Rightarrow> time \<Rightarrow> 'a observer_scheme \<Rightarrow> 'a observer_scheme"
    and recheck :: "health_settings \<Rightarrow> time"
  assumes evidence_kept: "same_evidence o1 (listener r now o1)"
    and reschedules: "ob_next_due (listener r now o1) = ob_next_due o1
      \<or> (\<exists>d. recheck (ob_settings o1) \<le> d
           \<and> ob_next_due (listener r now o1) = AList.update CONSUMER (now + d) (ob_next_due o1))"
    and wiring_kept: "same_evidence o1 (wiring e probe now o1)"
      "ob_next_due (wiring e probe now o1) = ob_next_due o1"
begin

lemma listener_keeps [simp]:
  "ob_settings (listener r now o1) = ob_settings o1"
  "ob_event_prefix (listener r now o1) = ob_event_prefix o1"
  "ob_bridge (listener r now o1) = ob_bridge o1"
  "ob_probes (listener r now o1) = ob_probes o1"
  "ob_consumer (listener r now o1) = ob_consumer o1"
  "ob_last_result (listener r now o1) = ob_last_result o1"
  "ob_last_ok (listener r now o1) = ob_last_ok o1"
  using evidence_kept[of o1 r now] by (simp_all add: same_evidence_def)

lemma publish_keeps [simp]:
  "ob_settings (publish_result listener now res o1) = ob_settings o1"
  "ob_event_prefix (publish_result listener now res o1) = ob_event_prefix o1"
  "ob_bridge (publish_result listener now res o1) = ob_bridge o1"
  "ob_probes (publish_result listener now res o1) = ob_probes o1"
  "ob_consumer (publish_result listener now res o1) = ob_consumer o1"
  by (cases res; simp add: publish_result_def record_result_def)+

lemma publish_due:
  "ob_next_due (publish_result listener now res o1) = ob_next_due o1
   \<or> (\<exists>d. recheck (ob_settings o1) \<le> d
        \<and> ob_next_due (publish_result listener now res o1) = AList.update CONSUMER (now + d) (ob_next_due o1))"
  using reschedules[of _ now "record_result _ o1"]
  by (cases res) (auto simp: publish_result_def record_result_def)

lemma with_probes_keeps [simp]:
  "ob_settings (with_probes listener now f o1) = ob_settings o1"
  "ob_bridge (with_probes listener now f o1) = ob_bridge o1"
  "ob_probes (with_probes listener now f o1) = snd (f (ob_probes o1))"
  "ob_event_prefix (with_probes listener now f o1) = ob_event_prefix o1"
  by (simp_all add: with_probes_def split: prod.splits)

lemma with_probes_due:
  "ob_next_due (with_probes listener now f o1) = ob_next_due o1
   \<or> (\<exists>d. recheck (ob_settings o1) \<le> d
        \<and> ob_next_due (with_probes listener now f o1) = AList.update CONSUMER (now + d) (ob_next_due o1))"
proof -
  obtain r p where "f (ob_probes o1) = (r, p)" by force
  then show ?thesis
    using publish_due[of now r "o1\<lparr>ob_probes := p\<rparr>"] by (simp add: with_probes_def)
qed

definition gap :: "health_settings \<Rightarrow> probe_kind \<Rightarrow> time" where
  "gap settings k =
     (if k = CONSUMER then min (probe_interval k settings) (recheck settings) else probe_interval k settings)"

lemma with_probes_both_kinds: "both_kinds o1 \<Longrightarrow> both_kinds (with_probes listener now f o1)"
  using with_probes_due[of now f o1] by (auto simp: both_kinds_def update_keeps_keys)

lemma with_probes_due_after:
  assumes "due_after (t + gap (ob_settings o1) k) k o1" "t \<le> now"
  shows "due_after (t + gap (ob_settings o1) k) k (with_probes listener now f o1)"
  using with_probes_due[of now f o1] assms
  by (fastforce simp: due_after_def gap_def update_conv)

lemma start_probe_facts:
  assumes "start_probe k token now o1 = (res, o2)"
  shows "ob_settings o2 = ob_settings o1"
    "both_kinds o1 \<Longrightarrow> both_kinds o2"
    "res = Some p \<Longrightarrow> pp_kind p = k \<and> pp_sent_at p = now \<and> map_of (ob_next_due o2) k =
       Some (now + probe_interval k (ob_settings o1))"
    "k' \<noteq> k \<or> res = None \<Longrightarrow> map_of (ob_next_due o2) k' = map_of (ob_next_due o1) k'"
    "pt_pending (ob_probes o1) = None \<Longrightarrow> res \<noteq> None"
  using assms
  by (cases k; auto simp: start_probe_def start_def Let_def both_kinds_def update_keeps_keys update_conv
      split: prod.splits option.splits if_splits)+

text \<open>A tick after its expiry check.\<close>

lemma tick_cases:
  assumes "tick listener ready token now o1 = (res, o3)"
  obtains (None) "res = None" "o3 = with_probes listener now (check now) o1"
    "pt_pending (ob_probes o3) \<noteq> None
     \<or> first_due ready now o3 (sort_key snd (ob_next_due o3)) = None"
  | (Some) k o2 where "o2 = with_probes listener now (check now) o1" "pt_pending (ob_probes o2) = None"
    "first_due ready now o2 (sort_key snd (ob_next_due o2)) = Some k"
    "start_probe k token now o2 = (res, o3)"
  using assms by (auto simp: tick_def Let_def split: if_splits option.splits)

lemma observe_settings [simp]: "ob_settings (snd (observer_call listener e now o1)) = ob_settings o1"
proof (cases e)
  case (Health_Tick ready token)
  obtain res o3 where t: "tick listener ready token now o1 = (res, o3)" by force
  from t have "ob_settings o3 = ob_settings o1"
    by (cases rule: tick_cases) (auto dest: start_probe_facts(1))
  with t Health_Tick show ?thesis by simp
qed (simp_all add: on_status_def on_health_reply_def on_raw_unit_def on_processed_unit_def Let_def
    split: prod.splits)

lemma observe_due:
  assumes "fst (observer_call listener e now o1) = None"
  shows "ob_next_due (snd (observer_call listener e now o1)) = ob_next_due o1
   \<or> (\<exists>d. recheck (ob_settings o1) \<le> d
        \<and> ob_next_due (snd (observer_call listener e now o1)) = AList.update CONSUMER (now + d) (ob_next_due o1))"
proof (cases e)
  case (Status_Message payload retain)
  obtain acc b where "on_message payload retain now (ob_bridge o1) = (acc, b)" by force
  then show ?thesis
    using with_probes_due[of now "supersede now (tracker_instance_id b)" "o1\<lparr>ob_bridge := b\<rparr>"]
    by (auto simp: Status_Message on_status_def Let_def)
next
  case (Reply_Message payload)
  then show ?thesis by (simp add: on_health_reply_def with_probes_due)
next
  case (Raw_Unit topic no_payload ident)
  show ?thesis unfolding Raw_Unit observer_call.simps on_raw_unit_def snd_conv
    by (split if_split, rule conjI; rule impI)
      (simp, rule with_probes_due[of now _ "o1\<lparr>ob_consumer := _\<rparr>", simplified])
next
  case (Processed_Unit topic ident)
  show ?thesis unfolding Processed_Unit observer_call.simps on_processed_unit_def snd_conv
    by (split if_split, rule conjI; rule impI)
      (simp, rule with_probes_due[of now _ "o1\<lparr>ob_consumer := _\<rparr>", simplified])
next
  case (Health_Tick ready token)
  obtain res o3 where t: "tick listener ready token now o1 = (res, o3)" by force
  from t show ?thesis
  proof (cases rule: tick_cases)
    case None
    with t Health_Tick with_probes_due show ?thesis by simp
  next
    case (Some k o2)
    with assms t Health_Tick start_probe_facts(5)[OF Some(4) Some(2)] show ?thesis by simp
  qed
qed

lemma observe_keeps:
  assumes "both_kinds o1" "fst (observer_call listener e now o1) = None"
  shows "both_kinds (snd (observer_call listener e now o1))"
    and "t \<le> now \<Longrightarrow> due_after (t + gap (ob_settings o1) k) k o1 \<Longrightarrow>
       due_after (t + gap (ob_settings o1) k) k (snd (observer_call listener e now o1))"
  using observe_due[OF assms(2)] assms(1)
  by (fastforce simp: both_kinds_def update_keeps_keys due_after_def gap_def update_conv)+

text \<open>A probe is sent only when it is due, and its kind is then due an interval later.\<close>

lemma observe_sends:
  assumes "both_kinds o1" "fst (observer_call listener e now o1) = Some p"
  shows "both_kinds (snd (observer_call listener e now o1))"
    and "pp_sent_at p = now"
    and "t \<le> now \<Longrightarrow> due_after (t + gap (ob_settings o1) (pp_kind p)) (pp_kind p) o1 \<Longrightarrow>
       t + gap (ob_settings o1) (pp_kind p) \<le> now"
    and "due_after (now + gap (ob_settings o1) (pp_kind p)) (pp_kind p) (snd (observer_call listener e now o1))"
    and "t \<le> now \<Longrightarrow> k' \<noteq> pp_kind p \<Longrightarrow> due_after (t + gap (ob_settings o1) k') k' o1 \<Longrightarrow>
       due_after (t + gap (ob_settings o1) k') k' (snd (observer_call listener e now o1))"
    and "pp_kind p = CONSUMER \<Longrightarrow> evaluate now (ob_bridge o1) = HEALTHY"
proof -
  from assms(2) obtain ready token where e: "e = Health_Tick ready token" by (cases e) auto
  obtain o3 where t: "tick listener ready token now o1 = (Some p, o3)"
    using assms(2) e by (metis observer_call.simps(5) prod.collapse)
  from t obtain k o2 where o2: "o2 = with_probes listener now (check now) o1"
    and d: "first_due ready now o2 (sort_key snd (ob_next_due o2)) = Some k"
    and st: "start_probe k token now o2 = (Some p, o3)"
    by (cases rule: tick_cases) auto
  have bk: "both_kinds o2" using assms(1) o2 with_probes_both_kinds by simp
  have set2: "ob_settings o2 = ob_settings o1" using o2 by simp
  note f = start_probe_facts[OF st]
  have pk: "pp_kind p = k" "pp_sent_at p = now"
    "map_of (ob_next_due o3) k = Some (now + probe_interval k (ob_settings o1))"
    using f(3)[OF refl] set2 by auto
  from first_due_Some[OF d] bk obtain due where due: "map_of (ob_next_due o2) k = Some due" "due \<le> now"
    "k = CONSUMER \<longrightarrow> evaluate now (ob_bridge o2) = HEALTHY" by (auto simp: due_in_map)
  have o3: "snd (observer_call listener e now o1) = o3" using t e by simp
  show "both_kinds (snd (observer_call listener e now o1))" using f(2) bk o3 by simp
  show "pp_sent_at p = now" by (rule pk)
  show "t + gap (ob_settings o1) (pp_kind p) \<le> now"
    if "t \<le> now" "due_after (t + gap (ob_settings o1) (pp_kind p)) (pp_kind p) o1"
    using with_probes_due_after[OF that(2,1), of "check now"] due o2 pk by (auto simp: due_after_def)
  show "due_after (now + gap (ob_settings o1) (pp_kind p)) (pp_kind p) (snd (observer_call listener e now o1))"
    using pk o3 by (auto simp: due_after_def gap_def)
  show "due_after (t + gap (ob_settings o1) k') k' (snd (observer_call listener e now o1))"
    if "t \<le> now" "k' \<noteq> pp_kind p" "due_after (t + gap (ob_settings o1) k') k' o1"
    using with_probes_due_after[OF that(3,1), of "check now"] f(4)[of k'] that(2) o2 pk o3
    by (auto simp: due_after_def)
  show "evaluate now (ob_bridge o1) = HEALTHY" if "pp_kind p = CONSUMER"
    using due(3) that pk o2 by simp
qed

lemma wiring_keeps [simp]:
  "ob_settings (wiring e probe now o1) = ob_settings o1"
  "ob_bridge (wiring e probe now o1) = ob_bridge o1"
  "both_kinds (wiring e probe now o1) = both_kinds o1"
  "due_after t k (wiring e probe now o1) = due_after t k o1"
  using wiring_kept(1)[of o1 e probe now] wiring_kept(2)[of e probe now o1]
  by (simp_all add: same_evidence_def both_kinds_def due_after_def)

lemma callback_keeps [simp]:
  "ob_settings (callback listener wiring e now o1) = ob_settings o1"
  "both_kinds (callback listener wiring e now o1) = both_kinds (snd (observer_call listener e now o1))"
  "due_after t k (callback listener wiring e now o1) = due_after t k (snd (observer_call listener e now o1))"
  using observe_settings[of e now o1] by (cases "observer_call listener e now o1"; simp add: callback_def)+

text \<open>The tracker of a run stays the tracker of the status messages it received.\<close>

lemma observe_bridge:
  "ob_bridge (snd (observer_call listener e now o1)) = (case e of
     Status_Message payload retain \<Rightarrow> snd (on_message payload retain now (ob_bridge o1))
   | _ \<Rightarrow> ob_bridge o1)"
proof (cases e)
  case (Health_Tick ready token)
  obtain res o3 where t: "tick listener ready token now o1 = (res, o3)" by force
  from t have "ob_bridge o3 = ob_bridge o1"
    by (cases rule: tick_cases)
      (auto simp: start_probe_def Let_def split: prod.splits if_splits)
  with t Health_Tick show ?thesis by simp
qed (simp_all add: on_status_def on_health_reply_def on_raw_unit_def on_processed_unit_def Let_def
    split: prod.splits)

lemma callback_bridge: "ob_bridge (callback listener wiring e now o1) = ob_bridge (snd (observer_call listener e now o1))"
  by (cases "observer_call listener e now o1") (simp add: callback_def)

lemma run_tracker_inv:
  "tracker_inv (ob_bridge o1) \<Longrightarrow> tracker_inv (ob_bridge (health_run listener wiring es o1))"
proof (induction es arbitrary: o1)
  case (Cons x es)
  obtain e now where "x = (e, now)" by force
  moreover have "tracker_inv (ob_bridge (callback listener wiring e now o1))"
    using Cons.prems unfolding callback_bridge observe_bridge
    by (cases e) (simp_all add: tracker_inv_on_message)
  ultimately show ?case using Cons.IH by simp
qed simp

lemma sent_times: "(k, t') \<in> set (sent listener wiring es o1) \<Longrightarrow> t' \<in> snd ` set es"
  by (induction es arbitrary: o1) (fastforce split: option.splits)+

lemma sent_after:
  assumes "both_kinds o1" "chronological es" "due_after (t + gap (ob_settings o1) k) k o1"
    "\<forall>e \<in> set es. t \<le> snd e" "(k, t') \<in> set (sent listener wiring es o1)"
  shows "t + gap (ob_settings o1) k \<le> t'"
  using assms
proof (induction es arbitrary: o1)
  case Nil
  then show ?case by simp
next
  case (Cons x es)
  obtain e now where x: "x = (e, now)" by force
  show ?case
  proof (cases "fst (observer_call listener e now o1)")
    case None
    with Cons x observe_keeps[OF Cons.prems(1) None] Cons.IH[of "callback listener wiring e now o1"]
    show ?thesis by simp
  next
    case (Some p)
    note s = observe_sends[OF Cons.prems(1) Some]
    show ?thesis
    proof (cases "pp_kind p = k")
      case True
      with s(3) Cons.prems(3,4) x have "t + gap (ob_settings o1) k \<le> now" by simp
      moreover have "now \<le> t'"
        using Cons.prems(2,5) Some True x sent_times[of k t' es] by (auto split: option.splits)
      ultimately show ?thesis by simp
    next
      case False
      with Cons.prems Cons.IH[of "callback listener wiring e now o1"] x s(5)[of t k] Some s(1)
      show ?thesis by auto
    qed
  qed
qed

text \<open>Two probes of one kind that ticks send are at least the kind's gap apart.\<close>

lemma sent_spaced:
  assumes "both_kinds o1" "chronological es"
  shows "spaced (gap (ob_settings o1) k) (filter (\<lambda>e. fst e = k) (sent listener wiring es o1))"
  using assms
proof (induction es arbitrary: o1)
  case Nil
  then show ?case by (simp add: spaced_def)
next
  case (Cons x es)
  obtain e now where x: "x = (e, now)" by force
  show ?case
  proof (cases "fst (observer_call listener e now o1)")
    case None
    with Cons x observe_keeps[OF Cons.prems(1) None] Cons.IH[of "callback listener wiring e now o1"]
    show ?thesis by simp
  next
    case (Some p)
    note s = observe_sends[OF Cons.prems(1) Some]
    let ?o = "callback listener wiring e now o1"
    have IH: "spaced (gap (ob_settings o1) k) (filter (\<lambda>e. fst e = k) (sent listener wiring es ?o))"
      using Cons.prems Cons.IH[of ?o] x s(1) by simp
    have "now + gap (ob_settings o1) k \<le> t'" if "(k, t') \<in> set (sent listener wiring es ?o)" "pp_kind p = k" for t'
      using s(1) sent_after[of ?o es now k t', OF _ _ _ _ that(1)] s(4) Cons.prems(2) that(2) x by simp
    with IH Some x show ?thesis by (fastforce simp: spaced_def)
  qed
qed

text \<open>An idle observer sends a probe at a tick when the status probe is due.\<close>

lemma tick_sends:
  assumes "both_kinds o1" "map_of (ob_next_due o1) STATUS = Some d" "d \<le> now"
    and "pt_pending (snd (check now (ob_probes o1))) = None"
  shows "\<exists>p. fst (tick listener ready token now o1) = Some p \<and> pp_sent_at p = now
    \<and> (pp_kind p = CONSUMER \<longrightarrow> evaluate now (ob_bridge o1) = HEALTHY)"
proof -
  obtain res o3 where t: "tick listener ready token now o1 = (res, o3)" by force
  let ?o = "with_probes listener now (check now) o1"
  have "\<exists>d. map_of (ob_next_due ?o) STATUS = Some d \<and> d \<le> now"
    using with_probes_due[of now "check now" o1] assms(2,3) by (auto simp: update_conv)
  then obtain d' where "(STATUS, d') \<in> set (ob_next_due ?o)" "d' \<le> now"
    by (auto dest: map_of_SomeD)
  then have due: "first_due ready now ?o (sort_key snd (ob_next_due ?o)) \<noteq> None"
    using first_due_None[of ready now ?o "sort_key snd (ob_next_due ?o)" d'] by auto
  from t have "res \<noteq> None"
  proof (cases rule: tick_cases)
    case None
    with due assms(4) show ?thesis by simp
  next
    case (Some k o2)
    with start_probe_facts(5)[OF Some(4) Some(2)] show ?thesis by simp
  qed
  with t observe_sends(2,6)[OF assms(1), of "Health_Tick ready token" now] show ?thesis by auto
qed

end

end
