(* ===== verification/Recovery_Manager.thy ===== *)
theory Recovery_Manager
  imports Protocol Health_Settings Contracts "HOL-Library.List_Lexorder" "HOL-Library.Char_ord"
begin

text \<open>
  \<^verbatim>\<open>recovery.py\<close>, \<^verbatim>\<open>RecoveryManager\<close>: the reload lock, budget and latch of one entry. The manager
  runs coroutines: between two of its awaits it is one step, and any other callback of the
  event loop may run at an await. Its listener and the probes it asks for act on the reloaded entry's
  coordinator, which is a parameter here (\<open>client\<close>, over a state of any type).
\<close>

section \<open>State\<close>

abbreviation "RECOVERY_WINDOW_SECONDS \<equiv> (1800 :: time)"
abbreviation "MAX_RELOADS_PER_WINDOW \<equiv> (2 :: nat)"
abbreviation "VERIFY_POLL_SECONDS \<equiv> (5 :: time)"
abbreviation "VERIFY_PROBE_SPACING_SECONDS \<equiv> (30 :: time)"

definition recovery_issue_id :: "string \<Rightarrow> string" where
  "recovery_issue_id entry_id = ''recovery_failed_'' @ entry_id"

definition unsupported_issue_id :: "string \<Rightarrow> string" where
  "unsupported_issue_id entry_id = ''bridge_unsupported_'' @ entry_id"

text \<open>What the manager asks Home Assistant to do; \<open>Request_Probe\<close> is \<^verbatim>\<open>coordinator.request_probe\<close>.\<close>

datatype host_call =
  Save_Store json
| Reload_Entry string
| Request_Probe
| Create_Issue string
| Delete_Issue string
| Announce_Recovery string
| Remove_Store

text \<open>
  Where the recovery task is suspended: not yet running, at its first save (with what the store held
  before), at the reload, in the verification's sleep (targets, deadline, last probe), at the save of a
  latch (inside the try body or in the exception handler), or at the last save (verified or not).
\<close>

datatype recover_phase =
  Begun
| Charging "json option"
| Reloading "string list"
| Verifying "string list" time "time option"
| Latching bool
| Closing bool

text \<open>The other coroutines of the manager, before their first and after their last await.\<close>

datatype side_task =
  Latch_Begin string
| Latch_End
| Healthy_Begin
| Healthy_End
| Acknowledge_End

record manager =
  rm_entry_id :: string
  rm_in_progress :: bool
  rm_reloads :: "time list"
  rm_failed :: bool
  rm_reason :: string
  rm_last_result :: string
  rm_last_recovery :: "string option"
  rm_stale_streak :: nat
  rm_last_stale_at :: "time option"
  rm_task :: "recover_phase option"
  rm_side_tasks :: "side_task list"
  rm_store :: "json option"
  rm_calls :: "host_call list"

definition new_manager :: "string \<Rightarrow> json option \<Rightarrow> manager" where
  "new_manager entry_id stored =
     \<lparr>rm_entry_id = entry_id, rm_in_progress = False, rm_reloads = [], rm_failed = False,
      rm_reason = ''none'', rm_last_result = ''none'', rm_last_recovery = None,
      rm_stale_streak = 0, rm_last_stale_at = None, rm_task = None, rm_side_tasks = [],
      rm_store = stored, rm_calls = []\<rparr>"

record 'c client =
  cl_notify :: "manager \<Rightarrow> 'c \<Rightarrow> 'c"
  cl_request_probe :: "time \<Rightarrow> 'c \<Rightarrow> 'c"
  cl_consumer_ok :: "'c \<Rightarrow> bool"
  cl_can_probe :: "time \<Rightarrow> 'c \<Rightarrow> bool"

section \<open>Loading and saving\<close>

definition call :: "host_call \<Rightarrow> manager \<Rightarrow> manager" where
  "call h m = m\<lparr>rm_calls := rm_calls m @ [h]\<rparr>"

definition saved_data :: "manager \<Rightarrow> json" where
  "saved_data m = JObj [(''reloads'', JArr (map JFloat (rm_reloads m))),
     (''failed'', JBool (rm_failed m)), (''reason'', JStr (rm_reason m)),
     (''last_result'', JStr (rm_last_result m)), (''last_recovery'', json_of_opt_str (rm_last_recovery m))]"

text \<open>\<^verbatim>\<open>_async_save\<close> up to its await: the data is handed to the store.\<close>

definition save :: "manager \<Rightarrow> manager" where
  "save m = (call (Save_Store (saved_data m)) m)\<lparr>rm_store := Some (saved_data m)\<rparr>"

fun number_value :: "json \<Rightarrow> time option" where
  "number_value (JInt n) = Some (of_int n)"
| "number_value (JFloat x) = Some x"
| "number_value _ = None"

text \<open>The list of numbers \<^verbatim>\<open>async_load\<close> takes over, if every item is a number.\<close>

fun numbers :: "json list \<Rightarrow> time list option" where
  "numbers [] = Some []"
| "numbers (v # vs) = (case (number_value v, numbers vs) of
     (Some x, Some xs) \<Rightarrow> Some (x # xs) | _ \<Rightarrow> None)"

definition load_reloads :: "json \<Rightarrow> manager \<Rightarrow> manager" where
  "load_reloads v m = (case v of
     JArr vs \<Rightarrow> (case numbers vs of None \<Rightarrow> m | Some xs \<Rightarrow> m\<lparr>rm_reloads := xs\<rparr>)
   | _ \<Rightarrow> m)"

definition load_failed :: "json \<Rightarrow> manager \<Rightarrow> manager" where
  "load_failed v m = (if is_bool v then m\<lparr>rm_failed := the_bool v\<rparr> else m)"

definition load_texts :: "(string \<times> json) list \<Rightarrow> manager \<Rightarrow> manager" where
  "load_texts d m = m\<lparr>
     rm_reason := (if is_str (get d ''reason'') then take 64 (the_str (get d ''reason'')) else rm_reason m),
     rm_last_result := (if is_str (get d ''last_result'') then take 64 (the_str (get d ''last_result''))
                        else rm_last_result m),
     rm_last_recovery := (if is_str (get d ''last_recovery'')
                          then Some (take 40 (the_str (get d ''last_recovery''))) else rm_last_recovery m)\<rparr>"

definition load_manager :: "manager \<Rightarrow> manager" where
  "load_manager m =
     (case rm_store m of
        Some (JObj d) \<Rightarrow>
          (let m' = load_texts d (load_failed (get d ''failed'') (load_reloads (get d ''reloads'') m)) in
           if rm_failed m' then call (Create_Issue (recovery_issue_id (rm_entry_id m'))) m' else m')
      | _ \<Rightarrow> m)"

section \<open>Stale streak\<close>

definition clear_streak :: "manager \<Rightarrow> manager" where
  "clear_streak m = m\<lparr>rm_stale_streak := 0, rm_last_stale_at := None\<rparr>"

definition record_stale :: "time \<Rightarrow> time \<Rightarrow> time \<Rightarrow> manager \<Rightarrow> bool \<times> manager" where
  "record_stale confirm_seconds max_gap now m =
     (case rm_last_stale_at m of
        None \<Rightarrow> (False, m\<lparr>rm_stale_streak := 1, rm_last_stale_at := Some now\<rparr>)
      | Some previous \<Rightarrow>
          if rm_stale_streak m = 0 \<or> now - previous > max_gap
          then (False, m\<lparr>rm_stale_streak := 1, rm_last_stale_at := Some now\<rparr>)
          else if now - previous < confirm_seconds then (False, m)
          else (True, clear_streak m))"

section \<open>Recovery\<close>

definition recent_reloads :: "time \<Rightarrow> manager \<Rightarrow> time list" where
  "recent_reloads wall m = recent_at RECOVERY_WINDOW_SECONDS wall (rm_reloads m)"

definition notify :: "'c client \<Rightarrow> manager \<times> 'c \<Rightarrow> manager \<times> 'c" where
  "notify client s = (fst s, cl_notify client (fst s) (snd s))"

definition spawn :: "side_task \<Rightarrow> manager \<Rightarrow> manager" where
  "spawn task m = m\<lparr>rm_side_tasks := rm_side_tasks m @ [task]\<rparr>"

definition request_recovery :: "'c client \<Rightarrow> health_settings \<Rightarrow> time \<Rightarrow> manager \<times> 'c
    \<Rightarrow> string \<times> manager \<times> 'c" where
  "request_recovery client settings wall s =
     (let m = fst s; recent = recent_reloads wall m in
      if rm_in_progress m then (''in_progress'', s)
      else if rm_failed m then (''recovery_failed'', s)
      else if length recent \<ge> MAX_RELOADS_PER_WINDOW
      then (''budget_exhausted'', spawn (Latch_Begin ''budget_exhausted'') m, snd s)
      else if recent \<noteq> [] \<and> wall - Max (set recent) < of_int (recovery_cooldown_seconds settings)
      then (''cooldown'', s)
      else
        (let (m', c') = notify client (m\<lparr>rm_in_progress := True, rm_last_result := ''recovering''\<rparr>, snd s)
         in (''started'', m'\<lparr>rm_task := Some Begun\<rparr>, c')))"

text \<open>\<^verbatim>\<open>_async_latch\<close> before and after its save.\<close>

definition latch_begin :: "string \<Rightarrow> manager \<Rightarrow> manager" where
  "latch_begin reason m =
     save (m\<lparr>rm_failed := True, rm_reason := reason, rm_last_result := ''recovery_failed''\<rparr>)"

definition latch_end :: "'c client \<Rightarrow> manager \<times> 'c \<Rightarrow> manager \<times> 'c" where
  "latch_end client s =
     notify client (call (Create_Issue (recovery_issue_id (rm_entry_id (fst s)))) (fst s), snd s)"

text \<open>
  What the host shows the manager: the entry's lights (\<^verbatim>\<open>entity_id\<close> and whether they have been
  added), whether the entry is loaded with a coordinator, and the states of entities.
\<close>

record host_view =
  hv_lights :: "(string \<times> bool) list"
  hv_loaded :: bool
  hv_states :: "(string \<times> string) list"

definition current_targets :: "host_view \<Rightarrow> string list" where
  "current_targets host = sort (map fst (filter (\<lambda>(entity, added). entity \<noteq> [] \<and> added) (hv_lights host)))"

definition targets_available :: "host_view \<Rightarrow> string list \<Rightarrow> bool" where
  "targets_available host targets \<longleftrightarrow>
     list_all (\<lambda>entity. case map_of (hv_states host) entity of
        None \<Rightarrow> False | Some state \<Rightarrow> state \<noteq> ''unavailable'') targets"

text \<open>\<^verbatim>\<open>_async_succeeded\<close> up to its save; \<open>stamp\<close> is the current UTC time.\<close>

definition succeeded_begin :: "string \<Rightarrow> manager \<Rightarrow> manager" where
  "succeeded_begin stamp m =
     save ((clear_streak m)\<lparr>rm_last_result := ''recovered'', rm_last_recovery := Some stamp\<rparr>)"

definition verify_deadline :: "health_settings \<Rightarrow> time \<Rightarrow> time" where
  "verify_deadline settings clock = clock + of_int (max (recovery_verify_seconds settings)
     (startup_grace_seconds settings + probe_deadline_seconds settings + 60))"

text \<open>
  One iteration of the loop of \<^verbatim>\<open>_async_verify\<close> up to its sleep, or the loop's end with what
  \<^verbatim>\<open>_async_recover\<close> does then, up to the next save.
\<close>

definition unverified :: "time \<Rightarrow> manager \<Rightarrow> manager" where
  "unverified wall m =
     (let m' = m\<lparr>rm_last_result := ''verify_failed''\<rparr> in
      if length (recent_reloads wall m') \<ge> MAX_RELOADS_PER_WINDOW
      then (latch_begin ''verify_failed'' m')\<lparr>rm_task := Some (Latching True)\<rparr>
      else (save m')\<lparr>rm_task := Some (Closing False)\<rparr>)"

definition poll :: "'c client \<Rightarrow> host_view \<Rightarrow> time \<Rightarrow> time \<Rightarrow> string
    \<Rightarrow> string list \<Rightarrow> time \<Rightarrow> time option \<Rightarrow> manager \<times> 'c \<Rightarrow> manager \<times> 'c" where
  "poll client host wall clock stamp targets deadline last_probe_at s =
     (let m = fst s; c = snd s in
      if clock < deadline then
        if hv_loaded host \<and> cl_consumer_ok client c \<and> targets_available host targets
        then ((succeeded_begin stamp m)\<lparr>rm_task := Some (Closing True)\<rparr>, c)
        else if hv_loaded host \<and> cl_can_probe client clock c
             \<and> (case last_probe_at of None \<Rightarrow> True
                | Some previous \<Rightarrow> clock - previous \<ge> VERIFY_PROBE_SPACING_SECONDS)
        then ((call Request_Probe m)\<lparr>rm_task := Some (Verifying targets deadline (Some clock))\<rparr>,
              cl_request_probe client clock c)
        else (m\<lparr>rm_task := Some (Verifying targets deadline last_probe_at)\<rparr>, c)
      else (unverified wall m, c))"

text \<open>The \<open>finally\<close> block.\<close>

definition finish_recover :: "'c client \<Rightarrow> manager \<times> 'c \<Rightarrow> manager \<times> 'c" where
  "finish_recover client s =
     notify client ((fst s)\<lparr>rm_in_progress := False, rm_task := None\<rparr>, snd s)"

definition announce :: "manager \<Rightarrow> manager" where
  "announce m = call (Announce_Recovery (rm_entry_id m)) m"

text \<open>How an await of the recovery task ends: with a value, an exception, or by cancellation.\<close>

datatype outcome = Returned bool | Raised | Cancelled

definition resume :: "'c client \<Rightarrow> health_settings \<Rightarrow> host_view \<Rightarrow> time \<Rightarrow> time \<Rightarrow> string
    \<Rightarrow> outcome \<Rightarrow> recover_phase \<Rightarrow> manager \<times> 'c \<Rightarrow> manager \<times> 'c" where
  "resume client settings host wall clock stamp result phase s =
     (let m = fst s; c = snd s in
      case result of
        Returned value \<Rightarrow>
          (case phase of
             Begun \<Rightarrow>
               ((save (clear_streak (m\<lparr>rm_reloads := recent_reloads wall m @ [wall]\<rparr>)))
                  \<lparr>rm_task := Some (Charging (rm_store m))\<rparr>, c)
           | Charging _ \<Rightarrow>
               ((call (Reload_Entry (rm_entry_id m)) m)\<lparr>rm_task := Some (Reloading (current_targets host))\<rparr>, c)
           | Reloading targets \<Rightarrow>
               if value then poll client host wall clock stamp targets (verify_deadline settings clock) None s
               else ((latch_begin ''reload_failed'' m)\<lparr>rm_task := Some (Latching True)\<rparr>, c)
           | Verifying targets deadline last_probe_at \<Rightarrow>
               poll client host wall clock stamp targets deadline last_probe_at s
           | Latching _ \<Rightarrow> finish_recover client (latch_end client s)
           | Closing verified \<Rightarrow> finish_recover client (if verified then announce m else m, c))
      | Raised \<Rightarrow>
          (if phase = Latching False then finish_recover client s
           else ((latch_begin ''reload_error'' m)\<lparr>rm_task := Some (Latching False)\<rparr>, c))
      | Cancelled \<Rightarrow> finish_recover client s)"

section \<open>Health and acknowledgement\<close>

definition mark_healthy :: "string \<Rightarrow> manager \<Rightarrow> manager" where
  "mark_healthy stamp m =
     (let m1 = clear_streak m in
      if \<not> rm_failed m1 then m1
      else spawn Healthy_End (save (m1\<lparr>rm_failed := False, rm_reason := ''none'',
             rm_last_result := ''recovered'', rm_last_recovery := Some stamp\<rparr>)))"

definition acknowledge :: "manager \<Rightarrow> manager" where
  "acknowledge m =
     spawn Acknowledge_End (save (clear_streak
       (m\<lparr>rm_failed := False, rm_reason := ''none'', rm_last_result := ''acknowledged''\<rparr>)))"

definition delete_failed_issue :: "manager \<Rightarrow> manager" where
  "delete_failed_issue m = call (Delete_Issue (recovery_issue_id (rm_entry_id m))) m"

fun run_side_task :: "'c client \<Rightarrow> string \<Rightarrow> side_task \<Rightarrow> manager \<times> 'c \<Rightarrow> manager \<times> 'c" where
  "run_side_task client stamp (Latch_Begin reason) s = (spawn Latch_End (latch_begin reason (fst s)), snd s)"
| "run_side_task client stamp Latch_End s = latch_end client s"
| "run_side_task client stamp Healthy_Begin s = (mark_healthy stamp (fst s), snd s)"
| "run_side_task client stamp Healthy_End s =
     notify client (announce (delete_failed_issue (fst s)), snd s)"
| "run_side_task client stamp Acknowledge_End s = notify client (delete_failed_issue (fst s), snd s)"

text \<open>
  \<^verbatim>\<open>async_remove\<close>: the task is cancelled (one that has not run yet never reaches its \<open>finally\<close>),
  the store and both issues are deleted.
\<close>

definition remove_manager :: "'c client \<Rightarrow> manager \<times> 'c \<Rightarrow> manager \<times> 'c" where
  "remove_manager client s =
     (let (m, c) = (case rm_task (fst s) of None \<Rightarrow> s | Some Begun \<Rightarrow> s
                  | Some _ \<Rightarrow> finish_recover client s) in
      (call (Delete_Issue (unsupported_issue_id (rm_entry_id m)))
        (delete_failed_issue ((call Remove_Store m)\<lparr>rm_store := None\<rparr>)), c))"

section \<open>The budget\<close>

text \<open>The charge of one reload, on the list of charges alone.\<close>

definition charge_reload :: "time \<Rightarrow> time list \<Rightarrow> bool \<times> time list" where
  "charge_reload now reloads =
     (let recent = recent_at RECOVERY_WINDOW_SECONDS now reloads in
      if length recent < MAX_RELOADS_PER_WINDOW then (True, recent @ [now]) else (False, reloads))"

interpretation reload_budget: windowed_budget charge_reload "\<lambda>reloads. reloads"
    RECOVERY_WINDOW_SECONDS MAX_RELOADS_PER_WINDOW
  by unfold_locales (auto simp: charge_reload_def Let_def recent_at_later split: if_splits)

section \<open>Steps\<close>

text \<open>
  One step of the event loop that concerns the manager, at a wall-clock time. The list holds
  the charge whose reload the step asks Home Assistant for. \<open>Restart\<close> is a crash and restart of
  Home Assistant: the manager is rebuilt from the store, which may have lost a charge that was
  still being written.
\<close>

inductive recovery_step :: "'c client \<Rightarrow> health_settings \<Rightarrow> time \<Rightarrow> manager \<times> 'c \<Rightarrow> time list
    \<Rightarrow> manager \<times> 'c \<Rightarrow> bool" for client :: "'c client" and settings wall where
  Request: "recovery_step client settings wall s [] (snd (request_recovery client settings wall s))"
| Start: "rm_task (fst s) = Some Begun \<Longrightarrow> recovery_step client settings wall s []
    (resume client settings host wall clock stamp (Returned v) Begun s)"
| Reload: "rm_task (fst s) = Some (Charging old) \<Longrightarrow>
    recovery_step client settings wall s [last (rm_reloads (fst s))]
      (resume client settings host wall clock stamp (Returned v) (Charging old) s)"
| Resume: "rm_task (fst s) = Some phase \<Longrightarrow> phase \<noteq> Begun \<Longrightarrow>
    (\<And>old v. phase = Charging old \<Longrightarrow> result \<noteq> Returned v) \<Longrightarrow>
    recovery_step client settings wall s []
      (resume client settings host wall clock stamp result phase s)"
| Stale: "recovery_step client settings wall (m, c) [] (snd (record_stale confirm gap clock m), c)"
| Clear: "recovery_step client settings wall (m, c) [] (clear_streak m, c)"
| Spawn_Healthy: "recovery_step client settings wall (m, c) [] (spawn Healthy_Begin m, c)"
| Side: "rm_side_tasks m = before @ task # after \<Longrightarrow> recovery_step client settings wall (m, c) []
    (run_side_task client stamp task (m\<lparr>rm_side_tasks := before @ after\<rparr>, c))"
| Side_Failed: "rm_side_tasks m = before @ task # after \<Longrightarrow>
    recovery_step client settings wall (m, c) [] (m\<lparr>rm_side_tasks := before @ after\<rparr>, c)"
| Acknowledge: "recovery_step client settings wall (m, c) [] (acknowledge m, c)"
| Client: "recovery_step client settings wall (m, c) [] (m, c')"
| Restart: "stored = rm_store m \<or> rm_task m = Some (Charging stored) \<Longrightarrow>
    recovery_step client settings wall (m, c) [] (load_manager (new_manager (rm_entry_id m) stored), c')"

inductive recovery_run :: "'c client \<Rightarrow> health_settings \<Rightarrow> time \<Rightarrow> manager \<times> 'c \<Rightarrow> time list \<Rightarrow> time
    \<Rightarrow> manager \<times> 'c \<Rightarrow> bool" for client :: "'c client" and settings wall0 s0 where
  Done: "recovery_run client settings wall0 s0 [] wall0 s0"
| Step: "recovery_run client settings wall0 s0 cs wall s \<Longrightarrow> wall \<le> wall' \<Longrightarrow>
    recovery_step client settings wall' s c s' \<Longrightarrow>
    recovery_run client settings wall0 s0 (cs @ c) wall' s'"

text \<open>What the store brings back.\<close>

definition loaded_reloads :: "json option \<Rightarrow> time list" where
  "loaded_reloads stored = rm_reloads (load_manager (new_manager [] stored))"

lemma call_simps [simp]:
  "rm_reloads (call h m) = rm_reloads m" "rm_task (call h m) = rm_task m"
  "rm_store (call h m) = rm_store m" "rm_in_progress (call h m) = rm_in_progress m"
  "rm_entry_id (call h m) = rm_entry_id m" "rm_failed (call h m) = rm_failed m"
  "rm_calls (call h m) = rm_calls m @ [h]" "rm_side_tasks (call h m) = rm_side_tasks m"
  by (simp_all add: call_def)

lemma load_simps [simp]:
  "rm_task (load_reloads v m) = rm_task m" "rm_store (load_reloads v m) = rm_store m"
  "rm_in_progress (load_reloads v m) = rm_in_progress m" "rm_entry_id (load_reloads v m) = rm_entry_id m"
  "rm_task (load_failed v m) = rm_task m" "rm_store (load_failed v m) = rm_store m"
  "rm_in_progress (load_failed v m) = rm_in_progress m" "rm_entry_id (load_failed v m) = rm_entry_id m"
  "rm_reloads (load_failed v m) = rm_reloads m"
  "rm_task (load_texts d m) = rm_task m" "rm_store (load_texts d m) = rm_store m"
  "rm_in_progress (load_texts d m) = rm_in_progress m" "rm_entry_id (load_texts d m) = rm_entry_id m"
  "rm_reloads (load_texts d m) = rm_reloads m" "rm_failed (load_texts d m) = rm_failed m"
  by (simp_all add: load_reloads_def load_failed_def load_texts_def split: json.splits option.splits)

lemma new_manager_fields [simp]:
  "rm_task (new_manager e stored) = None" "rm_in_progress (new_manager e stored) = False"
  "rm_store (new_manager e stored) = stored" "rm_entry_id (new_manager e stored) = e"
  "rm_reloads (new_manager e stored) = []" "rm_failed (new_manager e stored) = False"
  "rm_calls (new_manager e stored) = []"
  by (simp_all add: new_manager_def)

lemma reloads_load_reloads:
  "rm_reloads (load_reloads v m) = (case v of
     JArr vs \<Rightarrow> (case numbers vs of None \<Rightarrow> rm_reloads m | Some xs \<Rightarrow> xs) | _ \<Rightarrow> rm_reloads m)"
  by (simp add: load_reloads_def split: json.splits option.splits)

lemma load_manager_fields [simp]:
  "rm_reloads (load_manager (new_manager e stored)) = loaded_reloads stored"
  "rm_task (load_manager (new_manager e stored)) = None"
  "rm_in_progress (load_manager (new_manager e stored)) = False"
  "rm_store (load_manager (new_manager e stored)) = stored"
  "rm_entry_id (load_manager (new_manager e stored)) = e"
  by (simp_all add: loaded_reloads_def load_manager_def Let_def reloads_load_reloads
      split: option.splits json.splits)

lemma numbers_floats: "numbers (map JFloat xs) = Some xs"
  by (induction xs) auto

lemma loaded_saved [simp]: "loaded_reloads (Some (saved_data m)) = rm_reloads m"
  by (simp add: loaded_reloads_def load_manager_def saved_data_def Let_def reloads_load_reloads
      numbers_floats)

text \<open>Operations that ask for no reload and leave the charges and the recovery task alone.\<close>

definition no_reload :: "manager \<Rightarrow> manager \<Rightarrow> bool" where
  "no_reload m m' \<longleftrightarrow> (\<exists>hs. rm_calls m' = rm_calls m @ hs \<and> (\<forall>e. Reload_Entry e \<notin> set hs))"

lemma no_reload_refl [simp]: "rm_calls m' = rm_calls m \<Longrightarrow> no_reload m m'"
  by (simp add: no_reload_def)

lemma no_reload_snoc [simp]: "\<forall>e. h \<noteq> Reload_Entry e \<Longrightarrow> rm_calls m' = rm_calls m @ [h] \<Longrightarrow> no_reload m m'"
  by (auto simp: no_reload_def)

lemma no_reload_trans: "no_reload m m' \<Longrightarrow> no_reload m' m'' \<Longrightarrow> no_reload m m''"
  by (fastforce simp: no_reload_def)

definition keeps :: "manager \<Rightarrow> manager \<Rightarrow> bool" where
  "keeps m m' \<longleftrightarrow> rm_reloads m' = rm_reloads m \<and> rm_task m' = rm_task m
     \<and> rm_in_progress m' = rm_in_progress m \<and> rm_entry_id m' = rm_entry_id m
     \<and> (rm_store m' = rm_store m \<or> loaded_reloads (rm_store m') = rm_reloads m)
     \<and> no_reload m m'"

lemma keeps_refl [simp]: "keeps m m"
  by (simp add: keeps_def)

lemma keeps_trans: "keeps m m' \<Longrightarrow> keeps m' m'' \<Longrightarrow> keeps m m''"
  by (auto simp: keeps_def intro: no_reload_trans)

lemma keeps_ops [simp]:
  "keeps m (save m)" "\<forall>e. h \<noteq> Reload_Entry e \<Longrightarrow> keeps m (call h m)" "keeps m (clear_streak m)" "keeps m (spawn task m)"
  "keeps m (latch_begin reason m)" "keeps m (succeeded_begin stamp m)" "keeps m (announce m)"
  "keeps m (mark_healthy stamp m)" "keeps m (acknowledge m)" "keeps m (delete_failed_issue m)"
  "keeps m (snd (record_stale confirm gap now m))" "keeps m (m\<lparr>rm_side_tasks := tasks\<rparr>)"
  by (auto simp: keeps_def no_reload_def save_def call_def clear_streak_def spawn_def latch_begin_def
      succeeded_begin_def announce_def mark_healthy_def acknowledge_def delete_failed_issue_def
      record_stale_def Let_def loaded_reloads_def[symmetric] saved_data_def[symmetric]
      split: option.splits)

lemma fst_notify [simp]: "fst (notify client s) = fst s"
  by (simp add: notify_def)

lemma fst_latch_end [simp]:
  "fst (latch_end client s) = call (Create_Issue (recovery_issue_id (rm_entry_id (fst s)))) (fst s)"
  by (simp add: latch_end_def)

lemma fst_finish_recover [simp]:
  "fst (finish_recover client s) = (fst s)\<lparr>rm_in_progress := False, rm_task := None\<rparr>"
  by (simp add: finish_recover_def)

lemma keeps_side_task: "keeps (fst s) (fst (run_side_task client stamp task s))"
  by (cases task) (auto intro: keeps_trans keeps_ops)

text \<open>
  The invariant of a run: in every window from now on the manager has charged at least the
  run's reloads (\<open>books\<close>; a charge whose save failed has no reload), the store always brings the
  charges back, and a task runs exactly while \<open>in_progress\<close> is set.
\<close>

definition books :: "time list \<Rightarrow> time list \<Rightarrow> time list" where
  "books reloads cs = fold (\<lambda>now reloads. snd (charge_reload now reloads)) cs reloads"

definition charged_in :: "time \<Rightarrow> time list \<Rightarrow> nat" where
  "charged_in w xs = length (recent_at RECOVERY_WINDOW_SECONDS w xs)"

definition covers :: "time \<Rightarrow> time list \<Rightarrow> time list \<Rightarrow> bool" where
  "covers w xs bs \<longleftrightarrow> (\<forall>w'\<ge>w. charged_in w' bs \<le> charged_in w' xs)"

definition charging_inv :: "time list \<Rightarrow> time list \<Rightarrow> time list \<Rightarrow> json option \<Rightarrow> bool" where
  "charging_inv bs cs charges old \<longleftrightarrow> (case rev charges of
     [] \<Rightarrow> False
   | c # rest \<Rightarrow> (\<forall>x\<in>set cs. x \<le> c) \<and> covers c (rev rest) bs
        \<and> length rest < MAX_RELOADS_PER_WINDOW \<and> covers c (loaded_reloads old) bs)"

definition phase_inv :: "time list \<Rightarrow> time list \<Rightarrow> time \<Rightarrow> manager \<Rightarrow> bool" where
  "phase_inv bs cs w m \<longleftrightarrow> covers w (rm_reloads m) bs \<and>
     (case rm_task m of
        Some (Charging old) \<Rightarrow> charging_inv bs cs (rm_reloads m) old \<and> last (rm_reloads m) \<le> w
      | Some Begun \<Rightarrow> charged_in w (rm_reloads m) < MAX_RELOADS_PER_WINDOW
      | _ \<Rightarrow> True)"

definition recovery_inv :: "time list \<Rightarrow> time list \<Rightarrow> time \<Rightarrow> manager \<Rightarrow> bool" where
  "recovery_inv reloads cs w m \<longleftrightarrow>
     loaded_reloads (rm_store m) = rm_reloads m
   \<and> (rm_in_progress m \<longleftrightarrow> rm_task m \<noteq> None)
   \<and> granted charge_reload reloads cs = cs \<and> sorted cs \<and> (\<forall>c\<in>set cs. c \<le> w)
   \<and> phase_inv (books reloads cs) cs w m"

lemma recovery_inv_start:
  "recovery_inv (loaded_reloads stored) [] w (load_manager (new_manager e stored))"
  by (simp add: recovery_inv_def phase_inv_def books_def covers_def)

lemma covers_later: "covers w xs ys \<Longrightarrow> w \<le> w' \<Longrightarrow> covers w' xs ys"
  by (auto simp: covers_def)

lemma charged_in_later: "w \<le> w' \<Longrightarrow> charged_in w' xs \<le> charged_in w xs"
  by (simp add: charged_in_def length_recent_at_mono)

lemma recovery_inv_later:
  assumes "recovery_inv reloads cs w m" "w \<le> w'"
  shows "recovery_inv reloads cs w' m"
  using assms charged_in_later[OF assms(2), of "rm_reloads m"]
  by (fastforce simp: recovery_inv_def phase_inv_def intro: covers_later
      split: option.splits recover_phase.splits)

lemma recovery_inv_keeps:
  "recovery_inv reloads cs w m \<Longrightarrow> keeps m m' \<Longrightarrow> recovery_inv reloads cs w m'"
  by (auto simp: recovery_inv_def phase_inv_def keeps_def split: option.splits recover_phase.splits)

text \<open>A task past its charge moves on without touching the charges.\<close>

definition settled :: "recover_phase option \<Rightarrow> bool" where
  "settled task \<longleftrightarrow> task \<noteq> Some Begun \<and> (\<forall>old. task \<noteq> Some (Charging old))"

lemma settled_simps [simp]:
  "settled None" "settled (Some (Reloading targets))" "settled (Some (Verifying targets d l))"
  "settled (Some (Latching b))" "settled (Some (Closing b))" "\<not> settled (Some Begun)"
  "\<not> settled (Some (Charging old))"
  by (simp_all add: settled_def)

lemma phase_inv_settled:
  "settled (rm_task m) \<Longrightarrow> phase_inv bs cs w m \<longleftrightarrow> covers w (rm_reloads m) bs"
  by (auto simp: phase_inv_def settled_def split: option.splits recover_phase.splits)

lemma recovery_inv_moves:
  assumes "recovery_inv reloads cs w m" "settled (rm_task m')"
    "keeps m (m'\<lparr>rm_task := rm_task m, rm_in_progress := rm_in_progress m\<rparr>)"
    "rm_in_progress m' \<longleftrightarrow> rm_task m' \<noteq> None"
  shows "recovery_inv reloads cs w m'"
  using assms unfolding recovery_inv_def phase_inv_settled[OF assms(2)]
  by (auto simp: phase_inv_def keeps_def)

text \<open>The two steps that touch the charges.\<close>

lemma recovery_inv_begin:
  assumes inv: "recovery_inv reloads cs w m" and b: "rm_task m = Some Begun"
  shows "recovery_inv reloads cs w ((save (clear_streak (m\<lparr>rm_reloads := recent_reloads w m @ [w]\<rparr>)))
    \<lparr>rm_task := Some (Charging (rm_store m))\<rparr>)"
proof -
  let ?bs = "books reloads cs" and ?W = RECOVERY_WINDOW_SECONDS
  from inv b have c: "covers w (rm_reloads m) ?bs" "charged_in w (rm_reloads m) < MAX_RELOADS_PER_WINDOW"
    by (auto simp: recovery_inv_def phase_inv_def)
  have r: "recent_at ?W w' (recent_at ?W w xs) = recent_at ?W w' xs" if "w \<le> w'" for w' xs
    using that by (rule recent_at_later)
  have "covers w (recent_at ?W w (rm_reloads m)) ?bs" "covers w (recent_at ?W w (rm_reloads m) @ [w]) ?bs"
    using c(1) by (fastforce simp: covers_def charged_in_def r)+
  moreover have "loaded_reloads (rm_store m) = rm_reloads m"
    using inv by (simp add: recovery_inv_def)
  ultimately show ?thesis
    using inv c b
    by (auto simp: recovery_inv_def phase_inv_def charging_inv_def save_def clear_streak_def
        recent_reloads_def charged_in_def)
qed

lemma recovery_inv_charged:
  assumes inv: "recovery_inv reloads cs w m" and b: "rm_task m = Some (Charging old)"
  shows "recovery_inv reloads (cs @ [last (rm_reloads m)]) w
    ((call h m)\<lparr>rm_task := Some (Reloading targets)\<rparr>)"
proof -
  let ?bs = "books reloads cs" and ?W = RECOVERY_WINDOW_SECONDS
  from inv b obtain c rest where r: "rm_reloads m = rest @ [c]" "\<forall>x\<in>set cs. x \<le> c" "covers c rest ?bs"
    "length rest < MAX_RELOADS_PER_WINDOW" "c \<le> w"
    by (auto simp: recovery_inv_def phase_inv_def charging_inv_def split: list.splits)
  have "charged_in c ?bs \<le> charged_in c rest" using r(3) by (simp add: covers_def)
  also have "\<dots> \<le> length rest" by (simp add: charged_in_def recent_at_def)
  finally have g: "charge_reload c ?bs = (True, recent_at ?W c ?bs @ [c])"
    using r(4) by (simp add: charge_reload_def charged_in_def Let_def)
  then have "granted charge_reload reloads (cs @ [c]) = cs @ [c]"
    using inv by (simp add: recovery_inv_def granted_append books_def)
  moreover have "covers w (rest @ [c]) (books reloads (cs @ [c]))"
    using r(3,5) g by (auto simp: books_def covers_def charged_in_def recent_at_later)
  ultimately show ?thesis
    using inv r b by (auto simp: recovery_inv_def phase_inv_def sorted_append)
qed

lemma keeps_task:
  "keeps m m' \<Longrightarrow> keeps m ((m'\<lparr>rm_task := t\<rparr>)\<lparr>rm_task := rm_task m, rm_in_progress := rm_in_progress m\<rparr>)"
  "keeps m m' \<Longrightarrow> keeps m ((m'\<lparr>rm_in_progress := b, rm_task := t\<rparr>)\<lparr>rm_task := rm_task m, rm_in_progress := rm_in_progress m\<rparr>)"
  by (auto simp: keeps_def no_reload_def)

lemma in_progress_ops [simp]:
  "rm_in_progress (save m) = rm_in_progress m" "rm_in_progress (latch_begin reason m) = rm_in_progress m"
  "rm_in_progress (succeeded_begin stamp m) = rm_in_progress m"
  by (simp_all add: save_def latch_begin_def succeeded_begin_def clear_streak_def)

lemma recovery_inv_busy:
  assumes "recovery_inv reloads cs w m" "rm_task m \<noteq> None" "keeps m m'" "settled (Some phase)"
  shows "recovery_inv reloads cs w (m'\<lparr>rm_task := Some phase\<rparr>)"
proof (rule recovery_inv_moves[OF assms(1)])
  show "keeps m ((m'\<lparr>rm_task := Some phase\<rparr>)\<lparr>rm_task := rm_task m, rm_in_progress := rm_in_progress m\<rparr>)"
    using assms(3) by (rule keeps_task)
qed (use assms in \<open>auto simp: recovery_inv_def keeps_def\<close>)

lemma recovery_inv_finish:
  assumes "recovery_inv reloads cs w (fst s)" "keeps (fst s) m'"
  shows "recovery_inv reloads cs w (fst (finish_recover client (m', c)))"
  using assms by (intro recovery_inv_moves[OF assms(1)]) (auto simp: keeps_def no_reload_def)

lemma keeps_unverified:
  "\<exists>m' phase. unverified w m = m'\<lparr>rm_task := Some phase\<rparr> \<and> keeps m m' \<and> settled (Some phase)"
proof -
  have k: "keeps m (m\<lparr>rm_last_result := ''verify_failed''\<rparr>)" by (simp add: keeps_def)
  show ?thesis unfolding unverified_def Let_def
    by (cases "MAX_RELOADS_PER_WINDOW \<le> length (recent_reloads w (m\<lparr>rm_last_result := ''verify_failed''\<rparr>))";
        simp only: if_True if_False; intro exI conjI, rule refl)
      (rule keeps_trans[OF k keeps_ops(5)], simp, rule keeps_trans[OF k keeps_ops(1)], simp)
qed

text \<open>One iteration of the verification keeps the charges and settles.\<close>

definition moves_to :: "manager \<Rightarrow> manager \<times> 'c \<Rightarrow> bool" where
  "moves_to m s \<longleftrightarrow> (\<exists>m' phase. fst s = m'\<lparr>rm_task := Some phase\<rparr> \<and> keeps m m' \<and> settled (Some phase))"

lemma moves_toI: "keeps m m' \<Longrightarrow> settled (Some phase) \<Longrightarrow> moves_to m (m'\<lparr>rm_task := Some phase\<rparr>, c)"
  unfolding moves_to_def fst_conv by blast

lemma moves_poll: "moves_to m (poll client host w clock stamp targets d l (m, c))"
proof (cases "clock < d")
  case True
  then show ?thesis unfolding poll_def Let_def fst_conv snd_conv
    by (simp only: if_True) (intro conjI impI allI moves_toI keeps_ops keeps_refl settled_simps host_call.distinct | split if_split)+
next
  case False
  with keeps_unverified[of w m] show ?thesis by (auto simp: poll_def moves_to_def)
qed

lemma recovery_inv_resume:
  assumes inv: "recovery_inv reloads cs w (fst s)" and t: "rm_task (fst s) = Some phase"
    and p: "phase \<noteq> Begun" "\<And>old v. phase = Charging old \<Longrightarrow> result \<noteq> Returned v"
  shows "recovery_inv reloads cs w (fst (resume client settings host w clock stamp result phase s))"
proof -
  obtain m c where s: "s = (m, c)" by force
  have busy: "recovery_inv reloads cs w (m'\<lparr>rm_task := Some ph\<rparr>)"
    if "keeps m m'" "settled (Some ph)" for m' ph
    using recovery_inv_busy[OF _ _ that] inv t s by auto
  have fin: "recovery_inv reloads cs w (fst (finish_recover client (m', c')))" if "keeps m m'" for m' c'
    using recovery_inv_finish[OF inv, of m' client c'] that s by simp
  have polled: "recovery_inv reloads cs w (fst (poll client host w clock stamp targets d l (m, c)))" for targets d l
    using moves_poll[of m client host w clock stamp targets d l c] busy by (auto simp: moves_to_def)
  show ?thesis
  proof (cases result)
    case (Returned v)
    have latched: "keeps m (fst (latch_end client (m, c)))" by simp
    show ?thesis
      using p Returned busy fin polled latched
      by (cases phase; cases "latch_end client (m, c)") (auto simp: resume_def s)
  next
    case Raised
    then show ?thesis using busy fin by (auto simp: resume_def s)
  next
    case Cancelled
    then show ?thesis using fin by (auto simp: resume_def s)
  qed
qed

lemma recovery_inv_request:
  assumes inv: "recovery_inv reloads cs w (fst s)"
  shows "recovery_inv reloads cs w (fst (snd (request_recovery client settings w s)))"
proof -
  have "phase_inv (books reloads cs) cs w (m\<lparr>rm_in_progress := True, rm_last_result := r, rm_task := Some Begun\<rparr>)"
    if "phase_inv (books reloads cs) cs w m" "charged_in w (rm_reloads m) < MAX_RELOADS_PER_WINDOW" for m r
    using that by (auto simp: phase_inv_def)
  then show ?thesis
    using inv recovery_inv_keeps[OF inv]
    by (auto simp: request_recovery_def Let_def notify_def recovery_inv_def recent_reloads_def
        charged_in_def split: prod.splits)
qed

lemma recovery_inv_restart:
  assumes inv: "recovery_inv reloads cs w m"
    and st: "stored = rm_store m \<or> rm_task m = Some (Charging stored)"
  shows "recovery_inv reloads cs w (load_manager (new_manager e stored))"
proof -
  have "covers w (loaded_reloads stored) (books reloads cs)"
    using st
  proof
    assume "stored = rm_store m"
    with inv show ?thesis by (simp add: recovery_inv_def phase_inv_def)
  next
    assume "rm_task m = Some (Charging stored)"
    with inv show ?thesis
      by (auto simp: recovery_inv_def phase_inv_def charging_inv_def intro: covers_later split: list.splits)
  qed
  with inv show ?thesis by (simp add: recovery_inv_def phase_inv_def)
qed

lemma recovery_inv_step:
  assumes "recovery_step client settings w s c s'" "recovery_inv reloads cs w (fst s)"
  shows "recovery_inv reloads (cs @ c) w (fst s')"
  using assms
proof (cases rule: recovery_step.cases)
  case Request
  then show ?thesis using recovery_inv_request[OF assms(2)] by simp
next
  case (Start host clock stamp v)
  then show ?thesis using recovery_inv_begin[OF assms(2)] by (simp add: resume_def Let_def)
next
  case (Reload old host clock stamp v)
  then show ?thesis using recovery_inv_charged[OF assms(2)] by (simp add: resume_def Let_def)
next
  case (Resume phase result host clock stamp)
  then show ?thesis using recovery_inv_resume[OF assms(2)] by simp
next
  case (Side m pre task post c1 stamp)
  have "keeps m (m\<lparr>rm_side_tasks := pre @ post\<rparr>)" by simp
  from keeps_trans[OF this] keeps_side_task[of "(m\<lparr>rm_side_tasks := pre @ post\<rparr>, c1)" client stamp task]
  have "keeps m (fst (run_side_task client stamp task (m\<lparr>rm_side_tasks := pre @ post\<rparr>, c1)))" by simp
  with Side show ?thesis using recovery_inv_keeps[OF assms(2)] by simp
next
  case (Restart stored m c1 c2)
  then show ?thesis using recovery_inv_restart[of reloads cs w m] assms(2) by simp
qed (use recovery_inv_keeps[OF assms(2)] assms(2) in auto)

lemma recovery_inv_run:
  assumes "recovery_run client settings w0 s0 cs w s" "recovery_inv reloads [] w0 (fst s0)"
  shows "recovery_inv reloads cs w (fst s)"
  using assms
proof (induction rule: recovery_run.induct)
  case (Step cs wall s wall' c s')
  then show ?case using recovery_inv_step recovery_inv_later by blast
qed simp

section \<open>What holds of every run\<close>

lemma step_entry:
  assumes "recovery_step client settings w s c s'"
  shows "rm_entry_id (fst s') = rm_entry_id (fst s)"
proof -
  have k: "rm_entry_id m' = rm_entry_id m" if "keeps m m'" for m m' using that by (simp add: keeps_def)
  have p: "rm_entry_id m' = rm_entry_id m" if "moves_to m (m', c')" for m m' and c' :: 'a
    using that by (auto simp: moves_to_def keeps_def)
  show ?thesis using assms
  proof (cases rule: recovery_step.cases)
    case Request
    then show ?thesis by (simp add: request_recovery_def Let_def notify_def spawn_def)
  next
    case (Start host clock stamp v)
    then show ?thesis by (simp add: resume_def Let_def save_def clear_streak_def)
  next
    case (Reload old host clock stamp v)
    then show ?thesis by (simp add: resume_def Let_def)
  next
    case (Resume phase result host clock stamp)
    have "rm_entry_id (fst (poll client host w clock stamp ts d l s)) = rm_entry_id (fst s)" for ts d l
      using moves_poll[of "fst s" client host w clock stamp ts d l "snd s"] p by (metis prod.collapse)
    moreover have "rm_entry_id (latch_begin r m) = rm_entry_id m" for r m
      by (simp add: latch_begin_def save_def)
    moreover have "rm_entry_id (announce m) = rm_entry_id m" for m by (simp add: announce_def)
    ultimately show ?thesis using Resume
      by (auto simp: resume_def Let_def split: outcome.splits recover_phase.splits)
  next
    case (Side m pre task post c1 stamp)
    then show ?thesis
      using k[OF keeps_side_task[of "(m\<lparr>rm_side_tasks := pre @ post\<rparr>, c1)" client stamp task]] by simp
  qed (auto simp: k)
qed

text \<open>Only the step that resumes from the saved charge asks for a reload.\<close>

lemma step_reloads:
  assumes "recovery_step client settings w s c s'" "rm_calls (fst s') = rm_calls (fst s) @ hs"
    "Reload_Entry e \<in> set hs"
  shows "e = rm_entry_id (fst s) \<and> c = [last (rm_reloads (fst s))] \<and> hs = [Reload_Entry e]
    \<and> (\<exists>old. rm_task (fst s) = Some (Charging old))"
proof -
  have quiet: False if "no_reload (fst s) (fst s')" using that assms(2,3) by (auto simp: no_reload_def)
  have k: False if "keeps (fst s) (fst s')" using quiet that by (simp add: keeps_def)
  show ?thesis using assms(1)
  proof (cases rule: recovery_step.cases)
    case Request
    then have "no_reload (fst s) (fst s')"
      by (simp add: request_recovery_def Let_def notify_def spawn_def)
    with quiet show ?thesis by blast
  next
    case (Start host clock stamp v)
    have "no_reload (fst s) (fst s')"
      unfolding Start by (simp add: resume_def Let_def save_def clear_streak_def no_reload_def)
    with quiet show ?thesis by blast
  next
    case (Reload old host clock stamp v)
    with assms(2,3) show ?thesis by (auto simp: resume_def Let_def)
  next
    case (Resume phase result host clock stamp)
    obtain m c' where s: "s = (m, c')" by force
    have fin: "no_reload m (fst (finish_recover client (m', c'')))" if "no_reload m m'" for m' c''
      using that by (simp add: no_reload_def)
    have polled: "no_reload m (fst (poll client host w clock stamp targets d l (m, c')))" for targets d l
      using moves_poll[of m client host w clock stamp targets d l c']
      by (auto simp: moves_to_def keeps_def no_reload_def)
    have latched: "no_reload m ((latch_begin reason m)\<lparr>rm_task := t\<rparr>)" for reason t
      by (simp add: latch_begin_def save_def no_reload_def)
    have "no_reload m (fst (finish_recover client (latch_end client (m, c'))))"
      "no_reload m (fst (finish_recover client (announce m, c')))"
      by (simp_all add: announce_def no_reload_def)
    then have "no_reload m (fst s')"
      using Resume s fin polled latched by (auto simp: resume_def Let_def split: outcome.splits recover_phase.splits)
    with quiet s show ?thesis by simp
  next
    case (Side m pre task post c1 stamp)
    have "keeps m (m\<lparr>rm_side_tasks := pre @ post\<rparr>)" by simp
    from keeps_trans[OF this] keeps_side_task[of "(m\<lparr>rm_side_tasks := pre @ post\<rparr>, c1)" client stamp task]
    have "keeps m (fst (run_side_task client stamp task (m\<lparr>rm_side_tasks := pre @ post\<rparr>, c1)))" by simp
    with Side k show ?thesis by simp
  next
    case (Restart stored m c1 c2)
    have "\<forall>e. Reload_Entry e \<notin> set (rm_calls (load_manager (new_manager i st)))" for i st
      by (simp add: load_manager_def load_texts_def load_failed_def load_reloads_def Let_def
          split: option.splits json.splits)
    with Restart assms(2,3) show ?thesis by (metis UnCI fst_conv set_append)
  qed (use k in auto)
qed

lemma run_entry:
  "recovery_run client settings w0 s0 cs w s \<Longrightarrow> rm_entry_id (fst s) = rm_entry_id (fst s0)"
  by (induction rule: recovery_run.induct) (auto dest: step_entry)

section \<open>The verification loop\<close>

text \<open>The recovery task's sleeps, each with what the host and the clocks show after it.\<close>

fun verify_loop :: "'c client \<Rightarrow> health_settings \<Rightarrow> (host_view \<times> time \<times> time \<times> string) list
    \<Rightarrow> manager \<times> 'c \<Rightarrow> manager \<times> 'c" where
  "verify_loop client settings [] s = s"
| "verify_loop client settings ((host, wall, clock, stamp) # ps) s =
     (case rm_task (fst s) of
        Some (Verifying targets deadline last_probe_at) \<Rightarrow>
          verify_loop client settings ps
            (resume client settings host wall clock stamp (Returned True)
              (Verifying targets deadline last_probe_at) s)
      | _ \<Rightarrow> s)"

abbreviation "poll_clock x \<equiv> fst (snd (snd x))"

definition verifying :: "string list \<Rightarrow> time \<Rightarrow> manager \<Rightarrow> bool" where
  "verifying targets deadline m \<longleftrightarrow> (\<exists>l. rm_task m = Some (Verifying targets deadline l))"

lemma task_latch [simp]: "rm_task (latch_begin r m) = rm_task m" "rm_task (save m) = rm_task m"
  by (simp_all add: latch_begin_def save_def)

lemma poll_task:
  "deadline \<le> clock \<Longrightarrow> \<not> verifying targets' deadline' (fst (poll client host w clock stamp targets deadline l s))"
  "verifying targets deadline (fst (poll client host w clock stamp targets deadline l s)) \<or> (\<forall>ts d. \<not> verifying ts d (fst (poll client host w clock stamp targets deadline l s)))"
  "rm_task (fst (poll client host w clock stamp targets deadline l s)) = Some (Closing True) \<Longrightarrow>
     clock < deadline \<and> hv_loaded host \<and> targets_available host targets"
  by (auto simp: poll_def Let_def unverified_def verifying_def split: if_splits)

lemma verify_loop_done:
  "(\<And>ts d. \<not> verifying ts d (fst s)) \<Longrightarrow> verify_loop client settings ps s = s"
  by (cases ps) (auto simp: verifying_def split: option.splits recover_phase.splits)

lemma verify_loop_ends:
  assumes "verifying targets deadline (fst s)" "\<exists>p \<in> set ps. deadline \<le> poll_clock p"
  shows "\<not> verifying ts d (fst (verify_loop client settings ps s))"
  using assms
proof (induction ps arbitrary: s)
  case (Cons p ps)
  obtain host wall clock stamp where p: "p = (host, wall, clock, stamp)" by (metis prod_cases4)
  from Cons.prems(1) obtain l where l: "rm_task (fst s) = Some (Verifying targets deadline l)"
    by (auto simp: verifying_def)
  let ?s = "poll client host wall clock stamp targets deadline l s"
  have v: "verify_loop client settings (p # ps) s = verify_loop client settings ps ?s"
    by (simp add: p l resume_def Let_def)
  show ?case
  proof (cases "verifying targets deadline (fst ?s)")
    case True
    with poll_task(1)[of deadline clock] have "\<not> deadline \<le> clock" by blast
    with Cons.prems(2) p have "\<exists>p \<in> set ps. deadline \<le> poll_clock p" by auto
    from Cons.IH[OF True this] show ?thesis unfolding v .
  next
    case False
    with poll_task(2) have "\<And>ts d. \<not> verifying ts d (fst ?s)" by blast
    then show ?thesis unfolding v verify_loop_done[OF \<open>\<And>ts d. \<not> verifying ts d (fst ?s)\<close>] .
  qed
qed simp

lemma verify_loop_success:
  assumes "verifying targets deadline (fst s)"
    and "rm_task (fst (verify_loop client settings ps s)) = Some (Closing True)"
  shows "\<exists>p \<in> set ps. poll_clock p < deadline \<and> hv_loaded (fst p) \<and> targets_available (fst p) targets"
  using assms
proof (induction ps arbitrary: s)
  case Nil
  then show ?case by (auto simp: verifying_def)
next
  case (Cons p ps)
  obtain host wall clock stamp where p: "p = (host, wall, clock, stamp)" by (metis prod_cases4)
  from Cons.prems(1) obtain l where l: "rm_task (fst s) = Some (Verifying targets deadline l)"
    by (auto simp: verifying_def)
  let ?s = "poll client host wall clock stamp targets deadline l s"
  have v: "verify_loop client settings (p # ps) s = verify_loop client settings ps ?s"
    by (simp add: p l resume_def Let_def)
  show ?case
  proof (cases "verifying targets deadline (fst ?s)")
    case True
    from Cons.IH[OF True] Cons.prems(2) v show ?thesis by auto
  next
    case False
    with poll_task(2) have n: "\<And>ts d. \<not> verifying ts d (fst ?s)" by blast
    have "rm_task (fst ?s) = Some (Closing True)"
      using Cons.prems(2) unfolding v verify_loop_done[OF n] .
    from poll_task(3)[OF this] p show ?thesis by auto
  qed
qed

lemma spaced_reaches:
  assumes "sorted_wrt (\<lambda>a b. a + VERIFY_POLL_SECONDS \<le> b) (x # xs :: time list)"
  shows "x + VERIFY_POLL_SECONDS * real (length xs) \<le> last (x # xs)"
  using assms
proof (induction xs rule: rev_induct)
  case (snoc y ys)
  then have "sorted_wrt (\<lambda>a b. a + VERIFY_POLL_SECONDS \<le> b) ((x # ys) @ [y])" by simp
  then have "last (x # ys) + VERIFY_POLL_SECONDS \<le> y" unfolding sorted_wrt_append
    by (metis last_in_set list.distinct(1) list.set_intros(1))
  moreover have "sorted_wrt (\<lambda>a b. a + VERIFY_POLL_SECONDS \<le> b) (x # ys)"
    using snoc.prems by (auto simp: sorted_wrt_append)
  ultimately show ?case using snoc.IH by (simp add: algebra_simps)
qed simp

section \<open>Properties\<close>

definition idle_client :: "unit client" where
  "idle_client = \<lparr>cl_notify = \<lambda>m c. c, cl_request_probe = \<lambda>t c. c, cl_consumer_ok = \<lambda>c. True,
     cl_can_probe = \<lambda>t c. False\<rparr>"

definition sample_host :: host_view where
  "sample_host = \<lparr>hv_lights = [(''light.hall'', True)], hv_loaded = True, hv_states = [(''light.hall'', ''on'')]\<rparr>"

lemma sample_charged_run:
  "\<exists>m. recovery_run idle_client default_settings 100 (load_manager (new_manager ''e1'' None), ()) [] 100 (m, ())
     \<and> rm_task m = Some (Charging None) \<and> rm_reloads m = [100]"
proof -
  let ?s0 = "(load_manager (new_manager ''e1'' None), ())"
  let ?s1 = "snd (request_recovery idle_client default_settings 100 ?s0)"
  let ?s2 = "resume idle_client default_settings sample_host 100 0 [] (Returned True) Begun ?s1"
  have r1: "recovery_run idle_client default_settings 100 ?s0 ([] @ []) 100 ?s1"
    by (intro recovery_run.Step[OF recovery_run.Done] recovery_step.Request) simp
  have t1: "rm_task (fst ?s1) = Some Begun" "rm_reloads (fst ?s1) = []" "rm_store (fst ?s1) = None"
    by (simp_all add: request_recovery_def Let_def notify_def load_manager_def recent_reloads_def
        new_manager_def)
  have "recovery_run idle_client default_settings 100 ?s0 (([] @ []) @ []) 100 ?s2"
    by (intro recovery_run.Step[OF r1] recovery_step.Start t1) simp
  moreover have "rm_task (fst ?s2) = Some (Charging None)" "rm_reloads (fst ?s2) = [100]"
    using t1 by (simp_all add: resume_def Let_def recent_reloads_def save_def clear_streak_def)
  moreover obtain m where "?s2 = (m, ())" by (metis surj_pair unit.exhaust)
  ultimately show ?thesis by auto
qed

abbreviation "sample_reload m \<equiv> fst (resume idle_client default_settings sample_host 100 0 []
  (Returned True) (Charging None) (m, ()))"

lemma sample_reload_step:
  assumes "rm_task m = Some (Charging None)"
  shows "recovery_step idle_client default_settings 100 (m, ()) [last (rm_reloads m)] (sample_reload m, ())"
  using recovery_step.Reload[of "(m, ())" None idle_client default_settings 100 sample_host 0 "[]" True] assms
  by (simp add: resume_def Let_def)

text \<open>
  C3: the reload budget. However callbacks, tasks, failures and acknowledgements interleave, and
  across crashes and restarts of Home Assistant, the reloads the manager asks for are charged at
  most twice in any 30 minutes, counting the charges the store held at the start. The wall
  clock must not step back during the run.
\<close>

theorem reload_budget_held:
  assumes "recovery_run client settings w0 (load_manager (new_manager entry_id stored), c0) cs w s"
  shows "length (filter (\<lambda>x. T - 1800 < x \<and> x \<le> T) cs) \<le> 2
    \<and> (\<forall>before t after. cs = before @ t # after \<longrightarrow>
         length (filter (\<lambda>x. t - x < 1800) (loaded_reloads stored @ before @ [t])) \<le> 2)"
proof -
  from recovery_inv_run[OF assms] recovery_inv_start
  have "granted charge_reload (loaded_reloads stored) cs = cs" "sorted cs"
    by (auto simp: recovery_inv_def)
  with reload_budget.granted_per_window[of cs T "loaded_reloads stored"]
    reload_budget.granted_prefix[of cs "loaded_reloads stored"]
  show ?thesis by (auto simp: recent_at_def)
qed

theorem reload_budget_held_witness:
  "\<exists>s. recovery_run idle_client default_settings 100 (load_manager (new_manager ''e1'' None), ()) [100] 100 s
     \<and> length (filter (\<lambda>x. 200 - 1800 < x \<and> x \<le> 200) [100 :: time]) \<le> 2"
proof -
  from sample_charged_run obtain m where m: "recovery_run idle_client default_settings 100
      (load_manager (new_manager ''e1'' None), ()) [] 100 (m, ())"
    "rm_task m = Some (Charging None)" "rm_reloads m = [100]" by blast
  from recovery_run.Step[OF m(1) order_refl sample_reload_step[OF m(2)]] m(3)
  have "recovery_run idle_client default_settings 100 (load_manager (new_manager ''e1'' None), ())
      [100] 100 (sample_reload m, ())" by simp
  with reload_budget_held[OF this, of 200] show ?thesis by blast
qed

text \<open>
  C33: a reload is asked for only by the recovery task right after its charge was saved, only
  for the manager's own entry, and with the charge in the store, so that a crash during the
  reload cannot give it back.
\<close>

theorem reload_after_saved_charge:
  assumes "recovery_run client settings w0 (load_manager (new_manager entry_id stored), c0) cs w s"
    and "recovery_step client settings w' s c s'" and "w \<le> w'"
    and "rm_calls (fst s') = rm_calls (fst s) @ hs" "Reload_Entry e \<in> set hs"
  shows "e = entry_id \<and> c = [last (rm_reloads (fst s))]
    \<and> last (rm_reloads (fst s)) \<in> set (loaded_reloads (rm_store (fst s)))
    \<and> rm_in_progress (fst s) \<and> rm_calls (fst s') = rm_calls (fst s) @ [Reload_Entry entry_id]"
proof -
  have inv: "recovery_inv (loaded_reloads stored) cs w (fst s)"
    using recovery_inv_run[OF assms(1)] recovery_inv_start by simp
  from step_reloads[OF assms(2,4,5)] run_entry[OF assms(1)] obtain old where
    c: "e = entry_id" "c = [last (rm_reloads (fst s))]" "rm_task (fst s) = Some (Charging old)"
    "hs = [Reload_Entry e]" by auto
  from inv c(3) have "rm_reloads (fst s) \<noteq> []" "rm_in_progress (fst s)"
    "loaded_reloads (rm_store (fst s)) = rm_reloads (fst s)"
    by (auto simp: recovery_inv_def phase_inv_def charging_inv_def)
  then show ?thesis using c assms(4) by simp
qed

theorem reload_after_saved_charge_witness:
  "\<exists>m. rm_task m = Some (Charging None) \<and> rm_calls (sample_reload m) = rm_calls m @ [Reload_Entry ''e1'']
     \<and> 100 \<in> set (loaded_reloads (rm_store m))"
proof -
  from sample_charged_run obtain m where m: "recovery_run idle_client default_settings 100
      (load_manager (new_manager ''e1'' None), ()) [] 100 (m, ())"
    "rm_task m = Some (Charging None)" "rm_reloads m = [100]" by blast
  have e: "rm_entry_id m = ''e1''" using run_entry[OF m(1)] by simp
  then have calls: "rm_calls (fst (sample_reload m, ())) = rm_calls (fst (m, ())) @ [Reload_Entry ''e1'']"
    by (simp add: resume_def Let_def)
  from reload_after_saved_charge[OF m(1) sample_reload_step[OF m(2)] order_refl calls] m calls
  show ?thesis by auto
qed



text \<open>
  C36: the verification of a reload ends and is never vacuous. With at least the poll interval between
  two wake-ups the loop has ended at the latest when the wake-ups span the time to its deadline,
  and it counts as recovered only if at one of them, before the deadline, the entry was loaded and
  every light the entry had before the reload was there again and not unavailable.
\<close>

theorem verification_ends:
  assumes "rm_task (fst s) = Some (Verifying targets deadline l)" "ps \<noteq> []"
    and "sorted_wrt (\<lambda>a b. a + VERIFY_POLL_SECONDS \<le> b) (map poll_clock ps)"
    and "deadline \<le> poll_clock (hd ps) + VERIFY_POLL_SECONDS * real (length ps - 1)"
  shows "(\<forall>ts d l'. rm_task (fst (verify_loop client settings ps s)) \<noteq> Some (Verifying ts d l'))
    \<and> (rm_task (fst (verify_loop client settings ps s)) = Some (Closing True) \<longrightarrow>
        (\<exists>p \<in> set ps. poll_clock p < deadline \<and> hv_loaded (fst p)
           \<and> (\<forall>entity \<in> set targets. \<exists>state. map_of (hv_states (fst p)) entity = Some state
                \<and> state \<noteq> ''unavailable'')))"
proof -
  have v: "verifying targets deadline (fst s)" using assms(1) by (simp add: verifying_def)
  obtain x xs where x: "map poll_clock ps = x # xs" using assms(2) by (cases ps) auto
  then have "poll_clock (hd ps) = x" "length ps - 1 = length xs" using assms(2) by (cases ps; auto)+
  then have "deadline \<le> last (map poll_clock ps)"
    using spaced_reaches[of x xs] assms(3,4) unfolding x by simp
  then have "\<exists>p \<in> set ps. deadline \<le> poll_clock p"
    using assms(2) by (metis last_in_set last_map)
  note ends = verify_loop_ends[OF v this, of _ _ client settings]
  have av: "targets_available host ts \<longleftrightarrow> (\<forall>entity \<in> set ts. \<exists>state. map_of (hv_states host) entity = Some state
      \<and> state \<noteq> ''unavailable'')" for host ts
    by (auto simp: targets_available_def list_all_iff split: option.splits)
  show ?thesis
    using ends verify_loop_success[OF v, of client settings ps] unfolding verifying_def av by blast
qed

theorem verification_ends_witness:
  "let s = ((new_manager ''e1'' None)\<lparr>rm_task := Some (Verifying [''light.hall''] 12 None)\<rparr>, ());
       ps = [(sample_host\<lparr>hv_loaded := False\<rparr>, 0, 5, []), (sample_host\<lparr>hv_loaded := False\<rparr>, 0, 10, []),
             (sample_host, 0, 15, [])]
   in (\<forall>ts d l. rm_task (fst (verify_loop idle_client default_settings ps s)) \<noteq> Some (Verifying ts d l))
      \<and> ps \<noteq> []"
  using verification_ends[of "((new_manager ''e1'' None)\<lparr>rm_task := Some (Verifying [''light.hall''] 12 None)\<rparr>, ())"
      "[''light.hall'']" 12 None "[(sample_host\<lparr>hv_loaded := False\<rparr>, 0, 5, []), (sample_host\<lparr>hv_loaded := False\<rparr>, 0, 10, []),
             (sample_host, 0, 15, [])]" idle_client default_settings]
  by (simp add: Let_def)

text \<open>
  A configured reload cooldown is enforced only up to the budget's window: with a cooldown of
  a day, accepted by the settings, a reload is started again 30 minutes after the last one.
\<close>

theorem cooldown_beyond_window:
  "recovery_cooldown_seconds (from_options [(CONF_RECOVERY_COOLDOWN_SECONDS, JInt 86400)]) = 86400
   \<and> fst (request_recovery client (from_options [(CONF_RECOVERY_COOLDOWN_SECONDS, JInt 86400)]) 1800
        ((new_manager entry_id stored)\<lparr>rm_reloads := [0]\<rparr>, c0)) = ''started''"
  by (simp add: from_options_def option_value_def SETTING_RANGES_def request_recovery_def Let_def
      recent_reloads_def new_manager_def notify_def)

end
