(* ===== verification/Coordinator.thy ===== *)
theory Coordinator
  imports Observer Recovery_Manager
begin

text \<open>
  \<^verbatim>\<open>recovery.py\<close>, \<^verbatim>\<open>HealthCoordinator\<close>, and \<^verbatim>\<open>health_monitor.py\<close>: the state machine of one entry
  on top of its observer and its recovery manager, and the MQTT callbacks that feed it. The
  coordinator extends the observer's record and holds the manager; it is the observer's
  listener and the manager's client. Home Assistant starts a task eagerly, so \<^verbatim>\<open>async_mark_healthy\<close>
  runs up to its save within the callback that creates it.
\<close>

section \<open>State\<close>

datatype consumer_state =
  CS_STARTING
| CS_HEALTHY
| CS_BRIDGE_UNAVAILABLE
| CS_CONSUMER_STALE
| CS_RECOVERING
| CS_RECOVERY_FAILED
| CS_UNSUPPORTED
| CS_DEGRADED

fun consumer_state_value :: "consumer_state \<Rightarrow> string" where
  "consumer_state_value CS_STARTING = ''starting''"
| "consumer_state_value CS_HEALTHY = ''healthy''"
| "consumer_state_value CS_BRIDGE_UNAVAILABLE = ''bridge_unavailable''"
| "consumer_state_value CS_CONSUMER_STALE = ''consumer_stale''"
| "consumer_state_value CS_RECOVERING = ''recovering''"
| "consumer_state_value CS_RECOVERY_FAILED = ''recovery_failed''"
| "consumer_state_value CS_UNSUPPORTED = ''unsupported''"
| "consumer_state_value CS_DEGRADED = ''degraded''"

text \<open>
  \<open>co_sent\<close> are the MQTT messages handed to the broker client, \<open>co_writes\<close> counts the calls of the
  sensor's listener; \<open>ready\<close> is what \<^verbatim>\<open>consumer_ready()\<close> returns. The coordinator's settings are
  the observer's.
\<close>

record coordinator = observer +
  co_network_name :: string
  co_manager :: manager
  co_last_consumer_ok :: "string option"
  co_state :: consumer_state
  co_reason :: string
  co_unsupported_issue :: "bool option"
  co_published :: "json option"
  co_last_consumer :: "probe_result option"
  co_issue_calls :: "host_call list"
  co_writes :: nat
  co_sent :: "(string \<times> json) list"

abbreviation "MQTT_TOPIC_PREFIX \<equiv> ''casambi''"

text \<open>The objects \<^verbatim>\<open>async_setup_entry\<close> creates, around the entry's surviving manager.\<close>

definition new_coordinator :: "health_settings \<Rightarrow> string \<Rightarrow> time \<Rightarrow> manager \<Rightarrow> coordinator" where
  "new_coordinator settings network_name now m =
     observer.extend
       (new_observer settings (MQTT_TOPIC_PREFIX @ ''/'' @ network_name @ ''/events/'') now)
       (coordinator.fields network_name m None CS_STARTING ''startup'' None None None [] 0 [])"

section \<open>Verdict\<close>

definition compute :: "time \<Rightarrow> 'a coordinator_scheme \<Rightarrow> consumer_state \<times> string" where
  "compute now c =
     (let m = co_manager c in
      if rm_in_progress m then (CS_RECOVERING, ''reloading_entry'')
      else if rm_failed m then (CS_RECOVERY_FAILED, rm_reason m)
      else
        (let bridge = bridge_state_of now c in
         if bridge = STARTING then (CS_STARTING, ''startup'')
         else if bridge = UNSUPPORTED then (CS_UNSUPPORTED, ''bridge_without_health_protocol'')
         else if bridge = UNKNOWN then (CS_STARTING, ''waiting_for_bridge_status'')
         else if bridge = UNAVAILABLE \<or> bridge = DEGRADED then
           (CS_BRIDGE_UNAVAILABLE,
            case tr_status (ob_bridge c) of
              None \<Rightarrow> bridge_state_value bridge
            | Some status \<Rightarrow> if bs_error status = ERROR_NONE then bridge_state_value bridge else bs_error status)
         else
           (case co_last_consumer c of
              None \<Rightarrow> (CS_STARTING, ''waiting_for_consumer_probe'')
            | Some result \<Rightarrow>
                let out = res_outcome result in
                (if out = OK then CS_HEALTHY
                 else if out = CONSUMER_STALE then CS_CONSUMER_STALE
                 else if out \<in> {NO_REPLY, BRIDGE_FAILED, DELIVERY_INCOMPLETE} then CS_BRIDGE_UNAVAILABLE
                 else CS_DEGRADED,
                 probe_outcome_value out))))"

definition coordinator_diagnostics :: "time \<Rightarrow> 'a coordinator_scheme \<Rightarrow> json" where
  "coordinator_diagnostics wall c =
     (let m = co_manager c in
      JObj [(''state'', JStr (consumer_state_value (co_state c))),
        (''reason'', JStr (co_reason c)),
        (''recovery_enabled'', JBool (recovery_enabled (ob_settings c))),
        (''stale_streak'', JInt (int (rm_stale_streak m))),
        (''recovery_in_progress'', JBool (rm_in_progress m)),
        (''recovery_failed'', JBool (rm_failed m)),
        (''reloads_last_30_min'', JInt (int (length (recent_reloads wall m)))),
        (''last_recovery_result'', JStr (rm_last_result m)),
        (''last_recovery'', json_of_opt_str (rm_last_recovery m)),
        (''last_consumer_ok'', json_of_opt_str (co_last_consumer_ok c))])"

definition update_unsupported_issue :: "consumer_state \<Rightarrow> 'a coordinator_scheme \<Rightarrow> 'a coordinator_scheme" where
  "update_unsupported_issue state c =
     (let unsupported = (state = CS_UNSUPPORTED); issue = unsupported_issue_id (rm_entry_id (co_manager c)) in
      if Some unsupported = co_unsupported_issue c then c
      else c\<lparr>co_unsupported_issue := Some unsupported,
             co_issue_calls := co_issue_calls c @ [if unsupported then Create_Issue issue else Delete_Issue issue]\<rparr>)"

definition async_update :: "time \<Rightarrow> time \<Rightarrow> 'a coordinator_scheme \<Rightarrow> 'a coordinator_scheme" where
  "async_update wall now c =
     (let (state, reason) = compute now c;
          c1 = (update_unsupported_issue state c)\<lparr>co_state := state, co_reason := reason\<rparr>;
          published = coordinator_diagnostics wall c1
      in if co_published c1 = Some published then c1
         else c1\<lparr>co_published := Some published, co_writes := Suc (co_writes c1)\<rparr>)"

section \<open>Sending\<close>

definition command_topic :: "string \<Rightarrow> string" where
  "command_topic network_name = MQTT_TOPIC_PREFIX @ ''/'' @ network_name @ ''/commands''"

text \<open>\<^verbatim>\<open>HealthMonitor._send\<close> and \<^verbatim>\<open>_async_send\<close>.\<close>

definition send :: "pending_probe option \<Rightarrow> 'a coordinator_scheme \<Rightarrow> 'a coordinator_scheme" where
  "send probe c =
     (case probe of
        None \<Rightarrow> c
      | Some p \<Rightarrow> c\<lparr>co_sent := co_sent c @ [(command_topic (co_network_name c),
          if pp_kind p = STATUS then get_status_command (pp_request_id p)
          else snapshot_command (pp_request_id p))]\<rparr>)"

definition request_probe :: "probe_kind \<Rightarrow> string \<Rightarrow> time \<Rightarrow> 'a coordinator_scheme \<Rightarrow> 'a coordinator_scheme" where
  "request_probe kind token now c = (let (probe, c') = start_probe kind token now c in send probe c')"

section \<open>The manager's client and the observer's listener\<close>

text \<open>
  What the manager sees of the coordinator: its \<^verbatim>\<open>async_update\<close> as a listener, its probes and its
  observer's evidence. \<open>manage\<close> runs an operation of the manager.
\<close>

definition coordinator_client :: "bool \<Rightarrow> time \<Rightarrow> string \<Rightarrow> time \<Rightarrow> 'a coordinator_scheme client" where
  "coordinator_client ready wall token now =
     \<lparr>cl_notify = \<lambda>m c. async_update wall now (c\<lparr>co_manager := m\<rparr>),
      cl_request_probe = \<lambda>t c. request_probe CONSUMER token t c,
      cl_consumer_ok = \<lambda>c. map_of (ob_last_ok c) CONSUMER \<noteq> None,
      cl_can_probe = \<lambda>t c. pt_pending (ob_probes c) = None \<and> bridge_state_of t c = HEALTHY \<and> ready\<rparr>"

definition manage :: "(manager \<times> 'a coordinator_scheme \<Rightarrow> manager \<times> 'a coordinator_scheme)
    \<Rightarrow> 'a coordinator_scheme \<Rightarrow> 'a coordinator_scheme" where
  "manage f c = (let (m, c') = f (co_manager c, c) in c'\<lparr>co_manager := m\<rparr>)"

abbreviation change_manager :: "(manager \<Rightarrow> manager) \<Rightarrow> 'a coordinator_scheme \<Rightarrow> 'a coordinator_scheme" where
  "change_manager f c \<equiv> c\<lparr>co_manager := f (co_manager c)\<rparr>"

definition max_stale_gap :: "health_settings \<Rightarrow> time" where
  "max_stale_gap settings = of_int (3 * stale_confirm_seconds settings + probe_deadline_seconds settings
     + consumer_probe_interval_seconds settings)"

definition on_consumer_stale :: "time \<Rightarrow> time \<Rightarrow> 'a coordinator_scheme \<Rightarrow> 'a coordinator_scheme" where
  "on_consumer_stale wall now c =
     (let settings = ob_settings c; confirm = of_int (stale_confirm_seconds settings) in
      if \<not> recovery_enabled settings then c
      else if bridge_state_of now c \<noteq> HEALTHY then change_manager clear_streak c
      else
        (let (confirmed, m) = record_stale confirm (max_stale_gap settings) now (co_manager c);
             c' = c\<lparr>co_manager := m\<rparr> in
         if confirmed
         then manage (\<lambda>s. snd (request_recovery (coordinator_client False wall [] now) settings wall s)) c'
         else schedule CONSUMER confirm now c'))"

text \<open>\<open>wall\<close> and \<open>stamp\<close> read the wall clock and the UTC time at a monotonic time.\<close>

definition on_probe_result :: "(time \<Rightarrow> time) \<Rightarrow> (time \<Rightarrow> string) \<Rightarrow> probe_result \<Rightarrow> time
    \<Rightarrow> 'a coordinator_scheme \<Rightarrow> 'a coordinator_scheme" where
  "on_probe_result wall stamp r now c =
     async_update (wall now) now
       (if res_kind r = CONSUMER then
          (let c1 = (if res_outcome r \<in> {BRIDGE_BUSY, SUPERSEDED} then c else c\<lparr>co_last_consumer := Some r\<rparr>) in
           if res_outcome r = OK then
             (let c2 = c1\<lparr>co_last_consumer_ok := Some (stamp now)\<rparr> in
              if rm_stale_streak (co_manager c2) \<noteq> 0 \<or> rm_failed (co_manager c2)
              then change_manager (mark_healthy (stamp now)) c2 else c2)
           else if res_outcome r = CONSUMER_STALE then on_consumer_stale (wall now) now c1
           else if res_outcome r \<noteq> BRIDGE_BUSY then change_manager clear_streak c1
           else c1)
        else c)"

section \<open>The listener's contract holds\<close>

lemma same_evidence_refl [simp]: "same_evidence c c"
  by (simp add: same_evidence_def)

lemma coordinator_updates_evidence [simp]:
  "same_evidence c (c'\<lparr>co_manager := m\<rparr>) \<longleftrightarrow> same_evidence c c'"
  "same_evidence c (c'\<lparr>co_last_consumer := r\<rparr>) \<longleftrightarrow> same_evidence c c'"
  "same_evidence c (c'\<lparr>co_last_consumer_ok := x\<rparr>) \<longleftrightarrow> same_evidence c c'"
  "same_evidence c (schedule kind d now c') \<longleftrightarrow> same_evidence c c'"
  "same_evidence (c\<lparr>co_manager := m\<rparr>) c' \<longleftrightarrow> same_evidence c c'"
  "same_evidence (c\<lparr>co_last_consumer := r\<rparr>) c' \<longleftrightarrow> same_evidence c c'"
  by (simp_all add: same_evidence_def schedule_def)

lemma async_update_evidence [simp]:
  "same_evidence c (async_update wall now c') \<longleftrightarrow> same_evidence c c'"
  "ob_next_due (async_update wall now c) = ob_next_due c"
  "co_manager (async_update wall now c) = co_manager c"
  by (simp_all add: async_update_def update_unsupported_issue_def Let_def same_evidence_def
      split: prod.splits)

lemma request_client:
  assumes "snd (request_recovery (coordinator_client ready wall token now) settings w (co_manager c, c)) = (m', c')"
  shows "c' = c \<or> (\<exists>m. c' = async_update wall now (c\<lparr>co_manager := m\<rparr>))"
  using assms by (auto simp: request_recovery_def Let_def notify_def coordinator_client_def split: if_splits)

lemma request_evidence [simp]:
  "same_evidence c (manage (\<lambda>s. snd (request_recovery (coordinator_client ready wall token now) settings w s)) c')
     \<longleftrightarrow> same_evidence c c'"
  "ob_next_due (manage (\<lambda>s. snd (request_recovery (coordinator_client ready wall token now) settings w s)) c') = ob_next_due c'"
  using request_client[of ready wall token now settings w c'] by (auto simp: manage_def split: prod.splits)

lemma on_consumer_stale_evidence [simp]:
  "same_evidence c (on_consumer_stale wall now c') \<longleftrightarrow> same_evidence c c'"
  by (simp add: on_consumer_stale_def Let_def split: prod.splits)

lemma on_consumer_stale_due:
  "ob_next_due (on_consumer_stale wall now c) = ob_next_due c
   \<or> ob_next_due (on_consumer_stale wall now c) =
       AList.update CONSUMER (now + of_int (stale_confirm_seconds (ob_settings c))) (ob_next_due c)"
  by (simp add: on_consumer_stale_def Let_def schedule_def split: prod.splits)

lemma on_probe_result_evidence:
  "same_evidence c (on_probe_result wall stamp r now c)"
  by (simp add: on_probe_result_def Let_def)

lemma on_probe_result_due:
  "ob_next_due (on_probe_result wall stamp r now c) = ob_next_due c
   \<or> ob_next_due (on_probe_result wall stamp r now c) =
       AList.update CONSUMER (now + of_int (stale_confirm_seconds (ob_settings c))) (ob_next_due c)"
  using on_consumer_stale_due[of "wall now" now "c\<lparr>co_last_consumer := Some r\<rparr>"]
  by (auto simp: on_probe_result_def Let_def)

section \<open>The MQTT callbacks\<close>

text \<open>What \<^verbatim>\<open>HealthMonitor\<close> does around a callback of the observer: a tick sends the probe and updates.\<close>

definition health_wiring :: "(time \<Rightarrow> time) \<Rightarrow> observer_event \<Rightarrow> pending_probe option \<Rightarrow> time
    \<Rightarrow> 'a coordinator_scheme \<Rightarrow> 'a coordinator_scheme" where
  "health_wiring wall e probe now c =
     (case e of
        Health_Tick _ _ \<Rightarrow> async_update (wall now) now (send probe c)
      | _ \<Rightarrow> c)"

record mqtt_message =
  msg_topic :: string
  msg_payload :: payload
  msg_empty :: bool
  msg_retain :: bool
  msg_timestamp :: "time option"

definition on_status_message :: "string \<Rightarrow> mqtt_message \<Rightarrow> observer_event option" where
  "on_status_message network_name msg =
     (if msg_topic msg = status_topic MQTT_TOPIC_PREFIX network_name
      then Some (Status_Message (msg_payload msg) (msg_retain msg)) else None)"

definition on_reply_message :: "string \<Rightarrow> mqtt_message \<Rightarrow> observer_event option" where
  "on_reply_message network_name msg =
     (if msg_topic msg = reply_topic MQTT_TOPIC_PREFIX network_name \<and> \<not> msg_retain msg
      then Some (Reply_Message (msg_payload msg)) else None)"

definition on_raw_unit_message :: "mqtt_message \<Rightarrow> observer_event" where
  "on_raw_unit_message msg = Raw_Unit (msg_topic msg) (msg_empty msg) (msg_timestamp msg)"

lemma send_evidence [simp]:
  "same_evidence c (send probe c)" "ob_next_due (send probe c) = ob_next_due c"
  "co_manager (send probe c) = co_manager c"
  by (simp_all add: send_def same_evidence_def split: option.splits)

text \<open>The model's listener satisfies the observer's contract, with the confirmation interval as its recheck.\<close>

interpretation co: probe_listener "on_probe_result wall stamp" "health_wiring wall"
    "\<lambda>settings. of_int (stale_confirm_seconds settings)" for wall stamp
proof
  fix o1 :: "'a coordinator_scheme" and r e probe now
  show "same_evidence o1 (on_probe_result wall stamp r now o1)" by (rule on_probe_result_evidence)
  show "ob_next_due (on_probe_result wall stamp r now o1) = ob_next_due o1
      \<or> (\<exists>d. of_int (stale_confirm_seconds (ob_settings o1)) \<le> d
           \<and> ob_next_due (on_probe_result wall stamp r now o1) = AList.update CONSUMER (now + d) (ob_next_due o1))"
    using on_probe_result_due[of wall stamp r now o1] by auto
  show "same_evidence o1 (health_wiring wall e probe now o1)"
    "ob_next_due (health_wiring wall e probe now o1) = ob_next_due o1"
    by (simp_all add: health_wiring_def split: observer_event.splits)
qed

section \<open>Histories\<close>

text \<open>
  For the proofs a coordinator carries the history of the results its listener received. Nothing the
  model does reads it.
\<close>

record traced = coordinator +
  tc_results :: "(probe_result \<times> time) list"

definition traced_listener :: "(time \<Rightarrow> time) \<Rightarrow> (time \<Rightarrow> string) \<Rightarrow> probe_result \<Rightarrow> time \<Rightarrow> traced \<Rightarrow> traced" where
  "traced_listener wall stamp r now c =
     (on_probe_result wall stamp r now c)\<lparr>tc_results := tc_results c @ [(r, now)]\<rparr>"

interpretation traced: probe_listener "traced_listener wall stamp" "health_wiring wall"
    "\<lambda>settings. of_int (stale_confirm_seconds settings)" for wall stamp
proof
  fix o1 :: traced and r e probe now
  note co.evidence_kept[of o1 wall stamp r now] co.reschedules[of wall stamp r now o1]
  then show "same_evidence o1 (traced_listener wall stamp r now o1)"
    "ob_next_due (traced_listener wall stamp r now o1) = ob_next_due o1
      \<or> (\<exists>d. of_int (stale_confirm_seconds (ob_settings o1)) \<le> d
           \<and> ob_next_due (traced_listener wall stamp r now o1) = AList.update CONSUMER (now + d) (ob_next_due o1))"
    by (auto simp: traced_listener_def same_evidence_def)
  show "same_evidence o1 (health_wiring wall e probe now o1)"
    "ob_next_due (health_wiring wall e probe now o1) = ob_next_due o1"
    by (rule co.wiring_kept)+
qed

text \<open>
  One step of the entry: a callback of the observer, the recovery task or another coroutine of the
  manager going on, an acknowledgement, or a new setup of the entry around its manager.
\<close>

inductive entry_step :: "(time \<Rightarrow> time) \<Rightarrow> (time \<Rightarrow> string) \<Rightarrow> time \<Rightarrow> traced \<Rightarrow> traced \<Rightarrow> bool"
  for wall stamp now where
  Callback: "entry_step wall stamp now c
    (callback (traced_listener wall stamp) (health_wiring wall) e now c)"
| Recovery: "rm_task (co_manager c) = Some phase \<Longrightarrow> entry_step wall stamp now c
    (manage (resume (coordinator_client ready (wall now) token now) settings host (wall now) now (stamp now)
       result phase) c)"
| Coroutine: "rm_side_tasks (co_manager c) = pre @ task # post \<Longrightarrow> entry_step wall stamp now c
    (manage (run_side_task (coordinator_client ready (wall now) token now) (stamp now) task)
       (change_manager (\<lambda>m. m\<lparr>rm_side_tasks := pre @ post\<rparr>) c))"
| Acknowledge: "entry_step wall stamp now c (change_manager acknowledge c)"
| Set_Up: "entry_step wall stamp now c
    (coordinator.extend (new_coordinator settings network_name now (co_manager c)) (traced.fields (tc_results c)))"

inductive entry_run :: "(time \<Rightarrow> time) \<Rightarrow> (time \<Rightarrow> string) \<Rightarrow> traced \<Rightarrow> time \<Rightarrow> traced \<Rightarrow> bool"
  for wall stamp c0 where
  Start: "entry_run wall stamp c0 now c0"
| Next: "entry_run wall stamp c0 now c \<Longrightarrow> now \<le> now' \<Longrightarrow> entry_step wall stamp now' c c' \<Longrightarrow>
    entry_run wall stamp c0 now' c'"

text \<open>Everything but a result's listener leaves the manager and the history alone.\<close>

definition same_entry :: "traced \<Rightarrow> traced \<Rightarrow> bool" where
  "same_entry c c' \<longleftrightarrow> co_manager c' = co_manager c \<and> tc_results c' = tc_results c \<and> ob_settings c' = ob_settings c"

lemma same_entry_updates [simp]:
  "same_entry c c" "same_entry c (c'\<lparr>ob_bridge := b\<rparr>) = same_entry c c'"
  "same_entry c (c'\<lparr>ob_probes := p\<rparr>) = same_entry c c'" "same_entry c (c'\<lparr>ob_consumer := k\<rparr>) = same_entry c c'"
  "same_entry c (c'\<lparr>ob_next_due := d\<rparr>) = same_entry c c'" "same_entry c (record_result r c') = same_entry c c'"
  by (simp_all add: same_entry_def record_result_def)

lemma async_update_trace [simp]: "tc_results (async_update w now c) = tc_results c"
  by (simp add: async_update_def update_unsupported_issue_def Let_def split: prod.splits)

lemma async_update_settings [simp]: "ob_settings (async_update w now c) = ob_settings c"
  by (simp add: async_update_def update_unsupported_issue_def Let_def split: prod.splits)

lemma health_wiring_entry [simp]: "same_entry c (health_wiring wall e probe now c') = same_entry c c'"
  by (auto simp: health_wiring_def same_entry_def send_def split: observer_event.splits option.splits)

text \<open>A callback publishes at most one result.\<close>

definition publishes :: "(time \<Rightarrow> time) \<Rightarrow> (time \<Rightarrow> string) \<Rightarrow> time \<Rightarrow> traced \<Rightarrow> traced \<Rightarrow> bool" where
  "publishes wall stamp now c c' \<longleftrightarrow> same_entry c c'
     \<or> (\<exists>r c1. same_entry c c1 \<and> same_entry (traced_listener wall stamp r now c1) c'
          \<and> ob_bridge c' = ob_bridge c1)"

lemma publishes_with_probes:
  assumes "same_entry c c1"
  shows "publishes wall stamp now c (with_probes (traced_listener wall stamp) now f c1)"
proof -
  obtain r p where fp: "f (ob_probes c1) = (r, p)" by force
  show ?thesis
  proof (cases r)
    case None
    with fp assms show ?thesis by (simp add: publishes_def with_probes_def publish_result_def)
  next
    case (Some a)
    let ?c = "record_result a (c1\<lparr>ob_probes := p\<rparr>)"
    have "with_probes (traced_listener wall stamp) now f c1 = traced_listener wall stamp a now ?c"
      using fp Some by (simp add: with_probes_def publish_result_def)
    moreover have "same_entry c ?c" using assms by simp
    moreover have "ob_bridge (traced_listener wall stamp a now ?c) = ob_bridge ?c" by simp
    ultimately show ?thesis using same_entry_updates(1) unfolding publishes_def by metis
  qed
qed

lemma publishes_updates:
  "publishes wall stamp now c c' \<Longrightarrow> same_entry c' c'' \<Longrightarrow> ob_bridge c'' = ob_bridge c' \<Longrightarrow>
     publishes wall stamp now c c''"
  unfolding publishes_def same_entry_def by metis

lemma publishes_observe: "publishes wall stamp now c (snd (observer_call (traced_listener wall stamp) e now c))"
proof (cases e)
  case (Status_Message payload retain)
  have "publishes wall stamp now c (c\<lparr>ob_bridge := b\<rparr>)" for b by (simp add: publishes_def)
  then show ?thesis
    by (auto simp: Status_Message on_status_def Let_def publishes_with_probes split: prod.splits)
next
  case (Raw_Unit topic no_payload ident)
  have "publishes wall stamp now c c" by (simp add: publishes_def)
  then show ?thesis by (simp add: Raw_Unit on_raw_unit_def publishes_with_probes)
next
  case (Processed_Unit topic ident)
  have "publishes wall stamp now c c" by (simp add: publishes_def)
  then show ?thesis by (simp add: Processed_Unit on_processed_unit_def publishes_with_probes)
next
  case (Reply_Message payload)
  show ?thesis by (simp add: Reply_Message on_health_reply_def publishes_with_probes)
next
  case (Health_Tick ready token)
  obtain res o3 where t: "tick (traced_listener wall stamp) ready token now c = (res, o3)" by force
  have "publishes wall stamp now c (with_probes (traced_listener wall stamp) now (check now) c)"
    by (simp add: publishes_with_probes)
  moreover have "same_entry o2 o3 \<and> ob_bridge o3 = ob_bridge o2" if "start_probe k token now o2 = (res, o3)" for k o2
    using that by (auto simp: start_probe_def Let_def split: prod.splits)
  ultimately have "publishes wall stamp now c o3"
    using t by (auto simp: tick_def Let_def split: if_splits option.splits intro: publishes_updates)
  with t Health_Tick show ?thesis by simp
qed

lemma publishes_callback:
  "publishes wall stamp now c (callback (traced_listener wall stamp) (health_wiring wall) e now c)"
  using publishes_observe[of wall stamp now c e]
  by (auto simp: callback_def split: prod.splits intro: publishes_updates)

section \<open>The stale streak\<close>

definition stale_result :: "probe_result \<Rightarrow> bool" where
  "stale_result r \<longleftrightarrow> res_kind r = CONSUMER \<and> res_outcome r = CONSUMER_STALE"

text \<open>The results that say nothing new about the consumer, or that it is stale.\<close>

definition not_refuting :: "probe_result \<Rightarrow> bool" where
  "not_refuting r \<longleftrightarrow> res_kind r = STATUS \<or> res_outcome r \<in> {CONSUMER_STALE, BRIDGE_BUSY}"

text \<open>The history ends with a stale result at \<open>t\<close> that nothing later refutes.\<close>

definition stale_since :: "time \<Rightarrow> (probe_result \<times> time) list \<Rightarrow> bool" where
  "stale_since t hist \<longleftrightarrow> (\<exists>xs r ys. hist = xs @ (r, t) # ys \<and> stale_result r \<and> list_all (not_refuting \<circ> fst) ys)"

definition streak_inv :: "(probe_result \<times> time) list \<Rightarrow> manager \<Rightarrow> bool" where
  "streak_inv hist m \<longleftrightarrow> (rm_stale_streak m \<noteq> 0 \<longrightarrow> pred_option (\<lambda>t. stale_since t hist) (rm_last_stale_at m))"

lemma stale_since_snoc:
  "stale_since t hist \<Longrightarrow> not_refuting r \<Longrightarrow> stale_since t (hist @ [(r, now)])"
proof -
  assume "stale_since t hist" "not_refuting r"
  then obtain xs r1 ys where "hist = xs @ (r1, t) # ys" "stale_result r1" "list_all (not_refuting \<circ> fst) ys"
    by (auto simp: stale_since_def)
  with \<open>not_refuting r\<close> have "hist @ [(r, now)] = xs @ (r1, t) # (ys @ [(r, now)])
      \<and> stale_result r1 \<and> list_all (not_refuting \<circ> fst) (ys @ [(r, now)])" by simp
  then show ?thesis unfolding stale_since_def by blast
qed

lemma stale_since_now: "stale_result r \<Longrightarrow> stale_since now (hist @ [(r, now)])"
  unfolding stale_since_def by (rule exI[of _ hist], rule exI[of _ r], rule exI[of _ "[]"]) simp

definition keeps_streak :: "manager \<Rightarrow> manager \<Rightarrow> bool" where
  "keeps_streak m m' \<longleftrightarrow> rm_stale_streak m' = 0
     \<or> (rm_stale_streak m' = rm_stale_streak m \<and> rm_last_stale_at m' = rm_last_stale_at m)"

lemma keeps_streak_refl [simp]: "keeps_streak m m"
  by (simp add: keeps_streak_def)

lemma streak_inv_keeps: "streak_inv hist m \<Longrightarrow> keeps_streak m m' \<Longrightarrow> streak_inv hist m'"
  by (auto simp: streak_inv_def keeps_streak_def)

lemma keeps_streak_ops [simp]:
  "keeps_streak m (clear_streak m')" "keeps_streak m (save m') = keeps_streak m m'"
  "keeps_streak m (call h m') = keeps_streak m m'" "keeps_streak m (spawn task m') = keeps_streak m m'"
  "keeps_streak m (latch_begin reason m') = keeps_streak m m'"
  "keeps_streak m (succeeded_begin stamp m')" "keeps_streak m (mark_healthy stamp m')"
  "keeps_streak m (acknowledge m')" "keeps_streak m (announce m') = keeps_streak m m'"
  "keeps_streak m (delete_failed_issue m') = keeps_streak m m'"
  "keeps_streak m (m'\<lparr>rm_task := t\<rparr>) = keeps_streak m m'"
  "keeps_streak m (m'\<lparr>rm_in_progress := b\<rparr>) = keeps_streak m m'"
  "keeps_streak m (m'\<lparr>rm_side_tasks := tasks\<rparr>) = keeps_streak m m'"
  "keeps_streak m (m'\<lparr>rm_last_result := x\<rparr>) = keeps_streak m m'"
  by (auto simp: keeps_streak_def clear_streak_def save_def call_def spawn_def latch_begin_def
      succeeded_begin_def mark_healthy_def acknowledge_def announce_def delete_failed_issue_def Let_def)

lemma keeps_streak_poll: "keeps_streak (fst s) (fst (poll client host w clock stamp targets d l s))"
  by (simp add: poll_def unverified_def Let_def)

lemma keeps_streak_resume:
  "keeps_streak (fst s) (fst (resume client settings host w clock stamp result phase s))"
  by (simp add: resume_def Let_def keeps_streak_poll split: outcome.splits recover_phase.splits)

lemma keeps_streak_side: "keeps_streak (fst s) (fst (run_side_task client stamp task s))"
  by (cases task) simp_all

lemma request_streak [simp]:
  "rm_stale_streak (fst (snd (request_recovery client settings w s))) = rm_stale_streak (fst s)"
  by (simp add: request_recovery_def Let_def notify_def spawn_def)

lemma co_manager_manage [simp]: "co_manager (manage f c) = fst (f (co_manager c, c))"
  by (simp add: manage_def split: prod.splits)

text \<open>What a stale result does to the manager.\<close>

lemma on_consumer_stale_cases:
  obtains (cleared) "keeps_streak (co_manager c) (co_manager (on_consumer_stale w now c))"
      "rm_in_progress (co_manager (on_consumer_stale w now c)) = rm_in_progress (co_manager c)"
  | (first) "rm_last_stale_at (co_manager (on_consumer_stale w now c)) = Some now"
      "rm_in_progress (co_manager (on_consumer_stale w now c)) = rm_in_progress (co_manager c)"
  | (second) t where "rm_stale_streak (co_manager c) \<noteq> 0" "rm_last_stale_at (co_manager c) = Some t"
      "of_int (stale_confirm_seconds (ob_settings c)) \<le> now - t" "now - t \<le> max_stale_gap (ob_settings c)"
      "rm_stale_streak (co_manager (on_consumer_stale w now c)) = 0"
      "recovery_enabled (ob_settings c)" "bridge_state_of now c = HEALTHY"
proof -
  let ?confirm = "of_int (stale_confirm_seconds (ob_settings c)) :: time"
  let ?gap = "max_stale_gap (ob_settings c)"
  let ?m = "co_manager c"
  show thesis
  proof (cases "recovery_enabled (ob_settings c) \<and> bridge_state_of now c = HEALTHY")
    case False
    then have "co_manager (on_consumer_stale w now c) = ?m
        \<or> co_manager (on_consumer_stale w now c) = clear_streak ?m"
      by (auto simp: on_consumer_stale_def Let_def)
    then show thesis using cleared by (auto simp: clear_streak_def keeps_streak_def)
  next
    case True
    obtain confirmed m' where r: "record_stale ?confirm ?gap now ?m = (confirmed, m')" by force
    show thesis
    proof (cases confirmed)
      case False
      with True r have "co_manager (on_consumer_stale w now c) = m'"
        by (simp add: on_consumer_stale_def Let_def schedule_def)
      moreover from r False have "m' = ?m \<or> rm_last_stale_at m' = Some now \<and> rm_in_progress m' = rm_in_progress ?m"
        by (auto simp: record_stale_def split: option.splits if_splits)
      ultimately show thesis using first cleared by auto
    next
      case yes: True
      from r yes obtain t where t: "rm_stale_streak ?m \<noteq> 0" "rm_last_stale_at ?m = Some t" "?confirm \<le> now - t"
        "now - t \<le> ?gap" "m' = clear_streak ?m"
        by (auto simp: record_stale_def split: option.splits if_splits)
      have "rm_stale_streak (co_manager (on_consumer_stale w now c)) = 0"
        using True r yes t(5) by (simp add: on_consumer_stale_def Let_def clear_streak_def)
      then show thesis using second t True by blast
    qed
  qed
qed

text \<open>The evidence for a reload: the result \<open>r\<close> is the second of two agreeing proofs.\<close>

definition confirmed_stale :: "traced \<Rightarrow> probe_result \<Rightarrow> time \<Rightarrow> bool" where
  "confirmed_stale c r now \<longleftrightarrow> stale_result r \<and> recovery_enabled (ob_settings c)
     \<and> bridge_state_of now c = HEALTHY
     \<and> (\<exists>t. stale_since t (tc_results c) \<and> of_int (stale_confirm_seconds (ob_settings c)) \<le> now - t
          \<and> now - t \<le> max_stale_gap (ob_settings c))"

lemma bridge_state_last_consumer [simp]:
  "bridge_state_of now (c\<lparr>co_last_consumer := x\<rparr>) = bridge_state_of now c"
  by (cases "map_of (ob_last_result c) STATUS") (simp_all add: bridge_state_of_def never_answered_def)

lemma streak_inv_zero: "rm_stale_streak m = 0 \<Longrightarrow> streak_inv hist m"
  by (simp add: streak_inv_def)

lemma streak_inv_snoc:
  assumes "streak_inv hist m" "not_refuting r" "keeps_streak m m'"
  shows "streak_inv (hist @ [(r, now)]) m'"
  using streak_inv_keeps[OF assms(1,3)] stale_since_snoc[OF _ assms(2)]
  by (cases "rm_last_stale_at m'") (auto simp: streak_inv_def)

lemma other_result:
  assumes "\<not> stale_result r"
  shows "rm_in_progress (co_manager (traced_listener wall stamp r now c)) = rm_in_progress (co_manager c)"
    and "keeps_streak (co_manager c) (co_manager (traced_listener wall stamp r now c))"
    and "\<not> not_refuting r \<Longrightarrow> rm_stale_streak (co_manager (traced_listener wall stamp r now c)) = 0"
proof -
  let ?c' = "traced_listener wall stamp r now c"
  show "rm_in_progress (co_manager ?c') = rm_in_progress (co_manager c)"
    using assms by (auto simp: traced_listener_def on_probe_result_def stale_result_def Let_def
        mark_healthy_def clear_streak_def spawn_def)
  show "keeps_streak (co_manager c) (co_manager ?c')"
    using assms by (auto simp: traced_listener_def on_probe_result_def stale_result_def Let_def)
  assume "\<not> not_refuting r"
  then have "res_kind r = CONSUMER" "res_outcome r \<noteq> BRIDGE_BUSY" "res_outcome r \<noteq> CONSUMER_STALE"
    by (auto simp: not_refuting_def) (metis probe_kind.exhaust)
  then show "rm_stale_streak (co_manager ?c') = 0"
    by (auto simp: traced_listener_def on_probe_result_def Let_def mark_healthy_def clear_streak_def
        spawn_def save_def call_def)
qed

lemma streak_result:
  assumes "streak_inv (tc_results c) (co_manager c)"
  shows "streak_inv (tc_results c @ [(r, now)]) (co_manager (traced_listener wall stamp r now c))
    \<and> (rm_in_progress (co_manager (traced_listener wall stamp r now c)) \<longrightarrow>
         rm_in_progress (co_manager c) \<or> confirmed_stale c r now)"
proof (cases "stale_result r")
  case True
  let ?c = "c\<lparr>co_last_consumer := Some r\<rparr>"
  have m: "co_manager (traced_listener wall stamp r now c) = co_manager (on_consumer_stale (wall now) now ?c)"
    using True by (simp add: traced_listener_def on_probe_result_def stale_result_def Let_def)
  have nr: "not_refuting r" using True by (simp add: not_refuting_def stale_result_def)
  consider (cleared) "keeps_streak (co_manager c) (co_manager (on_consumer_stale (wall now) now ?c))"
      "rm_in_progress (co_manager (on_consumer_stale (wall now) now ?c)) = rm_in_progress (co_manager c)"
    | (first) "rm_last_stale_at (co_manager (on_consumer_stale (wall now) now ?c)) = Some now"
      "rm_in_progress (co_manager (on_consumer_stale (wall now) now ?c)) = rm_in_progress (co_manager c)"
    | (second) "confirmed_stale c r now" "rm_stale_streak (co_manager (on_consumer_stale (wall now) now ?c)) = 0"
    using assms True
    by (cases rule: on_consumer_stale_cases[of ?c "wall now" now])
      (auto simp: streak_inv_def confirmed_stale_def)
  then show ?thesis
  proof cases
    case cleared
    then show ?thesis unfolding m using streak_inv_snoc[OF assms nr] by simp
  next
    case first
    then show ?thesis unfolding m using stale_since_now[OF True] by (simp add: streak_inv_def)
  next
    case second
    then show ?thesis unfolding m by (simp add: streak_inv_zero)
  qed
next
  case False
  note o = other_result[OF False, where wall = wall and stamp = stamp and now = now and c = c]
  show ?thesis
  proof (cases "not_refuting r")
    case True
    from streak_inv_snoc[OF assms True o(2)] o(1) show ?thesis by simp
  next
    case refuting: False
    from streak_inv_zero[OF o(3)[OF refuting]] o(1) show ?thesis by simp
  qed
qed

section \<open>Properties of the entry\<close>

lemma same_entry_streak:
  "same_entry c c' \<Longrightarrow> streak_inv (tc_results c) (co_manager c) \<Longrightarrow> streak_inv (tc_results c') (co_manager c')"
  by (simp add: same_entry_def)

lemma client_trace:
  "tc_results (cl_notify (coordinator_client ready w token now) m c) = tc_results c"
  "tc_results (cl_request_probe (coordinator_client ready w token now) t c) = tc_results c"
  by (auto simp: coordinator_client_def request_probe_def start_probe_def send_def Let_def
      split: prod.splits option.splits)

text \<open>The manager's coroutines act on the coordinator only through the client.\<close>

definition same_trace :: "traced \<Rightarrow> traced \<Rightarrow> bool" where
  "same_trace c c' \<longleftrightarrow> tc_results c' = tc_results c"

lemma notify_trace:
  "tc_results (snd (notify (coordinator_client ready w token now) s)) = tc_results (snd s)"
  by (simp add: notify_def client_trace)

lemma resume_trace:
  "tc_results (snd (resume (coordinator_client ready w token now) settings host wall clock stamp result phase s))
     = tc_results (snd s)"
  by (simp add: resume_def Let_def poll_def finish_recover_def latch_end_def notify_trace client_trace
      split: outcome.splits recover_phase.splits)

lemma side_trace:
  "tc_results (snd (run_side_task (coordinator_client ready w token now) stamp task s)) = tc_results (snd s)"
  by (cases task) (simp_all add: latch_end_def notify_trace)

lemma manage_trace [simp]:
  "tc_results (manage f c) = tc_results (snd (f (co_manager c, c)))"
  by (simp add: manage_def split: prod.splits)

lemma resume_in_progress:
  "rm_in_progress (fst (resume client settings host w clock stamp result phase s)) \<Longrightarrow> rm_in_progress (fst s)"
  by (auto simp: resume_def Let_def poll_def unverified_def clear_streak_def
      split: outcome.splits recover_phase.splits if_splits)

lemma side_in_progress [simp]:
  "rm_in_progress (fst (run_side_task client stamp task s)) = rm_in_progress (fst s)"
  using keeps_side_task[of s client stamp task] by (simp add: keeps_def)

lemma new_coordinator_fields [simp]:
  "co_manager (coordinator.extend (new_coordinator settings network_name now m) x) = m"
  "tc_results (coordinator.extend (new_coordinator settings network_name now m) (traced.fields h)) = h"
  "ob_settings (new_coordinator settings network_name now m) = settings"
  by (simp_all add: new_coordinator_def observer.defs coordinator.defs traced.defs new_observer_def)

lemma entry_step_streak:
  assumes "entry_step wall stamp now c c'" "streak_inv (tc_results c) (co_manager c)"
  shows "streak_inv (tc_results c') (co_manager c')
    \<and> (rm_in_progress (co_manager c') \<longrightarrow> rm_in_progress (co_manager c)
       \<or> (\<exists>r c1. confirmed_stale c1 r now \<and> same_entry c c1 \<and> tc_results c' = tc_results c @ [(r, now)]
            \<and> ob_bridge c' = ob_bridge c1))"
  using assms(1)
proof (cases rule: entry_step.cases)
  case (Callback e)
  from publishes_callback[of wall stamp now c e] Callback
  consider "same_entry c c'" | r c1 where "same_entry c c1" "same_entry (traced_listener wall stamp r now c1) c'"
    "ob_bridge c' = ob_bridge c1" by (auto simp: publishes_def)
  then show ?thesis
  proof cases
    case 1
    then show ?thesis using assms(2) by (simp add: same_entry_def)
  next
    case (2 r c1)
    then have inv: "streak_inv (tc_results c1) (co_manager c1)" using assms(2) by (simp add: same_entry_def)
    have tr: "tc_results (traced_listener wall stamp r now c1) = tc_results c1 @ [(r, now)]"
      by (simp add: traced_listener_def)
    from streak_result[OF inv, of r now wall stamp] 2 tr show ?thesis by (auto simp: same_entry_def)
  qed
next
  case (Recovery phase ready token settings host result)
  let ?c = "coordinator_client ready (wall now) token now"
  let ?s = "resume ?c settings host (wall now) now (stamp now) result phase (co_manager c, c)"
  have "keeps_streak (co_manager c) (fst ?s)" "tc_results (snd ?s) = tc_results c"
    using keeps_streak_resume[of "(co_manager c, c)"] resume_trace[where s = "(co_manager c, c)"] by simp_all
  moreover have "rm_in_progress (fst ?s) \<Longrightarrow> rm_in_progress (co_manager c)"
    using resume_in_progress[where s = "(co_manager c, c)"] by simp
  ultimately show ?thesis using Recovery assms(2) by (auto intro: streak_inv_keeps)
next
  case (Coroutine pre task post ready token)
  let ?c = "coordinator_client ready (wall now) token now"
  let ?m = "(co_manager c)\<lparr>rm_side_tasks := pre @ post\<rparr>"
  let ?s = "run_side_task ?c (stamp now) task (?m, c\<lparr>co_manager := ?m\<rparr>)"
  have "keeps_streak ?m (fst ?s)" "tc_results (snd ?s) = tc_results c"
    using keeps_streak_side[of "(?m, c\<lparr>co_manager := ?m\<rparr>)"] side_trace[where s = "(?m, c\<lparr>co_manager := ?m\<rparr>)"]
    by simp_all
  moreover have "streak_inv (tc_results c) ?m" using assms(2) by (simp add: streak_inv_def)
  ultimately show ?thesis using Coroutine by (auto intro: streak_inv_keeps)
next
  case Acknowledge
  have "rm_in_progress (acknowledge m) = rm_in_progress m" for m
    using keeps_ops(9)[of m] by (simp add: keeps_def)
  then show ?thesis using Acknowledge streak_inv_keeps[OF assms(2), of "acknowledge (co_manager c)"] by simp
next
  case (Set_Up settings network_name)
  then show ?thesis using assms(2) by simp
qed

lemma entry_run_streak:
  assumes "entry_run wall stamp c0 now c" "streak_inv (tc_results c0) (co_manager c0)"
  shows "streak_inv (tc_results c) (co_manager c)"
  using assms by (induction rule: entry_run.induct) (auto dest: entry_step_streak)

text \<open>A state one tick before the second stale proof, for the witnesses.\<close>

definition sample_stale :: "time \<Rightarrow> probe_result" where
  "sample_stale t = \<lparr>res_kind = CONSUMER, res_outcome = CONSUMER_STALE, res_finished_at = t,
     res_expected_units = Some 1, res_raw_units = 1, res_processed_units = 0\<rparr>"

definition sample_bridge :: "time \<Rightarrow> tracker" where
  "sample_bridge t = (new_tracker default_settings 0)\<lparr>tr_status := Some (sample_status (CHR ''a'') 1 PHASE_READY),
     tr_received_at := Some t, tr_max_sequence := Some 1\<rparr>"

definition sample_probes :: "time \<Rightarrow> probe_tracker" where
  "sample_probes t = (new_probe_tracker default_settings)\<lparr>pt_pending := Some
     ((sample_pending CONSUMER)\<lparr>pp_deadline_at := t, pp_reply := Some sample_reply,
        pp_raw_messages := {(''casambi/net/events/7'', Stamp 5)}\<rparr>)\<rparr>"

definition sample_entry :: "health_settings \<Rightarrow> traced" where
  "sample_entry settings = (coordinator.extend (new_coordinator settings ''net'' 0
       ((new_manager ''e1'' None)\<lparr>rm_stale_streak := 1, rm_last_stale_at := Some 25\<rparr>))
     (traced.fields [(sample_stale 25, 25)]))\<lparr>ob_bridge := sample_bridge 100, ob_probes := sample_probes 130\<rparr>"

lemmas sample_defs = sample_entry_def sample_probes_def sample_bridge_def sample_pending_def
  sample_reply_def sample_stale_def new_coordinator_def observer.defs coordinator.defs traced.defs
  new_observer_def new_probe_tracker_def new_tracker_def new_manager_def

lemma default_settings_fields [simp]:
  "stale_confirm_seconds default_settings = 90" "probe_deadline_seconds default_settings = 20"
  "consumer_probe_interval_seconds default_settings = 900" "stale_seconds default_settings = 120"
  "startup_grace_seconds default_settings = 90" "recovery_enabled default_settings = True"
  "probe_interval_seconds default_settings = 300" "recovery_cooldown_seconds default_settings = 600"
  "recovery_verify_seconds default_settings = 180"
  by (simp_all add: default_settings_def from_options_def option_value_def SETTING_RANGES_def)

lemma sample_check: "check 140 (sample_probes 130) = (Some (sample_stale 140), (sample_probes 130)\<lparr>pt_pending := None\<rparr>)"
  by (simp add: check_def sample_probes_def sample_pending_def sample_reply_def sample_stale_def
      units_or_0_def raw_topics_def processed_topics_def any_handled_def finish_def)

lemma sample_second_proof:
  "rm_in_progress (co_manager (callback (traced_listener (\<lambda>t. t) (\<lambda>t. [])) (health_wiring (\<lambda>t. t))
     (Health_Tick False ''ha-2'') 140 (sample_entry default_settings)))"
proof -
  let ?c = "sample_entry default_settings"
  let ?c1 = "record_result (sample_stale 140) (?c\<lparr>ob_probes := (sample_probes 130)\<lparr>pt_pending := None\<rparr>\<rparr>)"
  let ?L = "traced_listener (\<lambda>t. t) (\<lambda>t. [])"
  have p: "ob_probes ?c = sample_probes 130" by (simp add: sample_entry_def)
  have w: "with_probes ?L 140 (check 140) ?c = ?L (sample_stale 140) 140 ?c1"
    by (simp add: with_probes_def p sample_check publish_result_def)
  have b: "bridge_state_of 140 ?c1 = HEALTHY"
    by (simp add: bridge_state_of_def record_result_def sample_entry_def sample_bridge_def evaluate_def
        Let_def new_tracker_def)
  have m: "co_manager ?c1 = (new_manager ''e1'' None)\<lparr>rm_stale_streak := 1, rm_last_stale_at := Some 25\<rparr>"
    "ob_settings ?c1 = default_settings"
    by (simp_all add: record_result_def sample_defs)
  have "rm_in_progress (co_manager (?L (sample_stale 140) 140 ?c1))"
    using b m by (simp add: traced_listener_def on_probe_result_def sample_stale_def on_consumer_stale_def
        Let_def record_stale_def max_stale_gap_def request_recovery_def clear_streak_def
        recent_reloads_def new_manager_def notify_def coordinator_client_def)
  then have i: "rm_in_progress (co_manager (with_probes ?L 140 (check 140) ?c))" unfolding w .
  obtain res o3 where t: "tick ?L False ''ha-2'' 140 ?c = (res, o3)" by force
  then have "co_manager o3 = co_manager (with_probes ?L 140 (check 140) ?c)"
    by (auto simp: tick_def Let_def start_probe_def split: if_splits option.splits prod.splits)
  with i t show ?thesis by (auto simp: callback_def health_wiring_def)
qed

text \<open>
  C1: no reload without two agreeing proofs. Whatever happens in between (status messages,
  replies, unit messages, ticks, the manager's coroutines, acknowledgements, new setups of the
  entry), a recovery starts only at a result that is a stale verdict on the consumer while the
  bridge is healthy and automatic recovery is on, after an earlier stale verdict at least the
  confirmation interval and at most the maximal gap before it, with no result in between that
  refutes it. The initial manager has no streak, or one its history explains.
\<close>

theorem reload_needs_two_proofs:
  assumes "entry_run wall stamp c0 t c" "streak_inv (tc_results c0) (co_manager c0)"
    and "entry_step wall stamp now c c'"
    and "\<not> rm_in_progress (co_manager c)" "rm_in_progress (co_manager c')"
  shows "\<exists>xs r1 t1 ys r2. tc_results c' = xs @ (r1, t1) # ys @ [(r2, now)]
    \<and> stale_result r1 \<and> stale_result r2
    \<and> of_int (stale_confirm_seconds (ob_settings c)) \<le> now - t1
    \<and> now - t1 \<le> max_stale_gap (ob_settings c)
    \<and> (\<forall>(r, t) \<in> set ys. res_kind r = STATUS \<or> res_outcome r \<in> {CONSUMER_STALE, BRIDGE_BUSY})
    \<and> recovery_enabled (ob_settings c) \<and> evaluate now (ob_bridge c') = HEALTHY"
proof -
  from entry_step_streak[OF assms(3) entry_run_streak[OF assms(1,2)]] assms(4,5)
  obtain r c1 where r: "confirmed_stale c1 r now" "same_entry c c1" "tc_results c' = tc_results c @ [(r, now)]"
    "ob_bridge c' = ob_bridge c1" by blast
  from r(1,2) obtain xs r1 t1 ys where h: "tc_results c = xs @ (r1, t1) # ys" "stale_result r1"
    "list_all (not_refuting \<circ> fst) ys" "of_int (stale_confirm_seconds (ob_settings c)) \<le> now - t1"
    "now - t1 \<le> max_stale_gap (ob_settings c)" "recovery_enabled (ob_settings c)" "stale_result r"
    "bridge_state_of now c1 = HEALTHY"
    by (auto simp: confirmed_stale_def stale_since_def same_entry_def)
  from h(8) have "evaluate now (ob_bridge c') = HEALTHY"
    using r(4) by (simp add: bridge_state_of_def Let_def split: if_splits)
  moreover have "tc_results c' = xs @ (r1, t1) # ys @ [(r, now)]" using r(3) h(1) by simp
  moreover have "\<forall>(r, t) \<in> set ys. res_kind r = STATUS \<or> res_outcome r \<in> {CONSUMER_STALE, BRIDGE_BUSY}"
    using h(3) by (auto simp: list_all_iff not_refuting_def)
  ultimately show ?thesis using h by blast
qed

theorem reload_needs_two_proofs_witness:
  "\<exists>c' :: traced. rm_in_progress (co_manager c') \<and> \<not> rm_in_progress (co_manager (sample_entry default_settings))
     \<and> (\<exists>xs r1 t1 ys r2. tc_results c' = xs @ (r1, t1) # ys @ [(r2, 140)] \<and> stale_result r1 \<and> stale_result r2)"
proof -
  let ?c = "sample_entry default_settings"
  have s: "streak_inv (tc_results ?c) (co_manager ?c)"
    using stale_since_now[of "sample_stale 25" 25 "[]"]
    by (simp add: streak_inv_def sample_defs stale_result_def)
  have np: "\<not> rm_in_progress (co_manager ?c)" by (simp add: sample_defs)
  let ?c' = "callback (traced_listener (\<lambda>t. t) (\<lambda>t. [])) (health_wiring (\<lambda>t. t)) (Health_Tick False ''ha-2'') 140 ?c"
  from reload_needs_two_proofs[OF entry_run.Start s entry_step.Callback np sample_second_proof]
  obtain xs r1 t1 ys r2 where "tc_results ?c' = xs @ (r1, t1) # ys @ [(r2, 140)]"
    "stale_result r1" "stale_result r2" by (elim exE conjE)
  then have "\<exists>xs r1 t1 ys r2. tc_results ?c' = xs @ (r1, t1) # ys @ [(r2, 140)] \<and> stale_result r1 \<and> stale_result r2"
    by blast
  with np sample_second_proof show ?thesis by (intro exI[of _ ?c']) simp
qed

text \<open>The commands a coordinator hands to MQTT.\<close>

definition health_command :: "string \<Rightarrow> string \<times> json \<Rightarrow> bool" where
  "health_command network_name cmd \<longleftrightarrow> fst cmd = command_topic network_name
     \<and> (\<exists>rid. snd cmd = get_status_command rid \<or> snd cmd = snapshot_command rid)"

abbreviation "entry_callbacks wall stamp \<equiv> health_run (on_probe_result wall stamp) (health_wiring wall)"

lemma async_update_commands [simp]:
  "co_sent (async_update w now c) = co_sent c" "co_network_name (async_update w now c) = co_network_name c"
  by (simp_all add: async_update_def update_unsupported_issue_def Let_def split: prod.splits)

lemma request_commands:
  assumes "snd (request_recovery (coordinator_client ready wall token now) settings w (co_manager c, c)) = (m', c')"
  shows "co_sent c' = co_sent c \<and> co_network_name c' = co_network_name c"
  using request_client[OF assms] by auto

lemma listener_commands:
  "co_sent (on_probe_result wall stamp r now c) = co_sent c"
  "co_network_name (on_probe_result wall stamp r now c) = co_network_name c"
proof -
  have "co_sent (on_consumer_stale w now c) = co_sent c
      \<and> co_network_name (on_consumer_stale w now c) = co_network_name c" for w and c :: "'a coordinator_scheme"
    using request_commands[of False w "[]" now "ob_settings c" w
        "c\<lparr>co_manager := snd (record_stale (of_int (stale_confirm_seconds (ob_settings c)))
            (max_stale_gap (ob_settings c)) now (co_manager c))\<rparr>"]
    by (auto simp: on_consumer_stale_def Let_def schedule_def manage_def split: prod.splits)
  then show "co_sent (on_probe_result wall stamp r now c) = co_sent c"
    "co_network_name (on_probe_result wall stamp r now c) = co_network_name c"
    by (auto simp: on_probe_result_def Let_def)
qed

lemma publish_commands [simp]:
  "co_sent (publish_result (on_probe_result wall stamp) now res c) = co_sent c"
  "co_network_name (publish_result (on_probe_result wall stamp) now res c) = co_network_name c"
  by (simp_all add: publish_result_def listener_commands record_result_def split: option.splits)

lemma observe_commands:
  "co_sent (snd (observer_call (on_probe_result wall stamp) e now c)) = co_sent c
   \<and> co_network_name (snd (observer_call (on_probe_result wall stamp) e now c)) = co_network_name c"
proof -
  have w: "co_sent (with_probes (on_probe_result wall stamp) now f c) = co_sent c"
    "co_network_name (with_probes (on_probe_result wall stamp) now f c) = co_network_name c"
    for f and c :: "'a coordinator_scheme"
    by (simp_all add: with_probes_def split: prod.splits)
  have s: "co_sent (snd (start_probe k t now c)) = co_sent c
      \<and> co_network_name (snd (start_probe k t now c)) = co_network_name c" for k t and c :: "'a coordinator_scheme"
    by (auto simp: start_probe_def Let_def split: prod.splits)
  show ?thesis
    by (cases e) (auto simp: on_status_def on_health_reply_def on_raw_unit_def on_processed_unit_def
        tick_def Let_def w s split: prod.splits option.splits)
qed

lemma callback_commands:
  assumes "list_all (health_command (co_network_name c)) (co_sent c)"
  shows "list_all (health_command (co_network_name c)) (co_sent (callback (on_probe_result wall stamp) (health_wiring wall) e now c))
    \<and> co_network_name (callback (on_probe_result wall stamp) (health_wiring wall) e now c) = co_network_name c"
proof -
  obtain p c' where o: "observer_call (on_probe_result wall stamp) e now c = (p, c')" by force
  with observe_commands[of wall stamp e now c] assms show ?thesis
    by (auto simp: callback_def health_wiring_def send_def health_command_def split: observer_event.splits option.splits)
qed

lemma run_commands:
  "list_all (health_command (co_network_name c)) (co_sent c) \<Longrightarrow>
   list_all (health_command (co_network_name c)) (co_sent (entry_callbacks wall stamp es c))"
proof (induction es arbitrary: c)
  case (Cons x es)
  obtain e now where x: "x = (e, now)" by force
  let ?c = "callback (on_probe_result wall stamp) (health_wiring wall) e now c"
  from callback_commands[OF Cons.prems, of wall stamp e now] Cons.IH[of ?c] show ?case
    by (simp add: x)
qed simp

lemma new_coordinator_simps [simp]:
  "co_sent (new_coordinator settings network_name now m) = []"
  "co_network_name (new_coordinator settings network_name now m) = network_name"
  "ob_bridge (new_coordinator settings network_name now m) = new_tracker settings now"
  "both_kinds (new_coordinator settings network_name now m)"
  by (simp_all add: new_coordinator_def observer.defs coordinator.defs new_observer_def both_kinds_def)

definition sample_callbacks :: "(observer_event \<times> time) list" where
  "sample_callbacks = [(Health_Tick True ''ha-1'', 95), (Health_Tick True ''ha-2'', 100), (Health_Tick True ''ha-3'', 116)]"

text \<open>
  The observation is non-actuating and bounded. Whatever an entry receives, the only messages it
  hands to MQTT are \<open>GET_STATUS\<close> and \<open>PUBLISH_ENTITIES\<close> commands on its own command topic, and with any
  stored options two status probes that ticks start are at least five minutes and two consumer
  probes at least 90 seconds apart.
\<close>

theorem probes_only_and_spaced:
  assumes "chronological es"
  shows "(\<forall>cmd \<in> set (co_sent (entry_callbacks wall stamp es (new_coordinator (from_options options) network_name t0 m))).
        fst cmd = command_topic network_name
        \<and> (\<exists>rid. snd cmd = get_status_command rid \<or> snd cmd = snapshot_command rid))
    \<and> spaced 300 (filter (\<lambda>e. fst e = STATUS)
        (sent (on_probe_result wall stamp) (health_wiring wall) es (new_coordinator (from_options options) network_name t0 m)))
    \<and> spaced 90 (filter (\<lambda>e. fst e = CONSUMER)
        (sent (on_probe_result wall stamp) (health_wiring wall) es (new_coordinator (from_options options) network_name t0 m)))"
proof -
  let ?c = "new_coordinator (from_options options) network_name t0 m"
  from from_options_in_range[of options] have r: "300 \<le> probe_interval_seconds (from_options options)"
    "300 \<le> consumer_probe_interval_seconds (from_options options)"
    "90 \<le> stale_confirm_seconds (from_options options)"
    by (auto simp: settings_in_range_def)
  have "spaced w xs" if "spaced v xs" "w \<le> v" for v w and xs :: "(probe_kind \<times> time) list"
    using that unfolding spaced_def by (elim sorted_wrt_mono_rel[rotated]) auto
  moreover have "300 \<le> co.gap (ob_settings ?c) STATUS" "90 \<le> co.gap (ob_settings ?c) CONSUMER"
    using r by (auto simp: co.gap_def probe_interval_def)
  ultimately have "spaced 300 (filter (\<lambda>e. fst e = STATUS) (sent (on_probe_result wall stamp) (health_wiring wall) es ?c))"
    "spaced 90 (filter (\<lambda>e. fst e = CONSUMER) (sent (on_probe_result wall stamp) (health_wiring wall) es ?c))"
    using co.sent_spaced[OF new_coordinator_simps(4) assms] by blast+
  with run_commands[of ?c wall stamp es] show ?thesis
    by (auto simp: list_all_iff health_command_def)
qed

theorem probes_only_and_spaced_witness:
  "chronological sample_callbacks \<and>
   spaced 300 (filter (\<lambda>e. fst e = STATUS) (sent (on_probe_result (\<lambda>t. t) (\<lambda>t. [])) (health_wiring (\<lambda>t. t))
     sample_callbacks (new_coordinator (from_options []) ''net'' 0 (new_manager ''e1'' None))))"
proof -
  have "chronological sample_callbacks" by (simp add: sample_callbacks_def)
  with probes_only_and_spaced[OF this] show ?thesis by blast
qed

text \<open>
  C37: no probe is forgotten. At a tick with no probe pending after the expiry check, a due status
  probe makes the observer send one, whatever else is due, and a consumer probe goes out only while
  the bridge is healthy; so the bridge is always probed again.
\<close>

theorem due_status_probe_is_sent:
  assumes "map_of (ob_next_due c) STATUS = Some d" "d \<le> now" "map fst (ob_next_due c) = [STATUS, CONSUMER]"
    and "case pt_pending (ob_probes c) of None \<Rightarrow> True | Some p \<Rightarrow> pp_deadline_at p < now"
  shows "\<exists>p. fst (tick (on_probe_result wall stamp) ready token now c) = Some p \<and> pp_sent_at p = now
    \<and> (pp_kind p = CONSUMER \<longrightarrow> evaluate now (ob_bridge c) = HEALTHY)"
proof -
  have "pt_pending (snd (check now (ob_probes c))) = None"
    using assms(4) by (auto simp: check_def split: option.splits)
  with co.tick_sends[OF _ assms(1,2)] assms(3) show ?thesis by (simp add: both_kinds_def)
qed

theorem due_status_probe_is_sent_witness:
  "\<exists>p. fst (tick (on_probe_result (\<lambda>t. t) (\<lambda>t. [])) True ''ha-1'' 95
      (new_coordinator default_settings ''net'' 0 (new_manager ''e1'' None))) = Some p \<and> pp_sent_at p = 95"
  using due_status_probe_is_sent[of "new_coordinator default_settings ''net'' 0 (new_manager ''e1'' None)" 90 95
      "\<lambda>t. t" "\<lambda>t. []" True "''ha-1''"]
  by (auto simp: new_coordinator_def observer.defs coordinator.defs new_observer_def new_probe_tracker_def)

text \<open>
  The diagnostics of the observer disclose nothing the peers chose: after any run of callbacks every
  string in them, key or value, is a word of a fixed vocabulary (phases, error categories, link
  states, outcomes, field names), never a topic, id or payload.
\<close>

theorem diagnostics_private:
  "set (json_strings (diagnostics now (entry_callbacks wall stamp es (new_coordinator settings network_name t0 m))))
     \<subseteq> set VOCABULARY"
proof (rule diagnostics_words)
  have "tracker_inv (ob_bridge (entry_callbacks wall stamp es (new_coordinator settings network_name t0 m)))"
    by (rule co.run_tracker_inv) (simp add: tracker_inv_new)
  then show "pred_option status_ok (tr_status (ob_bridge (entry_callbacks wall stamp es
      (new_coordinator settings network_name t0 m))))"
    by (auto simp: tracker_inv_def option.pred_set)
qed

end
