(* ===== verification/Supervisor_State.thy ===== *)
theory Supervisor_State
  imports Protocol
begin

text \<open>
  \<^verbatim>\<open>scripts/bridge_recovery.py\<close>, the root-owned supervisor: its settings, the untrusted health
  record, the unit's state, stamps and windows, and the root-owned state file with its
  parser.
\<close>

section \<open>Settings\<close>

abbreviation "BLUETOOTH_UNIT \<equiv> ''bluetooth.service''"
abbreviation "DEFAULT_BRIDGE_UNIT \<equiv> ''casambi-mqtt.service''"
abbreviation "DEFAULT_HEALTH_RECORD \<equiv> ''/run/casambi-mqtt/health.json''"
abbreviation "DEFAULT_STATE_DIR \<equiv> ''/var/lib/casambi-mqtt-recovery''"
abbreviation "MAX_RECORD_BYTES \<equiv> (4096 :: nat)"
abbreviation "MAX_SEEN_INSTANCES \<equiv> (32 :: nat)"
abbreviation "EXIT_BLE_STARTUP_FAILED \<equiv> (76 :: int)"
abbreviation "EXIT_CONFIGURATION \<equiv> (78 :: int)"
abbreviation "EXIT_STARTUP_FAILED \<equiv> (79 :: int)"
abbreviation "MAX_STARTUP_FAILURE_STREAK \<equiv> (6 :: int)"
abbreviation "STUCK_SECONDS \<equiv> (600 :: time)"
abbreviation "PLAIN_RESTART_WINDOW_SECONDS \<equiv> (1800 :: time)"
abbreviation "MAX_PLAIN_RESTARTS_PER_WINDOW \<equiv> (1 :: nat)"
abbreviation "MAX_PLAIN_RESTART_STREAK \<equiv> (3 :: int)"
abbreviation "MAX_EXIT_LOG \<equiv> (64 :: nat)"

definition EXIT_CODES :: "string list" where
  "EXIT_CODES = [''exited'', ''killed'', ''dumped'']"

definition RECOVERY_RANGES :: "(string \<times> int \<times> int \<times> int) list" where
  "RECOVERY_RANGES =
    [(''RECOVERY_FAILURES_TO_RESET'', 2, 2, 10),
     (''RECOVERY_FAILURE_WINDOW_SECONDS'', 7200, 1800, 86400),
     (''RECOVERY_MAX_RESETS_SHORT'', 1, 1, 5),
     (''RECOVERY_SHORT_WINDOW_SECONDS'', 600, 300, 86400),
     (''RECOVERY_MAX_RESETS_LONG'', 2, 1, 10),
     (''RECOVERY_LONG_WINDOW_SECONDS'', 1800, 600, 604800),
     (''RECOVERY_STOP_TIMEOUT_SECONDS'', 60, 5, 600),
     (''RECOVERY_VERIFY_SECONDS'', 180, 30, 1800),
     (''RECOVERY_HEALTHY_RESET_SECONDS'', 3600, 600, 604800)]"

record settings =
  bridge_unit :: string
  health_record :: string
  state_dir :: string
  failures_to_reset :: int
  failure_window :: int
  max_resets_short :: int
  short_window :: int
  max_resets_long :: int
  long_window :: int
  stop_timeout :: int
  verify_seconds :: int
  healthy_reset_seconds :: int
  poll_interval :: time

text \<open>\<^verbatim>\<open>int(s)\<close> for a string: surrounding whitespace, a sign, and digits with single underscores between them.\<close>

definition is_digit :: "char \<Rightarrow> bool" where
  "is_digit c = in_range (CHR ''0'') (CHR ''9'') c"

definition is_space :: "char \<Rightarrow> bool" where
  "is_space c \<longleftrightarrow> (of_char c :: nat) \<in> {9, 10, 11, 12, 13, 28, 29, 30, 31, 32}"

definition strip :: "string \<Rightarrow> string" where
  "strip s = rev (dropWhile is_space (rev (dropWhile is_space s)))"

definition digit_value :: "char \<Rightarrow> int" where
  "digit_value c = int (of_char c) - 48"

fun py_digits :: "int \<Rightarrow> string \<Rightarrow> int option" where
  "py_digits acc [] = Some acc"
| "py_digits acc [c] = (if is_digit c then Some (10 * acc + digit_value c) else None)"
| "py_digits acc (c # d # s) =
     (if is_digit c then py_digits (10 * acc + digit_value c) (d # s)
      else if c = CHR ''_'' \<and> is_digit d then py_digits acc (d # s) else None)"

definition py_nat :: "string \<Rightarrow> int option" where
  "py_nat s = (case s of [] \<Rightarrow> None | c # _ \<Rightarrow> if is_digit c then py_digits 0 s else None)"

definition py_int :: "string \<Rightarrow> int option" where
  "py_int s = (case strip s of
     [] \<Rightarrow> None
   | c # t \<Rightarrow> if c = CHR ''-'' then map_option uminus (py_nat t)
              else if c = CHR ''+'' then py_nat t else py_nat (c # t))"

text \<open>\<^verbatim>\<open>UNIT_NAME\<close>: an alphanumeric, at most 200 more characters, then the literal suffix.\<close>

definition alphanumeric :: "char \<Rightarrow> bool" where
  "alphanumeric c \<longleftrightarrow> in_range (CHR ''A'') (CHR ''Z'') c \<or> in_range (CHR ''a'') (CHR ''z'') c \<or> is_digit c"

definition unit_name_ok :: "string \<Rightarrow> bool" where
  "unit_name_ok s =
     (let suffix = ''.service''; n = length s - length suffix in
      length suffix < length s \<and> drop n s = suffix \<and> n \<le> 201 \<and> alphanumeric (hd s)
      \<and> list_all (\<lambda>c. alphanumeric c \<or> c \<in> set ''@._-'') (take n s))"

fun is_absolute :: "string \<Rightarrow> bool" where
  "is_absolute [] = False"
| "is_absolute (c # s) = (c = CHR ''/'')"

definition env_get :: "(string \<times> string) list \<Rightarrow> string \<Rightarrow> string \<Rightarrow> string" where
  "env_get env key dflt = (case map_of env key of None \<Rightarrow> dflt | Some v \<Rightarrow> v)"

text \<open>One pass of the loop over the ranges: None is the \<^verbatim>\<open>SettingsError\<close>.\<close>

definition ranged :: "(string \<times> string) list \<Rightarrow> string \<Rightarrow> int option" where
  "ranged env key =
     (case map_of RECOVERY_RANGES key of
        None \<Rightarrow> None
      | Some (dflt, minimum, maximum) \<Rightarrow>
          let value = (case map_of env key of
                         None \<Rightarrow> dflt
                       | Some raw \<Rightarrow> (case py_int raw of None \<Rightarrow> minimum - 1 | Some n \<Rightarrow> n))
          in if minimum \<le> value \<and> value \<le> maximum then Some value else None)"

definition from_env :: "(string \<times> string) list \<Rightarrow> settings option" where
  "from_env env =
     (let unit = env_get env ''RECOVERY_BRIDGE_UNIT'' DEFAULT_BRIDGE_UNIT;
          rec_path = env_get env ''RECOVERY_HEALTH_RECORD'' DEFAULT_HEALTH_RECORD;
          dir_path = env_get env ''RECOVERY_STATE_DIR'' DEFAULT_STATE_DIR
      in if \<not> unit_name_ok unit \<or> unit \<in> {BLUETOOTH_UNIT, ''dbus.service''} then None
         else if \<not> is_absolute rec_path \<or> \<not> is_absolute dir_path then None
         else (case (ranged env ''RECOVERY_FAILURES_TO_RESET'', ranged env ''RECOVERY_FAILURE_WINDOW_SECONDS'',
                     ranged env ''RECOVERY_MAX_RESETS_SHORT'', ranged env ''RECOVERY_SHORT_WINDOW_SECONDS'',
                     ranged env ''RECOVERY_MAX_RESETS_LONG'', ranged env ''RECOVERY_LONG_WINDOW_SECONDS'',
                     ranged env ''RECOVERY_STOP_TIMEOUT_SECONDS'', ranged env ''RECOVERY_VERIFY_SECONDS'',
                     ranged env ''RECOVERY_HEALTHY_RESET_SECONDS'') of
              (Some ftr, Some fw, Some mrs, Some sw, Some mrl, Some lw, Some st, Some vs, Some hr) \<Rightarrow>
                if mrs > mrl then None
                else Some \<lparr>bridge_unit = unit, health_record = rec_path, state_dir = dir_path,
                  failures_to_reset = ftr, failure_window = fw, max_resets_short = mrs,
                  short_window = sw, max_resets_long = mrl, long_window = lw, stop_timeout = st,
                  verify_seconds = vs, healthy_reset_seconds = hr, poll_interval = 2\<rparr>
            | _ \<Rightarrow> None))"

section \<open>The untrusted record\<close>

record record_view =
  rv_instance_id :: string
  rv_pid :: int
  rv_phase :: string
  rv_error :: string
  rv_ever_ready :: bool
  rv_ready_since :: "time option"
  rv_updated :: time
  rv_alive :: bool
  rv_mqtt_reconnects :: int

definition is_int_from :: "int \<Rightarrow> json \<Rightarrow> bool" where
  "is_int_from minimum v \<longleftrightarrow> is_int v \<and> minimum \<le> the_int v"

definition number_of :: "json \<Rightarrow> time" where
  "number_of v = (case num_of v of None \<Rightarrow> 0 | Some x \<Rightarrow> x)"

definition is_number :: "json \<Rightarrow> bool" where
  "is_number v \<longleftrightarrow> (case num_of v of None \<Rightarrow> False | Some x \<Rightarrow> 0 \<le> x)"

definition boot_id_ok :: "string \<Rightarrow> bool" where
  "boot_id_ok s = full_match (\<lambda>c. instance_id_char c \<or> c = CHR ''-'') 36 36 s"

text \<open>
  What \<^verbatim>\<open>json.loads\<close> makes of the bytes: a value, a ValueError (UnicodeDecodeError is one), or a
  RecursionError for nesting deeper than the interpreter's limit.
\<close>

datatype loaded = Value json | Value_Error | Recursion_Error

datatype exn = Type_Error | Too_Deep

text \<open>
  The condition of \<^verbatim>\<open>parse_record\<close> in evaluation order: \<open>Inr True\<close> if some clause rejects the record,
  \<open>Inr False\<close> if none does. The membership tests hash their value: a list or object raises.
\<close>

fun first_reject :: "(exn + bool) list \<Rightarrow> exn + bool" where
  "first_reject [] = Inr False"
| "first_reject (Inl e # cs) = Inl e"
| "first_reject (Inr True # cs) = Inr True"
| "first_reject (Inr False # cs) = first_reject cs"

definition not_in :: "json \<Rightarrow> string list \<Rightarrow> exn + bool" where
  "not_in v S = (case member_hash v S of None \<Rightarrow> Inl Type_Error | Some b \<Rightarrow> Inr (\<not> b))"

text \<open>The standalone file has its own copies of the protocol's vocabularies.\<close>

definition SUPERVISOR_PHASES :: "string list" where
  "SUPERVISOR_PHASES = [''starting'', ''discovering'', ''connecting'', ''ready'', ''degraded'', ''offline'']"

definition SUPERVISOR_ERRORS :: "string list" where
  "SUPERVISOR_ERRORS = [''none'', ''ble_disconnected'', ''ble_discovery_in_progress'',
     ''ble_discovery_failed'', ''ble_connect_failed'', ''network_not_found'', ''configuration'',
     ''mqtt_error'', ''snapshot_publish_failed'', ''state_publish_failed'', ''connection_lost'',
     ''shutdown'', ''unknown'']"

definition SUPERVISOR_LINKS :: "string list" where
  "SUPERVISOR_LINKS = [''connected'', ''disconnected'', ''unknown'']"

definition record_rejected :: "(string \<times> json) list \<Rightarrow> exn + bool" where
  "record_rejected d = first_reject
     [Inr (\<not> is_valid_instance_id (get d ''instance_id'')),
      Inr (\<not> is_int_from 1 (get d ''pid'')),
      Inr (\<not> is_int_from 0 (get d ''start_ticks'')),
      Inr (\<not> (is_str (get d ''boot_id'') \<and> boot_id_ok (the_str (get d ''boot_id'')))),
      not_in (get d ''phase'') SUPERVISOR_PHASES,
      not_in (get d ''error'') SUPERVISOR_ERRORS,
      not_in (get d ''ble'') SUPERVISOR_LINKS,
      not_in (get d ''mqtt'') SUPERVISOR_LINKS,
      Inr (\<not> is_bool (get d ''ever_ready'')),
      Inr (\<not> (get d ''ready_since_monotonic'' = JNull \<or> is_number (get d ''ready_since_monotonic''))),
      Inr (\<not> is_number (get d ''updated_monotonic'')),
      Inr (\<not> is_int_from 0 (get_default d ''mqtt_reconnects'' (JInt 0)))]"

text \<open>\<open>nbytes\<close> is the number of bytes read and \<open>raw\<close> what \<^verbatim>\<open>json.loads\<close> makes of them.\<close>

definition parse_record :: "nat \<Rightarrow> loaded \<Rightarrow> string option \<Rightarrow> (int \<Rightarrow> int option) \<Rightarrow> exn + record_view option" where
  "parse_record nbytes raw boot_id start_ticks_of =
     (if MAX_RECORD_BYTES < nbytes then Inr None
      else (case raw of
              Value_Error \<Rightarrow> Inr None
            | Recursion_Error \<Rightarrow> Inl Too_Deep
            | Value (JObj d) \<Rightarrow>
                if \<not> py_eq_int (get d ''record_version'') 1 then Inr None
                else (case record_rejected d of
                        Inl e \<Rightarrow> Inl e
                      | Inr True \<Rightarrow> Inr None
                      | Inr False \<Rightarrow>
                          if boot_id \<noteq> Some (the_str (get d ''boot_id'')) then Inr None
                          else Inr (Some \<lparr>rv_instance_id = the_str (get d ''instance_id''),
                            rv_pid = the_int (get d ''pid''), rv_phase = the_str (get d ''phase''),
                            rv_error = the_str (get d ''error''), rv_ever_ready = the_bool (get d ''ever_ready''),
                            rv_ready_since = num_of (get d ''ready_since_monotonic''),
                            rv_updated = number_of (get d ''updated_monotonic''),
                            rv_alive = (start_ticks_of (the_int (get d ''pid'')) = Some (the_int (get d ''start_ticks''))),
                            rv_mqtt_reconnects = the_int (get_default d ''mqtt_reconnects'' (JInt 0))\<rparr>))
            | Value _ \<Rightarrow> Inr None))"

section \<open>The unit's state\<close>

record unit_view =
  uv_active_state :: string
  uv_main_pid :: int
  uv_result :: string
  uv_exec_main_status :: "int option"

definition integer_property :: "(string \<times> string) list \<Rightarrow> string \<Rightarrow> int option" where
  "integer_property properties key = py_int (env_get properties key [])"

definition from_properties :: "(string \<times> string) list \<Rightarrow> unit_view" where
  "from_properties properties =
     \<lparr>uv_active_state = env_get properties ''ActiveState'' ''unknown'',
      uv_main_pid = (case integer_property properties ''MainPID'' of None \<Rightarrow> 0 | Some n \<Rightarrow> n),
      uv_result = env_get properties ''Result'' ''unknown'',
      uv_exec_main_status = integer_property properties ''ExecMainStatus''\<rparr>"

section \<open>Stamps\<close>

record stamp =
  st_boot :: "string option"
  st_t :: time
  st_wall :: time

text \<open>One reading of the clocks.\<close>

record clock =
  ck_wall :: time
  ck_monotonic :: time
  ck_boottime :: time
  ck_boot_id :: "string option"

definition stamp_now :: "clock \<Rightarrow> stamp" where
  "stamp_now clock = \<lparr>st_boot = ck_boot_id clock, st_t = ck_boottime clock, st_wall = ck_wall clock\<rparr>"

definition stamp_json :: "stamp \<Rightarrow> json" where
  "stamp_json s = JObj [(''boot'', json_of_opt_str (st_boot s)), (''t'', JFloat (st_t s)),
     (''wall'', JFloat (st_wall s))]"

text \<open>\<^verbatim>\<open>_is_stamp\<close> and the stamp it recognises.\<close>

definition parse_stamp :: "json \<Rightarrow> stamp option" where
  "parse_stamp v =
     (case v of
        JObj d \<Rightarrow>
          if keys_of d = {''boot'', ''t'', ''wall''}
             \<and> (get d ''boot'' = JNull \<or> is_str (get d ''boot''))
             \<and> is_number (get d ''t'') \<and> is_number (get d ''wall'')
          then Some \<lparr>st_boot = opt_str (get d ''boot''), st_t = number_of (get d ''t''),
                     st_wall = number_of (get d ''wall'')\<rparr>
          else None
      | _ \<Rightarrow> None)"

definition is_recent :: "stamp \<Rightarrow> clock \<Rightarrow> time \<Rightarrow> bool" where
  "is_recent s clock window =
     (if ck_boot_id clock \<noteq> None \<and> st_boot s = ck_boot_id clock
      then ck_boottime clock - st_t s < window
      else ck_wall clock - st_wall s < window)"

definition recent :: "stamp list \<Rightarrow> clock \<Rightarrow> time \<Rightarrow> stamp list" where
  "recent stamps clock window = filter (\<lambda>s. is_recent s clock window) stamps"

section \<open>Root-owned state\<close>

record sup_state =
  ss_ble_failures :: "stamp list"
  ss_resets :: "stamp list"
  ss_plain_restarts :: "stamp list"
  ss_plain_restart_streak :: int
  ss_startup_failure_streak :: int
  ss_ready_instance :: string
  ss_ready_since :: "stamp option"
  ss_stuck_counted :: "string list"
  ss_mqtt_reconnects :: int
  ss_recovery_failed :: bool
  ss_terminal_stop_pending :: bool
  ss_reason :: string
  ss_last_result :: string

definition new_state :: sup_state where
  "new_state = \<lparr>ss_ble_failures = [], ss_resets = [], ss_plain_restarts = [], ss_plain_restart_streak = 0,
     ss_startup_failure_streak = 0, ss_ready_instance = [], ss_ready_since = None, ss_stuck_counted = [],
     ss_mqtt_reconnects = 0, ss_recovery_failed = False, ss_terminal_stop_pending = False,
     ss_reason = ''none'', ss_last_result = ''none''\<rparr>"

lemma new_state_simps [simp]:
  "ss_ble_failures new_state = []" "ss_resets new_state = []" "ss_plain_restarts new_state = []"
  "ss_plain_restart_streak new_state = 0" "ss_startup_failure_streak new_state = 0"
  "ss_ready_since new_state = None" "ss_recovery_failed new_state = False"
  "ss_terminal_stop_pending new_state = False"
  by (simp_all add: new_state_def)

definition unreadable_state :: sup_state where
  "unreadable_state = new_state\<lparr>ss_recovery_failed := True, ss_reason := ''state_unreadable''\<rparr>"

definition state_json :: "sup_state \<Rightarrow> json" where
  "state_json s = JObj [(''version'', JInt 1),
     (''ble_failures'', JArr (map stamp_json (ss_ble_failures s))),
     (''resets'', JArr (map stamp_json (ss_resets s))),
     (''plain_restarts'', JArr (map stamp_json (ss_plain_restarts s))),
     (''plain_restart_streak'', JInt (ss_plain_restart_streak s)),
     (''startup_failure_streak'', JInt (ss_startup_failure_streak s)),
     (''ready_instance'', JStr (ss_ready_instance s)),
     (''ready_since'', case ss_ready_since s of None \<Rightarrow> JNull | Some t \<Rightarrow> stamp_json t),
     (''stuck_counted'', JArr (map JStr (ss_stuck_counted s))),
     (''mqtt_reconnects'', JInt (ss_mqtt_reconnects s)),
     (''recovery_failed'', JBool (ss_recovery_failed s)),
     (''terminal_stop_pending'', JBool (ss_terminal_stop_pending s)),
     (''reason'', JStr (ss_reason s)),
     (''last_result'', JStr (ss_last_result s))]"

text \<open>The items of a list, if every one passes.\<close>

fun all_some :: "'a option list \<Rightarrow> 'a list option" where
  "all_some [] = Some []"
| "all_some (None # xs) = None"
| "all_some (Some x # xs) = map_option (Cons x) (all_some xs)"

definition parse_stamps :: "json \<Rightarrow> stamp list option" where
  "parse_stamps v = (case v of JArr vs \<Rightarrow> all_some (map parse_stamp vs) | _ \<Rightarrow> None)"

definition parse_instances :: "json \<Rightarrow> string list option" where
  "parse_instances v =
     (case v of
        JArr vs \<Rightarrow> if list_all is_valid_instance_id vs then Some (map the_str vs) else None
      | _ \<Rightarrow> None)"

definition state_fields_ok :: "(string \<times> json) list \<Rightarrow> bool" where
  "state_fields_ok d \<longleftrightarrow>
     is_str (get d ''ready_instance'')
   \<and> (get d ''ready_since'' = JNull \<or> parse_stamp (get d ''ready_since'') \<noteq> None)
   \<and> is_int_from 0 (get d ''mqtt_reconnects'')
   \<and> is_int_from 0 (get_default d ''plain_restart_streak'' (JInt 0))
   \<and> is_int_from 0 (get_default d ''startup_failure_streak'' (JInt 0))
   \<and> is_bool (get d ''recovery_failed'')
   \<and> is_bool (get_default d ''terminal_stop_pending'' (JBool False))
   \<and> is_str (get d ''reason'') \<and> is_str (get d ''last_result'')"

definition state_of_object :: "(string \<times> json) list \<Rightarrow> sup_state" where
  "state_of_object d =
         (if \<not> py_eq_int (get d ''version'') 1 then unreadable_state
          else (case (parse_stamps (get d ''ble_failures''), parse_stamps (get d ''resets''),
                      parse_stamps (get d ''plain_restarts''), parse_instances (get d ''stuck_counted'')) of
                  (Some failures, Some resets, Some restarts, Some stuck) \<Rightarrow>
                    if \<not> state_fields_ok d then unreadable_state
                    else \<lparr>ss_ble_failures = failures, ss_resets = resets, ss_plain_restarts = restarts,
                      ss_plain_restart_streak = the_int (get_default d ''plain_restart_streak'' (JInt 0)),
                      ss_startup_failure_streak = the_int (get_default d ''startup_failure_streak'' (JInt 0)),
                      ss_ready_instance = take 32 (the_str (get d ''ready_instance'')),
                      ss_ready_since = parse_stamp (get d ''ready_since''),
                      ss_stuck_counted = last_n MAX_SEEN_INSTANCES stuck,
                      ss_mqtt_reconnects = the_int (get d ''mqtt_reconnects''),
                      ss_recovery_failed = the_bool (get d ''recovery_failed''),
                      ss_terminal_stop_pending = the_bool (get_default d ''terminal_stop_pending'' (JBool False)),
                      ss_reason = take 64 (the_str (get d ''reason'')),
                      ss_last_result = take 64 (the_str (get d ''last_result''))\<rparr>
                | _ \<Rightarrow> unreadable_state))"

fun parse_state :: "loaded \<Rightarrow> exn + sup_state" where
  "parse_state Value_Error = Inr unreadable_state"
| "parse_state Recursion_Error = Inl Too_Deep"
| "parse_state (Value v) = Inr (case v of JObj d \<Rightarrow> state_of_object d | _ \<Rightarrow> unreadable_state)"

text \<open>The state file: missing, unreadable (an OSError or a bad encoding), or its decoded text.\<close>

datatype state_file = Missing | Unreadable | Text loaded

fun load_state :: "state_file \<Rightarrow> exn + sup_state" where
  "load_state Missing = Inr new_state"
| "load_state Unreadable = Inr unreadable_state"
| "load_state (Text raw) = parse_state raw"

section \<open>The exit log\<close>

record exit_entry =
  ex_stamp :: stamp
  ex_code :: string
  ex_status :: string

definition exit_status_ok :: "string \<Rightarrow> bool" where
  "exit_status_ok s = full_match (\<lambda>c. in_range (CHR ''A'') (CHR ''Z'') c \<or> is_digit c \<or> c = CHR ''+'') 1 16 s"

definition exit_json :: "exit_entry \<Rightarrow> json" where
  "exit_json e = JObj [(''stamp'', stamp_json (ex_stamp e)), (''code'', JStr (ex_code e)), (''status'', JStr (ex_status e))]"

text \<open>One item of the log: kept, dropped, or an exception of the membership test.\<close>

definition parse_exit :: "json \<Rightarrow> exn + exit_entry option" where
  "parse_exit v =
     (case v of
        JObj d \<Rightarrow>
          (case parse_stamp (get d ''stamp'') of
             None \<Rightarrow> Inr None
           | Some s \<Rightarrow>
               (case member_hash (get d ''code'') EXIT_CODES of
                  None \<Rightarrow> Inl Type_Error
                | Some False \<Rightarrow> Inr None
                | Some True \<Rightarrow>
                    if is_str (get d ''status'') \<and> exit_status_ok (the_str (get d ''status''))
                    then Inr (Some \<lparr>ex_stamp = s, ex_code = the_str (get d ''code''), ex_status = the_str (get d ''status'')\<rparr>)
                    else Inr None))
      | _ \<Rightarrow> Inr None)"

fun parse_exits :: "json list \<Rightarrow> exn + exit_entry list" where
  "parse_exits [] = Inr []"
| "parse_exits (v # vs) =
     (case parse_exit v of
        Inl e \<Rightarrow> Inl e
      | Inr x \<Rightarrow> (case parse_exits vs of Inl e \<Rightarrow> Inl e
                  | Inr xs \<Rightarrow> Inr (case x of None \<Rightarrow> xs | Some y \<Rightarrow> y # xs)))"

text \<open>An \<^verbatim>\<open>OSError\<close> of reading the log is handled as a \<^verbatim>\<open>ValueError\<close> is.\<close>

fun read_exit_log :: "loaded \<Rightarrow> exn + exit_entry list" where
  "read_exit_log Value_Error = Inr []"
| "read_exit_log Recursion_Error = Inl Too_Deep"
| "read_exit_log (Value v) = (case v of JArr vs \<Rightarrow> parse_exits vs | _ \<Rightarrow> Inr [])"

definition write_exit_log :: "exit_entry list \<Rightarrow> loaded" where
  "write_exit_log entries = Value (JArr (map exit_json (last_n MAX_EXIT_LOG entries)))"

text \<open>\<^verbatim>\<open>record_exit\<close> on the log's contents: whether the exit was valid, and the next contents.\<close>

definition record_exit :: "(string \<times> string) list \<Rightarrow> clock \<Rightarrow> loaded \<Rightarrow> exn + bool \<times> loaded" where
  "record_exit env clock contents =
     (let code = env_get env ''EXIT_CODE'' []; status = env_get env ''EXIT_STATUS'' [] in
      if code \<notin> set EXIT_CODES \<or> \<not> exit_status_ok status then Inr (False, contents)
      else (case read_exit_log contents of
              Inl e \<Rightarrow> Inl e
            | Inr entries \<Rightarrow> Inr (True, write_exit_log
                (entries @ [\<lparr>ex_stamp = stamp_now clock, ex_code = code, ex_status = status\<rparr>]))))"

text \<open>\<^verbatim>\<open>consume_exits\<close>: the entries, and the next contents.\<close>

definition consume_exits :: "loaded \<Rightarrow> exn + exit_entry list \<times> loaded" where
  "consume_exits contents =
     (case read_exit_log contents of
        Inl e \<Rightarrow> Inl e
      | Inr entries \<Rightarrow> Inr (entries, if entries = [] then contents else write_exit_log []))"

section \<open>The state file round trips and fails closed\<close>

definition stamp_ok :: "stamp \<Rightarrow> bool" where
  "stamp_ok s \<longleftrightarrow> 0 \<le> st_t s \<and> 0 \<le> st_wall s"

definition state_ok :: "sup_state \<Rightarrow> bool" where
  "state_ok s \<longleftrightarrow>
     list_all stamp_ok (ss_ble_failures s) \<and> list_all stamp_ok (ss_resets s)
   \<and> list_all stamp_ok (ss_plain_restarts s) \<and> 0 \<le> ss_plain_restart_streak s
   \<and> 0 \<le> ss_startup_failure_streak s \<and> length (ss_ready_instance s) \<le> 32
   \<and> pred_option stamp_ok (ss_ready_since s) \<and> list_all instance_id_ok (ss_stuck_counted s)
   \<and> length (ss_stuck_counted s) \<le> MAX_SEEN_INSTANCES \<and> 0 \<le> ss_mqtt_reconnects s
   \<and> length (ss_reason s) \<le> 64 \<and> length (ss_last_result s) \<le> 64"

lemma is_number_simps [simp]:
  "is_number (JFloat x) = (0 \<le> x)" "is_number (JInt n) = (0 \<le> n)"
  "number_of (JFloat x) = x" "number_of (JInt n) = of_int n"
  by (simp_all add: is_number_def number_of_def)

lemma is_number_nonneg: "is_number v \<Longrightarrow> 0 \<le> number_of v"
  by (simp add: is_number_def number_of_def split: option.splits)

lemma opt_str_cases: "x = JNull \<or> is_str x \<Longrightarrow> json_of_opt_str (opt_str x) = x"
  by (cases x) (simp_all add: json_of_opt_str_def)

lemma json_of_opt_str_shape: "json_of_opt_str x = JNull \<or> is_str (json_of_opt_str x)"
  by (cases x) (simp_all add: json_of_opt_str_def)

lemma parse_stamp_json [simp]: "parse_stamp (stamp_json s) = (if stamp_ok s then Some s else None)"
  using json_of_opt_str_shape[of "st_boot s"]
  by (simp add: parse_stamp_def stamp_json_def stamp_ok_def insert_commute)

lemma parse_stamp_Some:
  "parse_stamp v = Some s \<Longrightarrow> \<exists>d. v = JObj d \<and> is_number (get d ''t'') \<and> is_number (get d ''wall'')
     \<and> st_t s = number_of (get d ''t'') \<and> st_wall s = number_of (get d ''wall'')"
  by (cases v) (simp_all add: parse_stamp_def split: if_splits, force)

lemma parse_stamp_ok: "parse_stamp v = Some s \<Longrightarrow> stamp_ok s"
  by (drule parse_stamp_Some) (auto simp: stamp_ok_def is_number_nonneg)

lemma stamp_json_not_null [simp]: "stamp_json s \<noteq> JNull"
  by (simp add: stamp_json_def)

lemma all_some_map: "all_some (map f xs) = Some ys \<longleftrightarrow> list_all2 (\<lambda>x y. f x = Some y) xs ys"
proof (induction xs arbitrary: ys)
  case Nil
  show ?case by auto
next
  case (Cons x xs)
  then show ?case by (cases "f x"; cases ys) auto
qed

lemma parse_stamps_json [simp]:
  "list_all stamp_ok ss \<Longrightarrow> parse_stamps (JArr (map stamp_json ss)) = Some ss"
  by (simp add: parse_stamps_def all_some_map list.rel_map list.rel_refl_strong list_all_iff del: map_map)

lemma parse_stamps_ok: "parse_stamps v = Some ss \<Longrightarrow> list_all stamp_ok ss"
  by (auto simp: parse_stamps_def all_some_map list_all_length list_all2_conv_all_nth
      intro: parse_stamp_ok split: json.splits)

lemma parse_instances_json [simp]:
  "list_all instance_id_ok xs \<Longrightarrow> parse_instances (JArr (map JStr xs)) = Some xs"
  by (simp add: parse_instances_def list.pred_map comp_def)

lemma parse_instances_ok: "parse_instances v = Some xs \<Longrightarrow> list_all instance_id_ok xs"
  by (force simp: parse_instances_def list_all_iff is_valid_instance_id_iff split: json.splits if_splits)

lemma ready_since_json:
  "pred_option stamp_ok x \<Longrightarrow> parse_stamp (case x of None \<Rightarrow> JNull | Some t \<Rightarrow> stamp_json t) = x"
  by (cases x) (simp_all add: parse_stamp_def[of JNull])

lemma state_of_own_object: "state_ok s \<Longrightarrow> state_json s = JObj d \<Longrightarrow> state_of_object d = s"
proof (cases "ss_ready_since s")
  case None
  assume "state_ok s" and d: "state_json s = JObj d"
  then show ?thesis
    using None unfolding state_json_def json.inject d[symmetric] state_of_object_def
    by (simp add: state_ok_def state_fields_ok_def is_int_from_def parse_stamp_def[of JNull]
        flip: d[unfolded state_json_def json.inject])
next
  case (Some t)
  assume "state_ok s" and d: "state_json s = JObj d"
  then show ?thesis
    using Some unfolding state_of_object_def
    by (simp add: state_ok_def state_fields_ok_def is_int_from_def
        flip: d[unfolded state_json_def json.inject])
qed

lemma parse_state_json [simp]: "state_ok s \<Longrightarrow> parse_state (Value (state_json s)) = Inr s"
  using state_of_own_object[of s] by (simp add: state_json_def)

lemma unreadable_state_ok [simp]: "state_ok unreadable_state" "state_ok new_state"
  by (simp_all add: state_ok_def unreadable_state_def new_state_def)

lemma state_fields_bounds:
  "state_fields_ok d \<Longrightarrow> 0 \<le> the_int (get d ''mqtt_reconnects'')
     \<and> 0 \<le> the_int (get_default d ''plain_restart_streak'' (JInt 0))
     \<and> 0 \<le> the_int (get_default d ''startup_failure_streak'' (JInt 0))"
  by (simp add: state_fields_ok_def is_int_from_def)

lemma list_all_last_n: "list_all P xs \<Longrightarrow> list_all P (last_n n xs)"
  using set_last_n[of n xs] by (auto simp: list_all_iff)

lemma state_of_object_cases:
  obtains (unreadable) "state_of_object d = unreadable_state"
  | (fields) failures resets restarts stuck where "py_eq_int (get d ''version'') 1" "state_fields_ok d"
      "parse_stamps (get d ''ble_failures'') = Some failures" "parse_stamps (get d ''resets'') = Some resets"
      "parse_stamps (get d ''plain_restarts'') = Some restarts" "parse_instances (get d ''stuck_counted'') = Some stuck"
      "ss_ble_failures (state_of_object d) = failures" "ss_resets (state_of_object d) = resets"
      "ss_plain_restarts (state_of_object d) = restarts"
      "ss_stuck_counted (state_of_object d) = last_n MAX_SEEN_INSTANCES stuck" "state_ok (state_of_object d)"
proof (cases "py_eq_int (get d ''version'') 1 \<and> state_fields_ok d")
  case False
  then show thesis
    by (intro unreadable) (simp add: state_of_object_def split: option.split)
next
  case True
  note ok = True
  show thesis
  proof (cases "parse_stamps (get d ''ble_failures'')"; cases "parse_stamps (get d ''resets'')";
      cases "parse_stamps (get d ''plain_restarts'')"; cases "parse_instances (get d ''stuck_counted'')")
    fix failures resets restarts stuck
    assume p: "parse_stamps (get d ''ble_failures'') = Some failures" "parse_stamps (get d ''resets'') = Some resets"
      "parse_stamps (get d ''plain_restarts'') = Some restarts" "parse_instances (get d ''stuck_counted'') = Some stuck"
    have since: "pred_option stamp_ok (parse_stamp (get d ''ready_since''))"
      by (cases "parse_stamp (get d ''ready_since'')") (simp_all add: parse_stamp_ok)
    have "state_ok (state_of_object d)"
      using ok p state_fields_bounds[of d] since
      by (simp add: state_of_object_def state_ok_def list_all_last_n parse_stamps_ok[OF p(1)]
          parse_stamps_ok[OF p(2)] parse_stamps_ok[OF p(3)] parse_instances_ok[OF p(4)])
    with ok p show thesis by (intro fields) (simp_all add: state_of_object_def)
  qed (rule unreadable, simp add: state_of_object_def)+
qed

lemma state_of_object_ok: "state_ok (state_of_object d)"
  by (cases d rule: state_of_object_cases) simp_all

lemma parse_state_ok: "parse_state x = Inr s \<Longrightarrow> state_ok s"
  using state_of_object_ok by (cases x) (auto split: json.splits)

lemma load_state_ok: "load_state x = Inr s \<Longrightarrow> state_ok s"
  using parse_state_ok by (cases x) auto

text \<open>A state that is not latched comes from a missing file or from a file whose every field passed.\<close>

lemma unlatched_state_of_object:
  "\<not> ss_recovery_failed (state_of_object d) \<Longrightarrow> py_eq_int (get d ''version'') 1 \<and> state_fields_ok d
    \<and> parse_stamps (get d ''ble_failures'') = Some (ss_ble_failures (state_of_object d))
    \<and> parse_stamps (get d ''resets'') = Some (ss_resets (state_of_object d))
    \<and> parse_stamps (get d ''plain_restarts'') = Some (ss_plain_restarts (state_of_object d))
    \<and> parse_instances (get d ''stuck_counted'') \<noteq> None"
  by (cases d rule: state_of_object_cases) (simp_all add: unreadable_state_def)

section \<open>The exit log\<close>

definition exit_ok :: "exit_entry \<Rightarrow> bool" where
  "exit_ok e \<longleftrightarrow> stamp_ok (ex_stamp e) \<and> ex_code e \<in> set EXIT_CODES \<and> exit_status_ok (ex_status e)"

lemma parse_exit_json [simp]: "exit_ok e \<Longrightarrow> parse_exit (exit_json e) = Inr (Some e)"
  by (simp add: parse_exit_def exit_json_def exit_ok_def)

lemma parse_exits_json [simp]: "list_all exit_ok es \<Longrightarrow> parse_exits (map exit_json es) = Inr es"
  by (induction es) simp_all

lemma read_written_exits [simp]:
  "list_all exit_ok es \<Longrightarrow> read_exit_log (write_exit_log es) = Inr (last_n MAX_EXIT_LOG es)"
  by (simp add: write_exit_log_def list_all_last_n)

lemma parse_exit_ok: "parse_exit v = Inr (Some e) \<Longrightarrow> exit_ok e"
  by (auto simp: parse_exit_def exit_ok_def member_hash_True
      dest: parse_stamp_ok split: json.splits option.splits bool.splits if_splits)

lemma parse_exits_ok: "parse_exits vs = Inr es \<Longrightarrow> list_all exit_ok es"
  by (induction vs arbitrary: es) (auto dest: parse_exit_ok split: sum.splits option.splits)

lemma read_exit_log_ok: "read_exit_log x = Inr es \<Longrightarrow> list_all exit_ok es"
  by (cases x) (auto dest: parse_exits_ok split: json.splits)

section \<open>What an accepted record satisfies\<close>

lemma first_reject_False: "first_reject cs = Inr False \<longleftrightarrow> list_all (\<lambda>c. c = Inr False) cs"
  by (induction cs rule: first_reject.induct) simp_all

lemma not_in_False: "not_in v S = Inr False \<longleftrightarrow> (\<exists>x. v = JStr x \<and> x \<in> set S)"
  by (cases v) (simp_all add: not_in_def)

lemma parse_record_Some:
  assumes "parse_record n raw boot ticks = Inr (Some r)"
  obtains d where "raw = Value (JObj d)" "n \<le> MAX_RECORD_BYTES" "record_rejected d = Inr False"
    "boot = Some (the_str (get d ''boot_id''))" "rv_instance_id r = the_str (get d ''instance_id'')"
    "rv_pid r = the_int (get d ''pid'')" "rv_phase r = the_str (get d ''phase'')" "rv_error r = the_str (get d ''error'')"
    "rv_alive r \<longleftrightarrow> ticks (rv_pid r) = Some (the_int (get d ''start_ticks''))"
    "rv_updated r = number_of (get d ''updated_monotonic'')"
    "rv_mqtt_reconnects r = the_int (get_default d ''mqtt_reconnects'' (JInt 0))"
  using assms
  by (auto simp: parse_record_def not_less split: if_splits loaded.splits json.splits sum.splits bool.splits)

lemma record_not_rejected:
  assumes "record_rejected d = Inr False"
  shows "is_valid_instance_id (get d ''instance_id'')" "is_int_from 1 (get d ''pid'')"
    "the_str (get d ''phase'') \<in> set SUPERVISOR_PHASES" "the_str (get d ''error'') \<in> set SUPERVISOR_ERRORS"
    "is_number (get d ''updated_monotonic'')" "is_int_from 0 (get_default d ''mqtt_reconnects'' (JInt 0))"
  using assms by (auto simp: record_rejected_def first_reject_False not_in_False)

section \<open>The files' properties\<close>

text \<open>
  C32: the state survives the file. A valid state (no negative counter or stamp, valid instance ids, at most 32 of
  them, reasons of at most 64 characters) is loaded back exactly as it was saved, and
  whatever file is loaded, the state is valid.
\<close>

theorem state_file_roundtrip:
  "(state_ok s \<longrightarrow> load_state (Text (Value (state_json s))) = Inr s)
   \<and> (load_state f = Inr s' \<longrightarrow> state_ok s')"
  using load_state_ok by (simp del: parse_state.simps)

theorem state_file_roundtrip_witness:
  "load_state (Text (Value (state_json unreadable_state))) = Inr unreadable_state"
  using state_file_roundtrip[of unreadable_state Missing new_state] by simp

text \<open>
  A corrupt state file fails closed. If the loaded state is not latched, then the file is missing, or it
  is an object of version 1 in which every field has its type and the three lists of
  stamps are exactly those of the state: no charge of a reset is dropped silently.
\<close>

theorem unlatched_only_from_valid_file:
  assumes "load_state f = Inr s" "\<not> ss_recovery_failed s"
  shows "f = Missing \<or> (\<exists>d. f = Text (Value (JObj d)) \<and> py_eq_int (get d ''version'') 1 \<and> state_fields_ok d
     \<and> parse_stamps (get d ''ble_failures'') = Some (ss_ble_failures s)
     \<and> parse_stamps (get d ''resets'') = Some (ss_resets s)
     \<and> parse_stamps (get d ''plain_restarts'') = Some (ss_plain_restarts s))"
proof (cases f)
  case Missing
  then show ?thesis by simp
next
  case Unreadable
  with assms show ?thesis by (auto simp: unreadable_state_def)
next
  case (Text x)
  with assms obtain v where x: "x = Value v" "s = (case v of JObj d \<Rightarrow> state_of_object d | _ \<Rightarrow> unreadable_state)"
    by (cases x) (auto simp: unreadable_state_def)
  with assms(2) obtain d where "v = JObj d" "s = state_of_object d"
    by (cases v) (simp_all add: unreadable_state_def)
  with Text x assms(2) unlatched_state_of_object[of d] show ?thesis by auto
qed

theorem unlatched_only_from_valid_file_witness:
  "\<exists>d. Text (Value (state_json new_state)) = Text (Value (JObj d)) \<and> py_eq_int (get d ''version'') 1 \<and> state_fields_ok d"
proof -
  have "load_state (Text (Value (state_json new_state))) = Inr new_state"
    by (simp del: parse_state.simps)
  from unlatched_only_from_valid_file[OF this] show ?thesis by auto
qed

text \<open>The hook run for a list of exits.\<close>

fun record_all :: "((string \<times> string) list \<times> clock) list \<Rightarrow> loaded \<Rightarrow> exn + loaded" where
  "record_all [] contents = Inr contents"
| "record_all ((env, c) # xs) contents =
     (case record_exit env c contents of Inl e \<Rightarrow> Inl e | Inr (ok, contents') \<Rightarrow> record_all xs contents')"

definition entry_of :: "(string \<times> string) list \<times> clock \<Rightarrow> exit_entry" where
  "entry_of x = \<lparr>ex_stamp = stamp_now (snd x), ex_code = env_get (fst x) ''EXIT_CODE'' [],
     ex_status = env_get (fst x) ''EXIT_STATUS'' []\<rparr>"

lemma record_exit_appends:
  assumes "exit_ok (entry_of (env, c))" "list_all exit_ok es"
  shows "record_exit env c (write_exit_log es) = Inr (True, write_exit_log (last_n MAX_EXIT_LOG es @ [entry_of (env, c)]))"
  using assms by (simp add: record_exit_def exit_ok_def entry_of_def Let_def list_all_last_n)

lemma write_exit_log_last [simp]: "write_exit_log (last_n MAX_EXIT_LOG es @ [e]) = write_exit_log (es @ [e])"
  by (simp add: write_exit_log_def last_n_snoc)

lemma record_all_appends:
  assumes "list_all (\<lambda>x. exit_ok (entry_of x)) xs" "list_all exit_ok es"
  shows "record_all xs (write_exit_log es) = Inr (write_exit_log (es @ map entry_of xs))"
  using assms
proof (induction xs arbitrary: es)
  case Nil
  then show ?case by simp
next
  case (Cons x xs)
  obtain env c where x: "x = (env, c)" by force
  with Cons.prems have "exit_ok (entry_of (env, c))" "list_all (\<lambda>x. exit_ok (entry_of x)) xs" by simp_all
  with Cons.IH[of "es @ [entry_of x]"] Cons.prems(2) x show ?case
    by (simp add: record_exit_appends)
qed

text \<open>
  The exit log delivers every exit once and in order. The valid exits that systemd reports between two passes
  are, with those already in the log, what the next pass consumes (the last 64 of them), and consuming again
  gives nothing.
\<close>

theorem exit_log_delivers:
  assumes "list_all (\<lambda>x. exit_ok (entry_of x)) xs" "list_all exit_ok es"
  shows "\<exists>log1 log2. record_all xs (write_exit_log es) = Inr log1
    \<and> consume_exits log1 = Inr (last_n MAX_EXIT_LOG (es @ map entry_of xs), log2)
    \<and> (\<exists>log3. consume_exits log2 = Inr ([], log3))"
proof -
  have ok: "list_all exit_ok (es @ map entry_of xs)" using assms by (simp add: list.pred_map comp_def)
  show ?thesis
    using record_all_appends[OF assms] read_written_exits[OF ok] read_written_exits[of "[]"]
    by (simp add: consume_exits_def)
qed

theorem exit_log_delivers_witness:
  "\<exists>log1 log2. record_all [([(''EXIT_CODE'', ''exited''), (''EXIT_STATUS'', ''76'')],
       \<lparr>ck_wall = 5, ck_monotonic = 5, ck_boottime = 5, ck_boot_id = None\<rparr>)] (write_exit_log []) = Inr log1
     \<and> consume_exits log1 = Inr ([\<lparr>ex_stamp = \<lparr>st_boot = None, st_t = 5, st_wall = 5\<rparr>, ex_code = ''exited'', ex_status = ''76''\<rparr>], log2)"
  using exit_log_delivers[of "[([(''EXIT_CODE'', ''exited''), (''EXIT_STATUS'', ''76'')],
       \<lparr>ck_wall = 5, ck_monotonic = 5, ck_boottime = 5, ck_boot_id = None\<rparr>)]" "[]"]
  by (auto simp: exit_ok_def entry_of_def env_get_def stamp_ok_def stamp_now_def EXIT_CODES_def exit_status_ok_def
      full_match_def is_digit_def in_range_def)

end
