(* ===== verification/Supervisor_Decide.thy ===== *)
theory Supervisor_Decide
  imports Supervisor_State Contracts
begin

text \<open>
  The decision part of \<^verbatim>\<open>scripts/bridge_recovery.py\<close>: folding an observation of systemd, the exit
  log and the health record into the state (\<open>observe\<close>), and choosing the action (\<open>decide\<close>). The
  lemmas relate the state to the history of observations: what is counted as evidence, when
  a streak ends, and how the budget of resets per window is kept.
\<close>

section \<open>Observing\<close>

definition trusted_record :: "record_view option \<Rightarrow> unit_view \<Rightarrow> record_view option" where
  "trusted_record rv u =
     (case rv of
        None \<Rightarrow> None
      | Some r \<Rightarrow> if \<not> rv_alive r \<or> rv_pid r \<noteq> uv_main_pid u then None else Some r)"

definition startup_exit :: "exit_entry \<Rightarrow> bool" where
  "startup_exit e \<longleftrightarrow> ex_code e = ''exited'' \<and> ex_status e \<in> {''76'', ''79''}"

definition ble_exit :: "exit_entry \<Rightarrow> bool" where
  "ble_exit e \<longleftrightarrow> ex_code e = ''exited'' \<and> ex_status e = ''76''"

definition count_exit :: "exit_entry \<Rightarrow> sup_state \<Rightarrow> sup_state" where
  "count_exit e s =
     (let s1 = (if startup_exit e then s\<lparr>ss_startup_failure_streak := ss_startup_failure_streak s + 1\<rparr> else s)
      in if ble_exit e then s1\<lparr>ss_ble_failures := ss_ble_failures s1 @ [ex_stamp e]\<rparr> else s1)"

definition prune :: "clock \<Rightarrow> settings \<Rightarrow> sup_state \<Rightarrow> sup_state" where
  "prune clock cfg s =
     s\<lparr>ss_ble_failures := recent (ss_ble_failures s) clock (of_int (failure_window cfg)),
       ss_resets := recent (ss_resets s) clock (of_int (long_window cfg)),
       ss_plain_restarts := recent (ss_plain_restarts s) clock PLAIN_RESTART_WINDOW_SECONDS\<rparr>"

text \<open>The branch of a trusted record in phase \<open>ready\<close>.\<close>

definition end_streaks :: "sup_state \<Rightarrow> sup_state" where
  "end_streaks s = s\<lparr>ss_ble_failures := [], ss_plain_restart_streak := 0, ss_startup_failure_streak := 0\<rparr>"

definition observe_ready :: "record_view \<Rightarrow> clock \<Rightarrow> settings \<Rightarrow> sup_state \<Rightarrow> sup_state" where
  "observe_ready r clock cfg s =
     (case ss_ready_since s of
        None \<Rightarrow> s\<lparr>ss_ready_instance := rv_instance_id r, ss_ready_since := Some (stamp_now clock)\<rparr>
      | Some since \<Rightarrow>
          if ss_ready_instance s \<noteq> rv_instance_id r
          then s\<lparr>ss_ready_instance := rv_instance_id r, ss_ready_since := Some (stamp_now clock)\<rparr>
          else if \<not> ss_terminal_stop_pending s \<and> \<not> is_recent since clock (of_int (healthy_reset_seconds cfg))
          then s\<lparr>ss_recovery_failed := False, ss_reason := ''none''\<rparr>
          else s)"

definition not_ready :: "sup_state \<Rightarrow> sup_state" where
  "not_ready s = s\<lparr>ss_ready_instance := [], ss_ready_since := None\<rparr>"

definition is_stuck :: "record_view \<Rightarrow> clock \<Rightarrow> sup_state \<Rightarrow> bool" where
  "is_stuck r clock s \<longleftrightarrow> rv_phase r \<in> {''discovering'', ''connecting''}
     \<and> ck_monotonic clock - rv_updated r > STUCK_SECONDS \<and> rv_instance_id r \<notin> set (ss_stuck_counted s)"

definition count_stuck :: "record_view \<Rightarrow> clock \<Rightarrow> settings \<Rightarrow> sup_state \<Rightarrow> sup_state" where
  "count_stuck r clock cfg s =
     s\<lparr>ss_stuck_counted := last_n MAX_SEEN_INSTANCES (ss_stuck_counted s @ [rv_instance_id r]),
       ss_ble_failures := ss_ble_failures s @ replicate (nat (failures_to_reset cfg)) (stamp_now clock)\<rparr>"

definition observe :: "sup_state \<Rightarrow> unit_view \<Rightarrow> record_view option \<Rightarrow> clock \<Rightarrow> settings \<Rightarrow> exit_entry list \<Rightarrow> sup_state" where
  "observe s0 u rv clock cfg exits =
     (let s = prune clock cfg (fold count_exit exits s0) in
      case trusted_record rv u of
        None \<Rightarrow> not_ready s
      | Some r \<Rightarrow>
          let s1 = s\<lparr>ss_mqtt_reconnects := rv_mqtt_reconnects r\<rparr> in
          if rv_phase r = ''ready'' then observe_ready r clock cfg (end_streaks s1)
          else if is_stuck r clock s1 then count_stuck r clock cfg (not_ready s1)
          else not_ready s1)"

section \<open>Deciding\<close>

datatype action = ACTION_NONE | ACTION_RECOVER | ACTION_RESTART | ACTION_LATCH | ACTION_STOP

type_synonym decision = "action \<times> string"

definition configuration_error :: "unit_view \<Rightarrow> bool" where
  "configuration_error u \<longleftrightarrow> uv_active_state u = ''failed'' \<and> uv_exec_main_status u = Some EXIT_CONFIGURATION"

definition trusted_ready :: "record_view option \<Rightarrow> unit_view \<Rightarrow> bool" where
  "trusted_ready rv u \<longleftrightarrow> (case trusted_record rv u of None \<Rightarrow> False | Some r \<Rightarrow> rv_phase r = ''ready'')"

definition reset_budget_spent :: "sup_state \<Rightarrow> clock \<Rightarrow> settings \<Rightarrow> bool" where
  "reset_budget_spent s clock cfg \<longleftrightarrow>
     int (length (recent (ss_resets s) clock (of_int (short_window cfg)))) \<ge> max_resets_short cfg
   \<or> int (length (recent (ss_resets s) clock (of_int (long_window cfg)))) \<ge> max_resets_long cfg"

definition decide :: "sup_state \<Rightarrow> unit_view \<Rightarrow> record_view option \<Rightarrow> clock \<Rightarrow> settings \<Rightarrow> decision" where
  "decide s u rv clock cfg =
     (if ss_recovery_failed s then
        if ss_terminal_stop_pending s \<and> \<not> configuration_error u \<and> \<not> trusted_ready rv u
        then (ACTION_STOP, ''recovery_failed'') else (ACTION_NONE, ''recovery_failed'')
      else if configuration_error u then (ACTION_NONE, ''configuration_error'')
      else if trusted_ready rv u then (ACTION_NONE, ''bridge_ready'')
      else if ss_startup_failure_streak s \<ge> MAX_STARTUP_FAILURE_STREAK
      then (ACTION_LATCH, ''startup_failure_budget_exhausted'')
      else if int (length (ss_ble_failures s)) \<ge> failures_to_reset cfg then
        if reset_budget_spent s clock cfg then (ACTION_LATCH, ''budget_exhausted'')
        else (ACTION_RECOVER, ''repeated_ble_failure'')
      else if uv_active_state u = ''failed'' then
        if ss_plain_restart_streak s \<ge> MAX_PLAIN_RESTART_STREAK then (ACTION_LATCH, ''bridge_keeps_failing'')
        else if length (ss_plain_restarts s) \<ge> MAX_PLAIN_RESTARTS_PER_WINDOW
        then (ACTION_NONE, ''bridge_failed_restart_budget_used'')
        else (ACTION_RESTART, ''bridge_failed'')
      else (ACTION_NONE, ''no_repeated_ble_failure''))"

section \<open>One observation\<close>

lemma fold_count_exit_streak: "ss_startup_failure_streak (fold count_exit es s) =
    ss_startup_failure_streak s + int (length (filter startup_exit es))"
  by (induction es arbitrary: s) (simp_all add: count_exit_def Let_def)

lemma fold_count_exit_failures: "ss_ble_failures (fold count_exit es s) =
    ss_ble_failures s @ map ex_stamp (filter ble_exit es)"
  by (induction es arbitrary: s) (simp_all add: count_exit_def Let_def)

lemma fold_count_exit_frame [simp]:
  "ss_resets (fold count_exit es s) = ss_resets s"
  "ss_plain_restarts (fold count_exit es s) = ss_plain_restarts s"
  "ss_plain_restart_streak (fold count_exit es s) = ss_plain_restart_streak s"
  "ss_ready_instance (fold count_exit es s) = ss_ready_instance s"
  "ss_ready_since (fold count_exit es s) = ss_ready_since s"
  "ss_stuck_counted (fold count_exit es s) = ss_stuck_counted s"
  "ss_recovery_failed (fold count_exit es s) = ss_recovery_failed s"
  "ss_terminal_stop_pending (fold count_exit es s) = ss_terminal_stop_pending s"
  "ss_reason (fold count_exit es s) = ss_reason s"
  "ss_last_result (fold count_exit es s) = ss_last_result s"
  by (induction es arbitrary: s) (simp_all add: count_exit_def Let_def)

lemma prune_simps [simp]:
  "ss_ble_failures (prune c cfg s) = recent (ss_ble_failures s) c (of_int (failure_window cfg))"
  "ss_resets (prune c cfg s) = recent (ss_resets s) c (of_int (long_window cfg))"
  "ss_plain_restarts (prune c cfg s) = recent (ss_plain_restarts s) c PLAIN_RESTART_WINDOW_SECONDS"
  "ss_startup_failure_streak (prune c cfg s) = ss_startup_failure_streak s"
  "ss_plain_restart_streak (prune c cfg s) = ss_plain_restart_streak s"
  "ss_ready_instance (prune c cfg s) = ss_ready_instance s"
  "ss_ready_since (prune c cfg s) = ss_ready_since s"
  "ss_stuck_counted (prune c cfg s) = ss_stuck_counted s"
  "ss_recovery_failed (prune c cfg s) = ss_recovery_failed s"
  "ss_terminal_stop_pending (prune c cfg s) = ss_terminal_stop_pending s"
  "ss_reason (prune c cfg s) = ss_reason s"
  "ss_last_result (prune c cfg s) = ss_last_result s"
  by (simp_all add: prune_def)

lemma observe_ready_frame [simp]:
  "ss_ble_failures (observe_ready r c cfg s) = ss_ble_failures s"
  "ss_resets (observe_ready r c cfg s) = ss_resets s"
  "ss_plain_restarts (observe_ready r c cfg s) = ss_plain_restarts s"
  "ss_startup_failure_streak (observe_ready r c cfg s) = ss_startup_failure_streak s"
  "ss_plain_restart_streak (observe_ready r c cfg s) = ss_plain_restart_streak s"
  "ss_terminal_stop_pending (observe_ready r c cfg s) = ss_terminal_stop_pending s"
  "ss_ready_instance (observe_ready r c cfg s) = rv_instance_id r"
  "ss_last_result (observe_ready r c cfg s) = ss_last_result s"
  by (simp_all add: observe_ready_def split: option.split)

lemmas observe_cases = option.split if_split

lemma observe_frame [simp]:
  "ss_resets (observe s u rv c cfg es) = recent (ss_resets s) c (of_int (long_window cfg))"
  "ss_plain_restarts (observe s u rv c cfg es) = recent (ss_plain_restarts s) c PLAIN_RESTART_WINDOW_SECONDS"
  "ss_terminal_stop_pending (observe s u rv c cfg es) = ss_terminal_stop_pending s"
  "ss_last_result (observe s u rv c cfg es) = ss_last_result s"
  by (simp_all add: observe_def Let_def not_ready_def end_streaks_def count_stuck_def split: option.split)

lemma observe_streak: "ss_startup_failure_streak (observe s u rv c cfg es) =
    (if trusted_ready rv u then 0
     else ss_startup_failure_streak s + int (length (filter startup_exit es)))"
  by (simp add: observe_def Let_def not_ready_def end_streaks_def count_stuck_def trusted_ready_def
      fold_count_exit_streak split: option.split)

text \<open>A record that may be counted as stuck.\<close>

definition stuck_now :: "record_view option \<Rightarrow> unit_view \<Rightarrow> clock \<Rightarrow> bool" where
  "stuck_now rv u c \<longleftrightarrow>
     (case trusted_record rv u of
        None \<Rightarrow> False
      | Some r \<Rightarrow> rv_phase r \<in> {''discovering'', ''connecting''} \<and> ck_monotonic c - rv_updated r > STUCK_SECONDS)"

lemma recent_stamp_now: "0 < w \<Longrightarrow> recent (replicate n (stamp_now c)) c w = replicate n (stamp_now c)"
  by (auto simp: recent_def is_recent_def stamp_now_def filter_id_conv)

lemma observe_failures:
  "\<exists>n. ss_ble_failures (observe s u rv c cfg es) =
     (if trusted_ready rv u then []
      else recent (ss_ble_failures s @ map ex_stamp (filter ble_exit es)) c (of_int (failure_window cfg))
           @ replicate n (stamp_now c))
   \<and> (n = 0 \<or> stuck_now rv u c \<and> n = nat (failures_to_reset cfg))"
proof (cases "trusted_record rv u")
  case None
  then show ?thesis
    by (intro exI[of _ 0]) (simp add: observe_def trusted_ready_def not_ready_def fold_count_exit_failures)
next
  case (Some r)
  let ?s = "(prune c cfg (fold count_exit es s))\<lparr>ss_mqtt_reconnects := rv_mqtt_reconnects r\<rparr>"
  show ?thesis
    using Some by (intro exI[of _ "if is_stuck r c ?s then nat (failures_to_reset cfg) else 0"])
      (simp add: observe_def Let_def trusted_ready_def stuck_now_def is_stuck_def not_ready_def end_streaks_def
        count_stuck_def fold_count_exit_failures, auto)
qed

section \<open>Runs of observations\<close>

text \<open>What one pass of the supervisor sees.\<close>

record pass =
  pa_unit :: unit_view
  pa_record :: "record_view option"
  pa_clock :: clock
  pa_exits :: "exit_entry list"

definition observe_pass :: "settings \<Rightarrow> pass \<Rightarrow> sup_state \<Rightarrow> sup_state" where
  "observe_pass cfg p s = observe s (pa_unit p) (pa_record p) (pa_clock p) cfg (pa_exits p)"

definition ready_pass :: "pass \<Rightarrow> bool" where
  "ready_pass p = trusted_ready (pa_record p) (pa_unit p)"

text \<open>The passes after the last one that saw the current process ready.\<close>

definition since_ready :: "pass list \<Rightarrow> pass list" where
  "since_ready ps = rev (takeWhile (\<lambda>p. \<not> ready_pass p) (rev ps))"

lemma since_ready_simps [simp]:
  "since_ready [] = []"
  "since_ready (ps @ [p]) = (if ready_pass p then [] else since_ready ps @ [p])"
  by (simp_all add: since_ready_def)

definition startup_exits :: "pass list \<Rightarrow> exit_entry list" where
  "startup_exits ps = filter startup_exit (concat (map pa_exits ps))"

text \<open>The evidence a pass can add: the stamps of its BLE exits, and a stuck process.\<close>

definition pass_evidence :: "settings \<Rightarrow> pass \<Rightarrow> stamp list" where
  "pass_evidence cfg p = map ex_stamp (filter ble_exit (pa_exits p))
     @ (if stuck_now (pa_record p) (pa_unit p) (pa_clock p)
        then replicate (nat (failures_to_reset cfg)) (stamp_now (pa_clock p)) else [])"

definition evidence :: "settings \<Rightarrow> pass list \<Rightarrow> stamp list" where
  "evidence cfg ps = concat (map (pass_evidence cfg) (since_ready ps))"

lemma evidence_simps [simp]:
  "evidence cfg [] = []"
  "evidence cfg (ps @ [p]) = (if ready_pass p then [] else evidence cfg ps @ pass_evidence cfg p)"
  by (simp_all add: evidence_def)

lemma streak_of_run:
  "ss_startup_failure_streak (fold (observe_pass cfg) ps s) =
     (if \<exists>p \<in> set ps. ready_pass p then 0 else ss_startup_failure_streak s)
     + int (length (startup_exits (since_ready ps)))"
proof (induction ps rule: rev_induct)
  case Nil
  then show ?case by (simp add: startup_exits_def)
next
  case (snoc p ps)
  then show ?case by (simp add: observe_pass_def observe_streak ready_pass_def startup_exits_def)
qed

lemma failures_of_run:
  assumes "ss_ble_failures s = []"
  shows "subseq (ss_ble_failures (fold (observe_pass cfg) ps s)) (evidence cfg ps)"
proof (induction ps rule: rev_induct)
  case Nil
  then show ?case using assms by simp
next
  case (snoc p ps)
  let ?f = "ss_ble_failures (fold (observe_pass cfg) ps s)"
  let ?e = "map ex_stamp (filter ble_exit (pa_exits p))"
  obtain n where n: "ss_ble_failures (fold (observe_pass cfg) (ps @ [p]) s) =
      (if ready_pass p then [] else recent (?f @ ?e) (pa_clock p) (of_int (failure_window cfg))
         @ replicate n (stamp_now (pa_clock p)))"
    and stuck: "n = 0 \<or> stuck_now (pa_record p) (pa_unit p) (pa_clock p) \<and> n = nat (failures_to_reset cfg)"
    using observe_failures[of "fold (observe_pass cfg) ps s" "pa_unit p" "pa_record p" "pa_clock p" cfg "pa_exits p"]
    by (auto simp: observe_pass_def ready_pass_def)
  have "subseq (recent (?f @ ?e) (pa_clock p) (of_int (failure_window cfg))) (evidence cfg ps @ ?e)"
    unfolding recent_def using subseq_order.trans[OF subseq_filter_left] snoc
    by (metis list_emb_append_mono subseq_order.refl)
  moreover have "subseq (replicate n (stamp_now (pa_clock p)))
      (if stuck_now (pa_record p) (pa_unit p) (pa_clock p)
       then replicate (nat (failures_to_reset cfg)) (stamp_now (pa_clock p)) else [])"
    using stuck by auto
  ultimately have "subseq (recent (?f @ ?e) (pa_clock p) (of_int (failure_window cfg)) @ replicate n (stamp_now (pa_clock p)))
      ((evidence cfg ps @ ?e) @ (if stuck_now (pa_record p) (pa_unit p) (pa_clock p)
       then replicate (nat (failures_to_reset cfg)) (stamp_now (pa_clock p)) else []))"
    by (rule list_emb_append_mono)
  then show ?case unfolding n evidence_simps pass_evidence_def by simp
qed

lemma failures_recent:
  assumes "0 < failure_window cfg"
  shows "list_all (\<lambda>t. is_recent t c (of_int (failure_window cfg))) (ss_ble_failures (observe s u rv c cfg es))"
proof -
  obtain n where "ss_ble_failures (observe s u rv c cfg es) =
     (if trusted_ready rv u then []
      else recent (ss_ble_failures s @ map ex_stamp (filter ble_exit es)) c (of_int (failure_window cfg))
           @ replicate n (stamp_now c))"
    using observe_failures[of s u rv c cfg es] by blast
  with assms show ?thesis
    by (auto simp: list_all_iff recent_def is_recent_def stamp_now_def)
qed

lemma decide_recover:
  "fst (decide s u rv c cfg) = ACTION_RECOVER \<longleftrightarrow>
     \<not> ss_recovery_failed s \<and> \<not> configuration_error u \<and> \<not> trusted_ready rv u
     \<and> ss_startup_failure_streak s < MAX_STARTUP_FAILURE_STREAK
     \<and> failures_to_reset cfg \<le> int (length (ss_ble_failures s)) \<and> \<not> reset_budget_spent s c cfg"
  by (simp add: decide_def)

lemma decide_restart:
  "fst (decide s u rv c cfg) = ACTION_RESTART \<longleftrightarrow>
     \<not> ss_recovery_failed s \<and> \<not> configuration_error u \<and> \<not> trusted_ready rv u
     \<and> ss_startup_failure_streak s < MAX_STARTUP_FAILURE_STREAK
     \<and> int (length (ss_ble_failures s)) < failures_to_reset cfg
     \<and> uv_active_state u = ''failed'' \<and> ss_plain_restart_streak s < MAX_PLAIN_RESTART_STREAK
     \<and> ss_plain_restarts s = []"
  by (simp add: decide_def) (auto simp: Suc_le_eq)

lemma decide_latched: "ss_recovery_failed s \<Longrightarrow> fst (decide s u rv c cfg) \<in> {ACTION_NONE, ACTION_STOP}"
  by (simp add: decide_def)

section \<open>What the decisions rest on\<close>


text \<open>
  The cumulative startup streak is exact. After any observations it is the number of trusted
  startup exits (76 and 79) consumed since the last pass that saw the current process ready, on top of the
  initial streak if there was no such pass; nothing else, no passing of time and no reboot, changes it.
\<close>

theorem startup_streak_exact:
  "ss_startup_failure_streak (fold (observe_pass cfg) ps s) =
     (if \<exists>p \<in> set ps. ready_pass p then 0 else ss_startup_failure_streak s)
     + int (length (startup_exits (since_ready ps)))"
  by (fact streak_of_run)

text \<open>The healthy period: a run of passes that all saw one ready process.\<close>

definition ready_of :: "string \<Rightarrow> pass \<Rightarrow> bool" where
  "ready_of iid p \<longleftrightarrow> (\<exists>r. trusted_record (pa_record p) (pa_unit p) = Some r
     \<and> rv_phase r = ''ready'' \<and> rv_instance_id r = iid)"

definition healthy_run :: "pass list \<Rightarrow> sup_state \<Rightarrow> bool" where
  "healthy_run ps s \<longleftrightarrow>
     (\<forall>since. ss_ready_since s = Some since \<longrightarrow>
        (\<exists>q qs. suffix (q # qs) ps \<and> since = stamp_now (pa_clock q)
           \<and> (\<forall>p \<in> set (q # qs). ready_of (ss_ready_instance s) p)))"

lemma observe_ready_since:
  "ss_ready_since (observe s u rv c cfg es) = Some since \<Longrightarrow>
     \<exists>r. trusted_record rv u = Some r \<and> rv_phase r = ''ready''
       \<and> ss_ready_instance (observe s u rv c cfg es) = rv_instance_id r
       \<and> (since = stamp_now c \<or> ss_ready_since s = Some since \<and> ss_ready_instance s = rv_instance_id r)"
  by (simp add: observe_def Let_def not_ready_def end_streaks_def count_stuck_def observe_ready_def
      split: option.splits if_splits) auto

lemma healthy_run_of_observations:
  "ss_ready_since s = None \<Longrightarrow> healthy_run ps (fold (observe_pass cfg) ps s)"
proof (induction ps rule: rev_induct)
  case Nil
  then show ?case by (simp add: healthy_run_def)
next
  case (snoc p ps)
  let ?s = "fold (observe_pass cfg) ps s"
  show ?case unfolding healthy_run_def
  proof (intro allI impI)
    fix since
    assume "ss_ready_since (fold (observe_pass cfg) (ps @ [p]) s) = Some since"
    then have "ss_ready_since (observe ?s (pa_unit p) (pa_record p) (pa_clock p) cfg (pa_exits p)) = Some since"
      by (simp add: observe_pass_def[of cfg p])
    from observe_ready_since[OF this] obtain r where
      r: "trusted_record (pa_record p) (pa_unit p) = Some r" "rv_phase r = ''ready''"
        "ss_ready_instance (fold (observe_pass cfg) (ps @ [p]) s) = rv_instance_id r"
      and since: "since = stamp_now (pa_clock p)
        \<or> ss_ready_since ?s = Some since \<and> ss_ready_instance ?s = rv_instance_id r"
      by (auto simp: observe_pass_def[of cfg p])
    then have p: "ready_of (rv_instance_id r) p" by (auto simp: ready_of_def)
    from since show "\<exists>q qs. suffix (q # qs) (ps @ [p]) \<and> since = stamp_now (pa_clock q)
        \<and> (\<forall>p' \<in> set (q # qs). ready_of (ss_ready_instance (fold (observe_pass cfg) (ps @ [p]) s)) p')"
    proof
      assume "since = stamp_now (pa_clock p)"
      with p r(3) show ?thesis by (intro exI[of _ p] exI[of _ "[]"]) (simp add: suffix_def)
    next
      assume "ss_ready_since ?s = Some since \<and> ss_ready_instance ?s = rv_instance_id r"
      moreover have "healthy_run ps ?s" using snoc by simp
      ultimately obtain q qs where "suffix (q # qs) ps" "since = stamp_now (pa_clock q)"
        "\<forall>p \<in> set (q # qs). ready_of (rv_instance_id r) p"
        unfolding healthy_run_def by metis
      with p r(3) show ?thesis
        by (intro exI[of _ q] exI[of _ "qs @ [p]"]) (auto simp: suffix_def)
    qed
  qed
qed

lemma observe_unlatches:
  assumes "ss_recovery_failed s" "\<not> ss_recovery_failed (observe s u rv c cfg es)"
  shows "\<not> ss_terminal_stop_pending s \<and> (\<exists>since. ss_ready_since s = Some since
    \<and> \<not> is_recent since c (of_int (healthy_reset_seconds cfg))
    \<and> (\<exists>r. trusted_record rv u = Some r \<and> rv_phase r = ''ready'' \<and> ss_ready_instance s = rv_instance_id r))"
  using assms
  by (simp add: observe_def Let_def not_ready_def end_streaks_def count_stuck_def observe_ready_def
      split: option.splits if_splits)

text \<open>
  C31: only a long healthy period that the supervisor itself observed clears the latch. If an observation
  clears it, no terminal stop is pending, and the observations end with consecutive passes that all
  saw one and the same ready instance, the first of them at least the configured period before the
  clearing one; the time the record claims for it plays no part.
\<close>

theorem latch_cleared_only_by_health:
  assumes "ss_ready_since s = None"
    and "ss_recovery_failed (fold (observe_pass cfg) ps s)"
    and "\<not> ss_recovery_failed (fold (observe_pass cfg) (ps @ [p]) s)"
  shows "\<not> ss_terminal_stop_pending (fold (observe_pass cfg) ps s)
    \<and> (\<exists>q qs iid. suffix (q # qs) ps \<and> (\<forall>p' \<in> set (q # qs @ [p]). ready_of iid p')
         \<and> \<not> is_recent (stamp_now (pa_clock q)) (pa_clock p) (of_int (healthy_reset_seconds cfg)))"
proof -
  let ?s = "fold (observe_pass cfg) ps s"
  from assms(3) have "\<not> ss_recovery_failed (observe ?s (pa_unit p) (pa_record p) (pa_clock p) cfg (pa_exits p))"
    by (simp add: observe_pass_def)
  from observe_unlatches[OF assms(2) this] obtain since r where
    u: "\<not> ss_terminal_stop_pending ?s" "ss_ready_since ?s = Some since"
      "\<not> is_recent since (pa_clock p) (of_int (healthy_reset_seconds cfg))"
      "trusted_record (pa_record p) (pa_unit p) = Some r" "rv_phase r = ''ready''"
      "ss_ready_instance ?s = rv_instance_id r" by blast
  moreover from u(2) healthy_run_of_observations[OF assms(1)] obtain q qs where
    "suffix (q # qs) ps" "since = stamp_now (pa_clock q)"
    "\<forall>p \<in> set (q # qs). ready_of (ss_ready_instance ?s) p"
    unfolding healthy_run_def by blast
  ultimately show ?thesis
    by (intro conjI exI[of _ q] exI[of _ qs] exI[of _ "rv_instance_id r"]) (auto simp: ready_of_def)
qed

section \<open>Concrete observations\<close>

definition clock_of :: "time \<Rightarrow> clock" where
  "clock_of t = \<lparr>ck_wall = t, ck_monotonic = t, ck_boottime = t, ck_boot_id = Some ''boot''\<rparr>"

definition exit_with :: "string \<Rightarrow> time \<Rightarrow> exit_entry" where
  "exit_with status t = \<lparr>ex_stamp = stamp_now (clock_of t), ex_code = ''exited'', ex_status = status\<rparr>"

definition sample_cfg :: settings where
  "sample_cfg = \<lparr>bridge_unit = DEFAULT_BRIDGE_UNIT, health_record = DEFAULT_HEALTH_RECORD,
     state_dir = DEFAULT_STATE_DIR, failures_to_reset = 2, failure_window = 7200, max_resets_short = 1,
     short_window = 600, max_resets_long = 2, long_window = 1800, stop_timeout = 60,
     verify_seconds = 180, healthy_reset_seconds = 3600, poll_interval = 2\<rparr>"

definition activating_unit :: unit_view where
  "activating_unit = \<lparr>uv_active_state = ''activating'', uv_main_pid = 7, uv_result = ''exit-code'', uv_exec_main_status = Some 76\<rparr>"

definition ready_record :: record_view where
  "ready_record = \<lparr>rv_instance_id = replicate 32 (CHR ''a''), rv_pid = 7, rv_phase = ''ready'', rv_error = ''none'',
     rv_ever_ready = True, rv_ready_since = Some 1, rv_updated = 1, rv_alive = True, rv_mqtt_reconnects = 0\<rparr>"

lemmas sample_defs = clock_of_def exit_with_def sample_cfg_def activating_unit_def ready_record_def

lemma is_recent_clock_of [simp]: "is_recent (stamp_now (clock_of t)) (clock_of now) w \<longleftrightarrow> now - t < w"
  by (simp add: is_recent_def stamp_now_def clock_of_def)

lemma recent_simps [simp]:
  "recent [] c w = []"
  "recent (s # ss) c w = (if is_recent s c w then s # recent ss c w else recent ss c w)"
  "recent (xs @ ys) c w = recent xs c w @ recent ys c w"
  by (simp_all add: recent_def)

lemma from_env_defaults: "from_env [] = Some sample_cfg"
  by (simp add: from_env_def ranged_def env_get_def RECOVERY_RANGES_def unit_name_ok_def Let_def
      alphanumeric_def is_digit_def in_range_def sample_cfg_def)


theorem latch_cleared_only_by_health_witness:
  "\<exists>q qs iid. suffix (q # qs) [\<lparr>pa_unit = activating_unit, pa_record = Some ready_record, pa_clock = clock_of 100, pa_exits = []\<rparr>]
     \<and> ready_of iid q \<and> \<not> is_recent (stamp_now (pa_clock q)) (clock_of 4000) 3600"
proof -
  let ?p = "\<lambda>t. \<lparr>pa_unit = activating_unit, pa_record = Some ready_record, pa_clock = clock_of t, pa_exits = []\<rparr>"
  let ?s = "new_state\<lparr>ss_recovery_failed := True\<rparr>"
  have "ss_ready_since ?s = None" "ss_recovery_failed (fold (observe_pass sample_cfg) [?p 100] ?s)"
    "\<not> ss_recovery_failed (fold (observe_pass sample_cfg) ([?p 100] @ [?p 4000]) ?s)"
    by (simp_all add: observe_pass_def observe_def trusted_record_def observe_ready_def end_streaks_def
        activating_unit_def ready_record_def sample_cfg_def new_state_def prune_def Let_def)
  from latch_cleared_only_by_health[OF this] show ?thesis
    by (auto simp: sample_cfg_def)
qed

text \<open>
  The limits on the two windows are validated apart, and resets older than the long window are dropped
  before the short budget is looked at. With a short window of a day and a long window
  of 600 seconds, which \<open>from_env\<close> accepts, a second reset is decided while the one
  reset that the short window allows still lies within it.
\<close>

theorem short_budget_not_enforced:
  "\<exists>cfg. from_env [(''RECOVERY_SHORT_WINDOW_SECONDS'', ''86400''), (''RECOVERY_LONG_WINDOW_SECONDS'', ''600'')] = Some cfg
     \<and> max_resets_short cfg = 1 \<and> short_window cfg = 86400
     \<and> is_recent (stamp_now (clock_of 1000)) (clock_of 2000) (of_int (short_window cfg))
     \<and> fst (decide (observe (new_state\<lparr>ss_resets := [stamp_now (clock_of 1000)]\<rparr>) activating_unit None
          (clock_of 2000) cfg [exit_with ''76'' 1800, exit_with ''76'' 1900])
          activating_unit None (clock_of 2000) cfg) = ACTION_RECOVER"
proof -
  let ?cfg = "sample_cfg\<lparr>short_window := 86400, long_window := 600\<rparr>"
  have "from_env [(''RECOVERY_SHORT_WINDOW_SECONDS'', ''86400''), (''RECOVERY_LONG_WINDOW_SECONDS'', ''600'')] = Some ?cfg"
    by (simp add: from_env_def ranged_def env_get_def RECOVERY_RANGES_def unit_name_ok_def Let_def
        alphanumeric_def is_digit_def in_range_def sample_cfg_def py_int_def strip_def is_space_def
        py_nat_def digit_value_def)
  then show ?thesis
    by (intro exI[of _ ?cfg])
      (simp add: decide_recover observe_def trusted_ready_def trusted_record_def not_ready_def
      count_exit_def ble_exit_def startup_exit_def configuration_error_def reset_budget_spent_def
      exit_with_def activating_unit_def sample_cfg_def new_state_def prune_def Let_def)
qed

end
