(* ===== verification/Effects.thy ===== *)
theory Effects
  imports Prelude
begin

text \<open>
  Programs with effects and exceptions. A program runs on the history of the events it has caused;
  it returns a value or raises, and the history grows. What the outside world answers is a
  function of the history (a parameter of the program), so a theorem for every such function is
  a theorem about every behaviour of the world. \<open>spec\<close> is the triple with an invariant
  that holds after every single event, so it survives a program that is killed in the middle.
\<close>

type_synonym ('e, 'x, 'a) act = "'e list \<Rightarrow> ('x + 'a) \<times> 'e list"

definition give :: "'a \<Rightarrow> ('e, 'x, 'a) act" where
  "give x h = (Inr x, h)"

definition throw :: "'x \<Rightarrow> ('e, 'x, 'a) act" where
  "throw e h = (Inl e, h)"

definition andthen :: "('e, 'x, 'a) act \<Rightarrow> ('a \<Rightarrow> ('e, 'x, 'b) act) \<Rightarrow> ('e, 'x, 'b) act" where
  "andthen m f h = (case m h of (Inl e, h') \<Rightarrow> (Inl e, h') | (Inr x, h') \<Rightarrow> f x h')"

definition ask :: "('e list \<Rightarrow> 'a) \<Rightarrow> ('e, 'x, 'a) act" where
  "ask f h = (Inr (f h), h)"

definition emit :: "'e \<Rightarrow> ('e, 'x, unit) act" where
  "emit ev h = (Inr (), h @ [ev])"

text \<open>\<^verbatim>\<open>try: m except ...\<close>: the handler is defined on the exceptions it catches.\<close>

definition handle :: "('e, 'x, 'a) act \<Rightarrow> ('x \<Rightarrow> ('e, 'x, 'a) act option) \<Rightarrow> ('e, 'x, 'a) act" where
  "handle m k h = (case m h of
       (Inr x, h') \<Rightarrow> (Inr x, h')
     | (Inl e, h') \<Rightarrow> (case k e of None \<Rightarrow> (Inl e, h') | Some a \<Rightarrow> a h'))"

text \<open>
  \<^verbatim>\<open>try: m finally: d\<close>, where \<open>d\<close> may depend on how \<open>m\<close> ended; an exception of \<open>d\<close>
  replaces the outcome of \<open>m\<close>.
\<close>

definition finally_do :: "('e, 'x, 'a) act \<Rightarrow> ('x + 'a \<Rightarrow> ('e, 'x, unit) act) \<Rightarrow> ('e, 'x, 'a) act" where
  "finally_do m d h = (case m h of (r, h') \<Rightarrow>
     (case d r h' of (Inl e, h'') \<Rightarrow> (Inl e, h'') | (Inr u, h'') \<Rightarrow> (r, h'')))"

definition from_sum :: "('y \<Rightarrow> 'x) \<Rightarrow> 'y + 'a \<Rightarrow> ('e, 'x, 'a) act" where
  "from_sum f r = (case r of Inl e \<Rightarrow> throw (f e) | Inr x \<Rightarrow> give x)"

lemma act_simps [simp]:
  "give x h = (Inr x, h)" "throw e h = (Inl e, h)" "ask f h = (Inr (f h), h)" "emit ev h = (Inr (), h @ [ev])"
  by (simp_all add: give_def throw_def ask_def emit_def)

section \<open>Triples\<close>

definition stays :: "('e list \<Rightarrow> bool) \<Rightarrow> 'e list \<Rightarrow> 'e list \<Rightarrow> bool" where
  "stays I h h' \<longleftrightarrow> prefix h h' \<and> (\<forall>k. prefix h k \<longrightarrow> prefix k h' \<longrightarrow> I k)"

lemma stays_refl [simp]: "stays I h h \<longleftrightarrow> I h"
  by (auto simp: stays_def dest: prefix_order.antisym)

lemma stays_trans: "stays I h h' \<Longrightarrow> stays I h' h'' \<Longrightarrow> stays I h h''"
  unfolding stays_def by (metis prefix_order.trans prefix_same_cases)

lemma stays_end: "stays I h h' \<Longrightarrow> I h'"
  by (auto simp: stays_def)

lemma stays_snoc: "I h \<Longrightarrow> I (h @ [e]) \<Longrightarrow> stays I h (h @ [e])"
  unfolding stays_def by (metis prefix_order.antisym prefix_snoc prefixI)

definition spec :: "('e list \<Rightarrow> bool) \<Rightarrow> ('e list \<Rightarrow> bool) \<Rightarrow> ('e, 'x, 'a) act \<Rightarrow>
    ('a \<Rightarrow> 'e list \<Rightarrow> bool) \<Rightarrow> ('x \<Rightarrow> 'e list \<Rightarrow> bool) \<Rightarrow> bool" where
  "spec I P m Q E \<longleftrightarrow> (\<forall>h. I h \<longrightarrow> P h \<longrightarrow> stays I h (snd (m h))
     \<and> (case fst (m h) of Inr x \<Rightarrow> Q x (snd (m h)) | Inl e \<Rightarrow> E e (snd (m h))))"

named_theorems spec_rules \<open>rules for triples\<close>

lemma specD:
  assumes "spec I P m Q E" "I h" "P h"
  shows "stays I h (snd (m h))" "fst (m h) = Inr x \<Longrightarrow> Q x (snd (m h))"
    "fst (m h) = Inl e \<Longrightarrow> E e (snd (m h))"
  using assms by (auto simp: spec_def)

lemma spec_weaken:
  assumes "spec I P m Q E" "\<And>h. I h \<Longrightarrow> P' h \<Longrightarrow> P h"
    "\<And>x h. I h \<Longrightarrow> Q x h \<Longrightarrow> Q' x h" "\<And>e h. I h \<Longrightarrow> E e h \<Longrightarrow> E' e h"
  shows "spec I P' m Q' E'"
  using assms unfolding spec_def by (fastforce split: sum.splits dest: stays_end)

lemma spec_False: "spec I (\<lambda>_. False) m Q E"
  by (simp add: spec_def)

lemma spec_pre: "spec I P m Q E \<Longrightarrow> (\<And>h. I h \<Longrightarrow> P' h \<Longrightarrow> P h) \<Longrightarrow> spec I P' m Q E"
  by (rule spec_weaken)

lemma spec_give [spec_rules]: "(\<And>h. I h \<Longrightarrow> P h \<Longrightarrow> Q x h) \<Longrightarrow> spec I P (give x) Q E"
  by (simp add: spec_def)

lemma spec_throw [spec_rules]: "(\<And>h. I h \<Longrightarrow> P h \<Longrightarrow> E e h) \<Longrightarrow> spec I P (throw e) Q E"
  by (simp add: spec_def)

lemma spec_ask: "(\<And>h. I h \<Longrightarrow> P h \<Longrightarrow> Q (f h) h) \<Longrightarrow> spec I P (ask f) Q E"
  by (simp add: spec_def)

lemma spec_emit [spec_rules]:
  "(\<And>h. I h \<Longrightarrow> P h \<Longrightarrow> I (h @ [ev]) \<and> Q () (h @ [ev])) \<Longrightarrow> spec I P (emit ev) Q E"
  by (simp add: spec_def stays_snoc)

lemma spec_andthen [spec_rules]:
  assumes "spec I P m R E" "\<And>x. spec I (R x) (f x) Q E"
  shows "spec I P (andthen m f) Q E"
  unfolding spec_def
proof (intro allI impI)
  fix h
  assume h: "I h" "P h"
  obtain r h' where m: "m h = (r, h')" by force
  have s: "stays I h h'" using specD(1)[OF assms(1) h] m by simp
  show "stays I h (snd (andthen m f h)) \<and> (case fst (andthen m f h) of
      Inl e \<Rightarrow> E e (snd (andthen m f h)) | Inr x \<Rightarrow> Q x (snd (andthen m f h)))"
  proof (cases r)
    case (Inl e)
    with m s specD(3)[OF assms(1) h] show ?thesis by (simp add: andthen_def)
  next
    case (Inr x)
    then have "R x h'" using specD(2)[OF assms(1) h] m by simp
    moreover have eq: "andthen m f h = f x h'" by (simp add: andthen_def m Inr)
    ultimately show ?thesis
      using assms(2)[of x] stays_end[OF s] stays_trans[OF s] unfolding eq by (simp add: spec_def)
  qed
qed

lemma spec_handle:
  assumes "spec I P m Q E'"
    and "\<And>e a. k e = Some a \<Longrightarrow> spec I (E' e) a Q E"
    and "\<And>e h. k e = None \<Longrightarrow> I h \<Longrightarrow> E' e h \<Longrightarrow> E e h"
  shows "spec I P (handle m k) Q E"
  unfolding spec_def
proof (intro allI impI)
  fix h
  assume h: "I h" "P h"
  obtain r h' where m: "m h = (r, h')" by force
  have s: "stays I h h'" using specD(1)[OF assms(1) h] m by simp
  show "stays I h (snd (handle m k h)) \<and> (case fst (handle m k h) of
      Inl e \<Rightarrow> E e (snd (handle m k h)) | Inr x \<Rightarrow> Q x (snd (handle m k h)))"
  proof (cases r)
    case (Inr x)
    with m s specD(2)[OF assms(1) h] show ?thesis by (simp add: handle_def)
  next
    case (Inl e)
    then have e: "E' e h'" using specD(3)[OF assms(1) h] m by simp
    show ?thesis
    proof (cases "k e")
      case None
      with e m Inl s assms(3)[OF None stays_end[OF s]] show ?thesis by (simp add: handle_def)
    next
      case (Some a)
      then have eq: "handle m k h = a h'" by (simp add: handle_def m Inl)
      show ?thesis
        using assms(2)[OF Some] e stays_end[OF s] stays_trans[OF s] unfolding eq by (simp add: spec_def)
    qed
  qed
qed

lemma spec_finally_do:
  assumes "spec I P m R F" "\<And>x. spec I (R x) (d (Inr x)) (\<lambda>_. Q x) E"
    "\<And>e. spec I (F e) (d (Inl e)) (\<lambda>_. E e) E"
  shows "spec I P (finally_do m d) Q E"
  unfolding spec_def
proof (intro allI impI)
  fix h
  assume h: "I h" "P h"
  obtain r h' where m: "m h = (r, h')" by force
  obtain r' h'' where d: "d r h' = (r', h'')" by force
  have s: "stays I h h'" using specD(1)[OF assms(1) h] m by simp
  have c: "case r of Inr x \<Rightarrow> R x h' | Inl e \<Rightarrow> F e h'"
    using specD(2,3)[OF assms(1) h] m by (cases r) auto
  have s': "stays I h' h''"
    using c assms(2,3) stays_end[OF s] d by (cases r) (fastforce simp: spec_def)+
  have "case r' of Inl e \<Rightarrow> E e h'' | Inr u \<Rightarrow> (case r of Inr x \<Rightarrow> Q x h'' | Inl e \<Rightarrow> E e h'')"
    using c assms(2,3) stays_end[OF s] d by (cases r; cases r') (fastforce simp: spec_def)+
  then show "stays I h (snd (finally_do m d h)) \<and> (case fst (finally_do m d h) of
      Inl e \<Rightarrow> E e (snd (finally_do m d h)) | Inr x \<Rightarrow> Q x (snd (finally_do m d h)))"
    using m d stays_trans[OF s s'] by (simp add: finally_do_def split: sum.splits)
qed

lemma spec_if [spec_rules]:
  "(b \<Longrightarrow> spec I P m Q E) \<Longrightarrow> (\<not> b \<Longrightarrow> spec I P m' Q E) \<Longrightarrow> spec I P (if b then m else m') Q E"
  by simp

lemma spec_from_sum:
  "(\<And>h e. I h \<Longrightarrow> P h \<Longrightarrow> r = Inl e \<Longrightarrow> E (f e) h) \<Longrightarrow> (\<And>h x. I h \<Longrightarrow> P h \<Longrightarrow> r = Inr x \<Longrightarrow> Q x h)
    \<Longrightarrow> spec I P (from_sum f r) Q E"
  by (cases r) (simp_all add: from_sum_def spec_def)

section \<open>Programs that keep an invariant whatever happens\<close>

definition keeps :: "('e list \<Rightarrow> bool) \<Rightarrow> ('e, 'x, 'a) act \<Rightarrow> bool" where
  "keeps I m \<longleftrightarrow> spec I (\<lambda>_. True) m (\<lambda>_ _. True) (\<lambda>_ _. True)"

named_theorems keeps_rules \<open>rules for programs that keep an invariant\<close>

lemma keepsD: "keeps I m \<Longrightarrow> I h \<Longrightarrow> I (snd (m h))"
  unfolding keeps_def using specD(1) stays_end by blast

lemma keeps_stays: "keeps I m \<Longrightarrow> I h \<Longrightarrow> stays I h (snd (m h))"
  unfolding keeps_def using specD(1) by blast

lemma keeps_simps [keeps_rules]:
  "keeps I (give x)" "keeps I (throw e)" "keeps I (ask f)"
  by (simp_all add: keeps_def spec_def)

lemma keeps_from_sum [keeps_rules]: "keeps I (from_sum f r)"
  by (cases r) (simp_all add: from_sum_def keeps_simps)

lemma keeps_emit [keeps_rules]: "(\<And>h. I h \<Longrightarrow> I (h @ [ev])) \<Longrightarrow> keeps I (emit ev)"
  unfolding keeps_def by (rule spec_emit) simp

lemma keeps_andthen [keeps_rules]: "keeps I m \<Longrightarrow> (\<And>x. keeps I (f x)) \<Longrightarrow> keeps I (andthen m f)"
  unfolding keeps_def by (rule spec_andthen)

lemma keeps_handle [keeps_rules]:
  "keeps I m \<Longrightarrow> (\<And>e a. k e = Some a \<Longrightarrow> keeps I a) \<Longrightarrow> keeps I (handle m k)"
  unfolding keeps_def by (rule spec_handle[where E' = "\<lambda>_ _. True"])

lemma keeps_finally_do [keeps_rules]: "keeps I m \<Longrightarrow> (\<And>r. keeps I (d r)) \<Longrightarrow> keeps I (finally_do m d)"
  unfolding keeps_def by (rule spec_finally_do[where R = "\<lambda>_ _. True" and F = "\<lambda>_ _. True"])

lemma keeps_if [keeps_rules]: "(b \<Longrightarrow> keeps I m) \<Longrightarrow> (\<not> b \<Longrightarrow> keeps I m') \<Longrightarrow> keeps I (if b then m else m')"
  by simp

lemma keeps_case_option [keeps_rules]:
  "(x = None \<Longrightarrow> keeps I m) \<Longrightarrow> (\<And>y. x = Some y \<Longrightarrow> keeps I (f y)) \<Longrightarrow>
    keeps I (case x of None \<Rightarrow> m | Some y \<Rightarrow> f y)"
  by (cases x) simp_all

lemma keeps_case_sum [keeps_rules]:
  "(\<And>y. x = Inl y \<Longrightarrow> keeps I (g y)) \<Longrightarrow> (\<And>y. x = Inr y \<Longrightarrow> keeps I (f y)) \<Longrightarrow>
    keeps I (case x of Inl y \<Rightarrow> g y | Inr y \<Rightarrow> f y)"
  by (cases x) simp_all

lemma spec_any: "keeps I m \<Longrightarrow> spec I P m (\<lambda>_ _. True) (\<lambda>_ _. True)"
  unfolding keeps_def by (erule spec_pre) simp

lemma stays_weaken: "stays I h h' \<Longrightarrow> (\<And>k. I k \<Longrightarrow> J k) \<Longrightarrow> stays J h h'"
  by (simp add: stays_def)

lemma spec_frame: "keeps (\<lambda>h. I h \<and> P h) m \<Longrightarrow> spec I P m (\<lambda>_. P) (\<lambda>_. P)"
proof (unfold spec_def, intro allI impI)
  fix h
  assume "keeps (\<lambda>h. I h \<and> P h) m" "I h" "P h"
  then have s: "stays (\<lambda>h. I h \<and> P h) h (snd (m h))" by (simp add: keeps_stays)
  then have "stays I h (snd (m h))" by (rule stays_weaken) simp
  with stays_end[OF s] show "stays I h (snd (m h))
      \<and> (case fst (m h) of Inl e \<Rightarrow> P (snd (m h)) | Inr x \<Rightarrow> P (snd (m h)))"
    by (simp split: sum.split)
qed

lemma spec_framed: "keeps (\<lambda>h. I h \<and> P h) m \<Longrightarrow> spec I P m (\<lambda>_. P) (\<lambda>_ _. True)"
  by (drule spec_frame) (erule spec_weaken; simp)

lemma keeps_extends: "keeps I m \<Longrightarrow> I h \<Longrightarrow> prefix h (snd (m h))"
  using keeps_stays[of I m h] by (simp add: stays_def)

lemma monotone_history:
  assumes "prefix h h'" "\<And>h e. f h \<le> f (h @ [e])"
  shows "f h \<le> (f h' :: 'b::preorder)"
proof -
  have "f h \<le> f (h @ es)" for es
  proof (induction es rule: rev_induct)
    case (snoc e es)
    from snoc assms(2)[of "h @ es" e] show ?case by (simp add: order_trans)
  qed simp
  with assms(1) show ?thesis by (auto simp: prefix_def)
qed

section \<open>Which exceptions a program raises\<close>

definition raises :: "('x \<Rightarrow> bool) \<Rightarrow> ('e, 'x, 'a) act \<Rightarrow> bool" where
  "raises X m \<longleftrightarrow> spec (\<lambda>_. True) (\<lambda>_. True) m (\<lambda>_ _. True) (\<lambda>e _. X e)"

named_theorems raises_rules \<open>rules for the exceptions of programs\<close>

lemma raisesD: "raises X m \<Longrightarrow> fst (m h) = Inl e \<Longrightarrow> X e"
  using specD(3)[of "\<lambda>_. True" "\<lambda>_. True" m _ _ h e] unfolding raises_def by blast

lemma raises_weaken: "raises X m \<Longrightarrow> (\<And>e. X e \<Longrightarrow> Y e) \<Longrightarrow> raises Y m"
  unfolding raises_def by (erule spec_weaken) auto

lemma raises_extends: "raises X m \<Longrightarrow> prefix h (snd (m h))"
  using specD(1)[of "\<lambda>_. True" "\<lambda>_. True" m _ _ h] unfolding raises_def stays_def by blast

lemma raises_simps [raises_rules]: "raises X (give x)" "raises X (ask f)" "raises X (emit ev)"
  by (simp_all add: raises_def spec_def stays_def)

lemma raises_throw [raises_rules]: "X e \<Longrightarrow> raises X (throw e)"
  by (simp add: raises_def spec_def)

lemma raises_from_sum [raises_rules]: "(\<And>e. r = Inl e \<Longrightarrow> X (f e)) \<Longrightarrow> raises X (from_sum f r)"
  by (cases r) (simp_all add: from_sum_def raises_throw raises_simps)

lemma raises_andthen [raises_rules]: "raises X m \<Longrightarrow> (\<And>x. raises X (f x)) \<Longrightarrow> raises X (andthen m f)"
  unfolding raises_def by (rule spec_andthen)

lemma raises_handle:
  assumes "raises Y m" "\<And>e a. k e = Some a \<Longrightarrow> raises X a" "\<And>e. k e = None \<Longrightarrow> Y e \<Longrightarrow> X e"
  shows "raises X (handle m k)"
  unfolding raises_def
proof (rule spec_handle[where E' = "\<lambda>e _. Y e"])
  show "spec (\<lambda>_. True) (\<lambda>_. Y e) a (\<lambda>_ _. True) (\<lambda>e _. X e)" if "k e = Some a" for e a
    by (rule spec_pre[OF assms(2)[OF that, unfolded raises_def]]) simp
qed (use assms in \<open>simp_all add: raises_def\<close>)

lemma raises_finally_do [raises_rules]:
  assumes "raises X m" "\<And>r. raises X (d r)"
  shows "raises X (finally_do m d)"
  unfolding raises_def
proof (rule spec_finally_do[where R = "\<lambda>_ _. True" and F = "\<lambda>e _. X e"])
  show "spec (\<lambda>_. True) (\<lambda>_. X e) (d (Inl e)) (\<lambda>_ _. X e) (\<lambda>e _. X e)" for e
    using assms(2)[of "Inl e"] unfolding raises_def spec_def by (auto split: sum.splits)
qed (use assms in \<open>simp_all add: raises_def\<close>)

lemma raises_if [raises_rules]: "(b \<Longrightarrow> raises X m) \<Longrightarrow> (\<not> b \<Longrightarrow> raises X m') \<Longrightarrow> raises X (if b then m else m')"
  by simp

lemma raises_case_option [raises_rules]:
  "(x = None \<Longrightarrow> raises X m) \<Longrightarrow> (\<And>y. x = Some y \<Longrightarrow> raises X (f y)) \<Longrightarrow>
    raises X (case x of None \<Rightarrow> m | Some y \<Rightarrow> f y)"
  by (cases x) simp_all

lemma raises_case_sum [raises_rules]:
  "(\<And>y. x = Inl y \<Longrightarrow> raises X (g y)) \<Longrightarrow> (\<And>y. x = Inr y \<Longrightarrow> raises X (f y)) \<Longrightarrow>
    raises X (case x of Inl y \<Rightarrow> g y | Inr y \<Rightarrow> f y)"
  by (cases x) simp_all

lemma stable_prefix: "prefix h h' \<Longrightarrow> (\<And>h e. P h \<Longrightarrow> P (h @ [e])) \<Longrightarrow> P h \<Longrightarrow> P h'"
  using monotone_history[of h h' P] by simp

lemma spec_stable:
  assumes "raises X m" "\<And>h e. P h \<Longrightarrow> P (h @ [e])"
  shows "spec (\<lambda>_. True) P m (\<lambda>_. P) (\<lambda>e h. P h \<and> X e)"
proof (unfold spec_def, intro allI impI)
  fix h
  assume "P h"
  with stable_prefix[OF raises_extends[OF assms(1)], of P] assms(2) have "P (snd (m h))" by blast
  with raisesD[OF assms(1), of h] raises_extends[OF assms(1), of h]
  show "stays (\<lambda>_. True) h (snd (m h)) \<and> (case fst (m h) of
      Inl e \<Rightarrow> P (snd (m h)) \<and> X e | Inr x \<Rightarrow> P (snd (m h)))"
    by (simp add: stays_def split: sum.split)
qed

section \<open>Conditions on what precedes an event\<close>

definition guarded :: "('e list \<Rightarrow> 'e \<Rightarrow> bool) \<Rightarrow> 'e list \<Rightarrow> bool" where
  "guarded G h \<longleftrightarrow> (\<forall>a ev c. h = a @ ev # c \<longrightarrow> G a ev)"

lemma guarded_simps [simp]:
  "guarded G []"
  "guarded G (h @ [ev]) \<longleftrightarrow> guarded G h \<and> G h ev"
proof -
  show "guarded G (h @ [ev]) \<longleftrightarrow> guarded G h \<and> G h ev"
  proof
    assume g: "guarded G (h @ [ev])"
    then have "G a e" if "h = a @ e # c" for a e c
      using that unfolding guarded_def by simp
    with g show "guarded G h \<and> G h ev" unfolding guarded_def by blast
  next
    assume g: "guarded G h \<and> G h ev"
    show "guarded G (h @ [ev])" unfolding guarded_def
    proof (intro allI impI)
      fix a e c
      assume "h @ [ev] = a @ e # c"
      with g show "G a e" by (cases c rule: rev_cases) (auto simp: guarded_def)
    qed
  qed
qed (simp add: guarded_def)

text \<open>In the components programs stay programs: they are not unfolded at a history.\<close>

declare act_simps [simp del]

end
