(* ===== verification/Supervisor_Run.thy ===== *)
theory Supervisor_Run
  imports Supervisor_Decide Effects
begin

text \<open>
  The effects of \<^verbatim>\<open>scripts/bridge_recovery.py\<close>: systemctl behind its allowlist, polling with a deadline, the
  Bluetooth reset, the plain restart, the terminal stop, one pass of the supervisor and the
  command line. The kernel, systemd, the clocks and the other processes are a \<open>world\<close> that
  answers each request as a function of the events so far.
\<close>

section \<open>The outside world\<close>

datatype failure = Service_Manager string | Os_Error | Record_Error exn | Out_Of_Fuel

text \<open>A process ran to completion (its code and decoded output), did not start, or timed out.\<close>

datatype proc = Completed int string | No_Process | Timed_Out

datatype event =
  Locked
| Unlocked
| Ran "string list" time proc
| Slept time
| Saved sup_state
| Consumed "exit_entry list"
| Exit_Logged loaded
| Logged int string
| Printed json

type_synonym history = "event list"
type_synonym 'a run = "(event, failure, 'a) act"

record world =
  w_clock :: "history \<Rightarrow> clock"
  w_run :: "history \<Rightarrow> string list \<Rightarrow> time \<Rightarrow> proc"
  w_record :: "history \<Rightarrow> (nat \<times> loaded) option"
  w_proc_stat :: "history \<Rightarrow> int \<Rightarrow> string option"
  w_exits :: "history \<Rightarrow> loaded"
  w_state_file :: state_file
  w_disk_error :: "history \<Rightarrow> bool"
  w_lock_free :: "history \<Rightarrow> bool"

section \<open>Files\<close>

text \<open>The state file holds the last state saved, or what it held at the start.\<close>

fun last_saved :: "history \<Rightarrow> sup_state option \<Rightarrow> sup_state option" where
  "last_saved [] acc = acc"
| "last_saved (Saved s # h) acc = last_saved h (Some s)"
| "last_saved (_ # h) acc = last_saved h acc"

definition state_file_now :: "world \<Rightarrow> history \<Rightarrow> state_file" where
  "state_file_now w h = (case last_saved h None of
     None \<Rightarrow> w_state_file w | Some s \<Rightarrow> Text (Value (state_json s)))"

definition read_state :: "world \<Rightarrow> sup_state run" where
  "read_state w = andthen (ask (\<lambda>h. load_state (state_file_now w h))) (from_sum Record_Error)"

definition save_state :: "world \<Rightarrow> sup_state \<Rightarrow> unit run" where
  "save_state w s = andthen (ask (w_disk_error w)) (\<lambda>bad. if bad then throw Os_Error else emit (Saved s))"

definition exclusive_lock :: "world \<Rightarrow> (bool \<Rightarrow> 'a run) \<Rightarrow> 'a run" where
  "exclusive_lock w body =
     andthen (ask (w_disk_error w)) (\<lambda>bad. if bad then throw Os_Error
     else andthen (ask (w_lock_free w)) (\<lambda>free. if \<not> free then body False
     else andthen (emit Locked) (\<lambda>_. finally_do (body True) (\<lambda>_. emit Unlocked))))"

definition take_exits :: "world \<Rightarrow> exit_entry list run" where
  "take_exits w =
     andthen (ask (w_disk_error w)) (\<lambda>bad. if bad then throw Os_Error
     else andthen (ask (\<lambda>h. consume_exits (w_exits w h))) (\<lambda>r.
          andthen (from_sum Record_Error r) (\<lambda>x.
          andthen (emit (Consumed (fst x))) (\<lambda>_. give (fst x)))))"

section \<open>The record of the bridge's process\<close>

text \<open>\<^verbatim>\<open>s.split()\<close>\<close>

fun words_acc :: "string \<Rightarrow> string \<Rightarrow> string list" where
  "words_acc acc [] = (if acc = [] then [] else [rev acc])"
| "words_acc acc (c # s) =
     (if is_space c then (if acc = [] then [] else [rev acc]) @ words_acc [] s else words_acc (c # acc) s)"

text \<open>\<^verbatim>\<open>process_start_ticks\<close> on the text of \<^verbatim>\<open>/proc/<pid>/stat\<close>: the 20th field after the last parenthesis.\<close>

definition start_ticks_of_stat :: "string option \<Rightarrow> int option" where
  "start_ticks_of_stat txt =
     (case txt of
        None \<Rightarrow> None
      | Some s \<Rightarrow>
          if CHR '')'' \<notin> set s then None
          else let fields = words_acc [] (rev (takeWhile (\<lambda>c. c \<noteq> CHR '')'') (rev s)))
               in if length fields \<le> 19 then None else py_int (fields ! 19))"

definition load_record :: "world \<Rightarrow> record_view option run" where
  "load_record w = andthen
     (ask (\<lambda>h. case w_record w h of
                None \<Rightarrow> Inr None
              | Some (n, raw) \<Rightarrow> parse_record n raw (ck_boot_id (w_clock w h))
                                   (\<lambda>pid. start_ticks_of_stat (w_proc_stat w h pid))))
     (from_sum Record_Error)"

section \<open>The service manager\<close>

definition VERBS :: "string list" where
  "VERBS = [''stop'', ''start'', ''restart'', ''reset-failed'']"

definition UNIT_PROPERTIES :: "string list" where
  "UNIT_PROPERTIES = [''ActiveState'', ''SubState'', ''MainPID'', ''Result'', ''ExecMainStatus'']"

definition check_unit :: "string list \<Rightarrow> string \<Rightarrow> unit run" where
  "check_unit allowed u =
     (if u \<notin> set allowed then throw (Service_Manager ''unit is not allowlisted'') else give ())"

definition run_process :: "world \<Rightarrow> string list \<Rightarrow> time \<Rightarrow> proc run" where
  "run_process w args timeout =
     andthen (ask (\<lambda>h. w_run w h args timeout)) (\<lambda>r. andthen (emit (Ran args timeout r)) (\<lambda>_. give r))"

definition systemctl :: "world \<Rightarrow> string list \<Rightarrow> string \<Rightarrow> string \<Rightarrow> time \<Rightarrow> unit run" where
  "systemctl w allowed verb u timeout =
     (if verb \<notin> set VERBS then throw (Service_Manager ''verb is not allowlisted'')
      else andthen (check_unit allowed u) (\<lambda>_.
           andthen (run_process w [verb, u] timeout) (\<lambda>r. case r of
               Completed code out \<Rightarrow> if code \<noteq> 0 then throw (Service_Manager verb) else give ()
             | _ \<Rightarrow> throw (Service_Manager verb))))"

definition line_break :: "char \<Rightarrow> bool" where
  "line_break c \<longleftrightarrow> (of_char c :: nat) \<in> {10, 11, 12, 13, 28, 29, 30}"

text \<open>\<^verbatim>\<open>s.splitlines()\<close>; a carriage return and a line feed are one break.\<close>

fun lines_acc :: "string \<Rightarrow> string \<Rightarrow> string list" where
  "lines_acc acc [] = (if acc = [] then [] else [rev acc])"
| "lines_acc acc [c] = (if line_break c then [rev acc] else [rev (c # acc)])"
| "lines_acc acc (c # d # s) =
     (if (of_char c :: nat) = 13 \<and> (of_char d :: nat) = 10 then rev acc # lines_acc [] s
      else if line_break c then rev acc # lines_acc [] (d # s)
      else lines_acc (c # acc) (d # s))"

text \<open>The dictionary of a show: a later line replaces an earlier one, so it comes first.\<close>

definition parse_properties :: "string \<Rightarrow> (string \<times> string) list" where
  "parse_properties out =
     rev (map (\<lambda>l. (takeWhile (\<lambda>c. c \<noteq> CHR ''='') l, strip (drop 1 (dropWhile (\<lambda>c. c \<noteq> CHR ''='') l))))
       (filter (\<lambda>l. takeWhile (\<lambda>c. c \<noteq> CHR ''='') l \<in> set UNIT_PROPERTIES) (lines_acc [] out)))"

abbreviation "PROPERTY_ARGUMENT \<equiv> ''--property=ActiveState,SubState,MainPID,Result,ExecMainStatus''"

definition show_unit :: "world \<Rightarrow> string list \<Rightarrow> string \<Rightarrow> (string \<times> string) list run" where
  "show_unit w allowed u =
     andthen (check_unit allowed u) (\<lambda>_.
     andthen (run_process w [''show'', u, PROPERTY_ARGUMENT] 15) (\<lambda>r. case r of
         Completed code out \<Rightarrow> if code \<noteq> 0 then throw (Service_Manager ''show'') else give (parse_properties out)
       | _ \<Rightarrow> throw (Service_Manager ''show'')))"

text \<open>\<^verbatim>\<open>except ServiceManagerError\<close>\<close>

definition on_service_error :: "'a run \<Rightarrow> (string \<Rightarrow> 'a run) \<Rightarrow> 'a run" where
  "on_service_error m k = handle m (\<lambda>e. case e of Service_Manager v \<Rightarrow> Some (k v) | _ \<Rightarrow> None)"

section \<open>Polling\<close>

text \<open>
  \<^verbatim>\<open>_wait_until\<close>. The fuel is one more than the sleeps that fit before the deadline; on a clock that
  advances by at least what the process sleeps it never runs out (\<open>wait_until_fuel\<close>).
\<close>

fun poll_loop :: "nat \<Rightarrow> world \<Rightarrow> bool run \<Rightarrow> time \<Rightarrow> time \<Rightarrow> bool run" where
  "poll_loop 0 w p deadline interval = throw Out_Of_Fuel"
| "poll_loop (Suc n) w p deadline interval =
     andthen (on_service_error p (\<lambda>_. give False)) (\<lambda>ok.
       if ok then give True
       else andthen (ask (\<lambda>h. ck_monotonic (w_clock w h))) (\<lambda>now.
         if now \<ge> deadline then give False
         else andthen (emit (Slept interval)) (\<lambda>_. poll_loop n w p deadline interval)))"

definition poll_fuel :: "time \<Rightarrow> time \<Rightarrow> nat" where
  "poll_fuel timeout interval = Suc (nat \<lceil>timeout / interval\<rceil>)"

definition wait_until :: "world \<Rightarrow> bool run \<Rightarrow> time \<Rightarrow> time \<Rightarrow> bool run" where
  "wait_until w p timeout interval =
     andthen (ask (\<lambda>h. ck_monotonic (w_clock w h))) (\<lambda>now.
       poll_loop (poll_fuel timeout interval) w p (now + timeout) interval)"

definition stopped_properties :: "(string \<times> string) list \<Rightarrow> bool" where
  "stopped_properties props \<longleftrightarrow> map_of props ''MainPID'' = Some ''0''
     \<and> map_of props ''ActiveState'' \<in> {Some ''inactive'', Some ''failed''}"

definition fully_stopped :: "world \<Rightarrow> string list \<Rightarrow> string \<Rightarrow> bool run" where
  "fully_stopped w allowed u = andthen (show_unit w allowed u) (\<lambda>props. give (stopped_properties props))"

definition is_active :: "world \<Rightarrow> string list \<Rightarrow> string \<Rightarrow> bool run" where
  "is_active w allowed u =
     andthen (show_unit w allowed u) (\<lambda>props. give (map_of props ''ActiveState'' = Some ''active''))"

section \<open>The Bluetooth reset\<close>

abbreviation "bridge_systemctl w allowed cfg verb \<equiv>
  systemctl w allowed verb (bridge_unit cfg) (of_int (stop_timeout cfg))"

abbreviation "bridge_stopped w allowed cfg \<equiv>
  wait_until w (fully_stopped w allowed (bridge_unit cfg)) (of_int (stop_timeout cfg)) (poll_interval cfg)"

definition latched :: "string \<Rightarrow> sup_state \<Rightarrow> sup_state" where
  "latched reason s = s\<lparr>ss_recovery_failed := True, ss_terminal_stop_pending := True,
     ss_reason := reason, ss_last_result := ''recovery_failed''\<rparr>"

text \<open>The inner function \<^verbatim>\<open>fail\<close>; the new state is returned.\<close>

definition fail_recovery :: "world \<Rightarrow> string \<Rightarrow> sup_state \<Rightarrow> sup_state run" where
  "fail_recovery w reason s =
     andthen (save_state w (latched reason s)) (\<lambda>_.
     andthen (emit (Logged 2 (''Casambi bridge recovery failed: '' @ reason @ ''; no further resets''))) (\<lambda>_.
     give (latched reason s)))"

text \<open>The steps after the stop; None, or the reason of a failure.\<close>

definition reset_bluetooth :: "world \<Rightarrow> string list \<Rightarrow> settings \<Rightarrow> string option run" where
  "reset_bluetooth w allowed cfg =
     andthen (take_exits w) (\<lambda>_.
     andthen (systemctl w allowed ''restart'' BLUETOOTH_UNIT (of_int (stop_timeout cfg))) (\<lambda>_.
     andthen (wait_until w (is_active w allowed BLUETOOTH_UNIT) (of_int (stop_timeout cfg)) (poll_interval cfg)) (\<lambda>active.
     if \<not> active then give (Some ''bluetooth_restart_timeout'')
     else andthen (show_unit w allowed (bridge_unit cfg)) (\<lambda>props.
     andthen (if map_of props ''Result'' = Some ''start-limit-hit''
              then bridge_systemctl w allowed cfg ''reset-failed'' else give ()) (\<lambda>_.
     andthen (bridge_systemctl w allowed cfg ''start'') (\<lambda>_. give None))))))"

definition reset_steps :: "world \<Rightarrow> string list \<Rightarrow> settings \<Rightarrow> string option run" where
  "reset_steps w allowed cfg =
     andthen (bridge_stopped w allowed cfg) (\<lambda>stopped.
       if \<not> stopped then give (Some ''bridge_stop_timeout'') else reset_bluetooth w allowed cfg)"

text \<open>What follows the steps: a reason is persisted as a failure.\<close>

definition report :: "world \<Rightarrow> sup_state \<Rightarrow> string option \<Rightarrow> sup_state option run" where
  "report w s r = (case r of
       None \<Rightarrow> give None
     | Some reason \<Rightarrow> andthen (fail_recovery w reason s) (\<lambda>s'. give (Some s')))"

text \<open>The \<^verbatim>\<open>finally\<close> clause.\<close>

definition start_again :: "world \<Rightarrow> string list \<Rightarrow> settings \<Rightarrow> failure + sup_state option \<Rightarrow> unit run" where
  "start_again w allowed cfg outcome = (case outcome of
       Inr None \<Rightarrow> give ()
     | _ \<Rightarrow> on_service_error (bridge_systemctl w allowed cfg ''start'') (\<lambda>_. give ()))"

text \<open>
  The \<^verbatim>\<open>try\<close> statement: None when the bridge was started, or the latched state. Its \<^verbatim>\<open>finally\<close> starts
  a bridge that was stopped and not started again.
\<close>

definition stop_and_reset :: "world \<Rightarrow> string list \<Rightarrow> settings \<Rightarrow> sup_state \<Rightarrow> sup_state option run" where
  "stop_and_reset w allowed cfg s =
     andthen (on_service_error (andthen (bridge_systemctl w allowed cfg ''stop'') (\<lambda>_. give None))
                (\<lambda>v. give (Some (''service_manager_'' @ v)))) (\<lambda>r. case r of
       Some reason \<Rightarrow> report w s r
     | None \<Rightarrow> finally_do
         (andthen (on_service_error (reset_steps w allowed cfg) (\<lambda>v. give (Some (''service_manager_'' @ v)))) (report w s))
         (start_again w allowed cfg))"

definition recovered :: "world \<Rightarrow> string list \<Rightarrow> settings \<Rightarrow> record_view option \<Rightarrow> bool run" where
  "recovered w allowed cfg previous =
     andthen (show_unit w allowed (bridge_unit cfg)) (\<lambda>props.
     andthen (load_record w) (\<lambda>rv. give (case trusted_record rv (from_properties props) of
         None \<Rightarrow> False
       | Some r \<Rightarrow> rv_phase r = ''ready'' \<and> map_option rv_instance_id previous \<noteq> Some (rv_instance_id r))))"

definition charge_reset :: "clock \<Rightarrow> sup_state \<Rightarrow> sup_state" where
  "charge_reset clock s = s\<lparr>ss_resets := ss_resets s @ [stamp_now clock], ss_last_result := ''in_progress''\<rparr>"

definition verify_result :: "world \<Rightarrow> settings \<Rightarrow> bool \<Rightarrow> sup_state \<Rightarrow> (bool \<times> sup_state) run" where
  "verify_result w cfg ok s =
     (if \<not> ok then
        let s1 = s\<lparr>ss_last_result := ''verify_failed''\<rparr> in
        andthen (ask (w_clock w)) (\<lambda>clock.
        if int (length (recent (ss_resets s1) clock (of_int (long_window cfg)))) \<ge> max_resets_long cfg
        then andthen (fail_recovery w ''verify_failed_budget_exhausted'' s1) (\<lambda>s2. give (False, s2))
        else andthen (save_state w s1) (\<lambda>_.
             andthen (emit (Logged 3 ''Casambi bridge did not report ready after the Bluetooth reset'')) (\<lambda>_.
             give (False, s1))))
      else
        let s1 = s\<lparr>ss_ble_failures := [], ss_startup_failure_streak := 0, ss_last_result := ''recovered''\<rparr> in
        andthen (save_state w s1) (\<lambda>_.
        andthen (emit (Logged 5 ''Casambi bridge recovered after a Bluetooth reset'')) (\<lambda>_.
        give (True, s1))))"

definition reset_and_verify :: "world \<Rightarrow> string list \<Rightarrow> settings \<Rightarrow> sup_state \<Rightarrow> record_view option \<Rightarrow> (bool \<times> sup_state) run" where
  "reset_and_verify w allowed cfg s previous =
     andthen (stop_and_reset w allowed cfg s) (\<lambda>failed. case failed of
         Some s' \<Rightarrow> give (False, s')
       | None \<Rightarrow>
           andthen (wait_until w (recovered w allowed cfg previous) (of_int (verify_seconds cfg)) (poll_interval cfg))
             (\<lambda>ok. verify_result w cfg ok s))"

definition recover :: "world \<Rightarrow> string list \<Rightarrow> settings \<Rightarrow> sup_state \<Rightarrow> record_view option \<Rightarrow> (bool \<times> sup_state) run" where
  "recover w allowed cfg s previous =
     andthen (ask (w_clock w)) (\<lambda>clock.
     andthen (save_state w (charge_reset clock s)) (\<lambda>_.
     andthen (emit (Logged 4 ''Repeated Casambi BLE startup failure: resetting Bluetooth once'')) (\<lambda>_.
     reset_and_verify w allowed cfg (charge_reset clock s) previous)))"

section \<open>Plain restart and terminal stop\<close>

definition restart_bridge :: "world \<Rightarrow> string list \<Rightarrow> settings \<Rightarrow> sup_state \<Rightarrow> sup_state run" where
  "restart_bridge w allowed cfg s =
     andthen (ask (w_clock w)) (\<lambda>clock.
     let s1 = s\<lparr>ss_plain_restarts := ss_plain_restarts s @ [stamp_now clock],
                ss_plain_restart_streak := ss_plain_restart_streak s + 1\<rparr> in
     andthen (on_service_error
        (andthen (bridge_systemctl w allowed cfg ''reset-failed'') (\<lambda>_.
         andthen (bridge_systemctl w allowed cfg ''start'') (\<lambda>_. give True)))
        (\<lambda>_. give False)) (\<lambda>ok.
     if \<not> ok then
       andthen (emit (Logged 3 ''Casambi bridge restart after systemd gave up failed'')) (\<lambda>_.
       give (s1\<lparr>ss_last_result := ''bridge_restart_failed''\<rparr>))
     else
       andthen (emit (Logged 5 ''Casambi bridge restarted after systemd gave up (no Bluetooth reset)'')) (\<lambda>_.
       give (s1\<lparr>ss_last_result := ''bridge_restarted''\<rparr>))))"

definition stop_terminally :: "world \<Rightarrow> string list \<Rightarrow> settings \<Rightarrow> sup_state \<Rightarrow> unit run" where
  "stop_terminally w allowed cfg s =
     andthen (on_service_error (andthen (bridge_systemctl w allowed cfg ''stop'') (\<lambda>_. give True)) (\<lambda>_. give False)) (\<lambda>ok.
     if \<not> ok then emit (Logged 3 ''Unable to stop the bridge after recovery gave up'')
     else andthen (bridge_stopped w allowed cfg) (\<lambda>stopped.
     if \<not> stopped then emit (Logged 3 ''Bridge terminal stop not yet verified; will retry'')
     else andthen (save_state w (s\<lparr>ss_terminal_stop_pending := False\<rparr>)) (\<lambda>_.
          emit (Logged 2 ''Casambi bridge terminal stop verified; recovery remains latched''))))"

section \<open>One pass, and the command line\<close>

text \<open>The actions of a decision; the value is what the pass returns.\<close>

definition act_on :: "world \<Rightarrow> string list \<Rightarrow> settings \<Rightarrow> sup_state \<Rightarrow> unit_view \<Rightarrow> record_view option \<Rightarrow> decision \<Rightarrow> string run" where
  "act_on w allowed cfg s u rv d =
     (case fst d of
        ACTION_LATCH \<Rightarrow>
          andthen (save_state w (latched (snd d) s)) (\<lambda>_.
          andthen (emit (Logged 2 (''Casambi bridge recovery failed: '' @ snd d @ ''; no reset''))) (\<lambda>_.
          andthen (stop_terminally w allowed cfg (latched (snd d) s)) (\<lambda>_. give (snd d))))
      | ACTION_RESTART \<Rightarrow>
          andthen (restart_bridge w allowed cfg s) (\<lambda>s1.
          andthen (save_state w s1) (\<lambda>_. give (ss_last_result s1)))
      | ACTION_STOP \<Rightarrow>
          andthen (save_state w s) (\<lambda>_.
          andthen (stop_terminally w allowed cfg s) (\<lambda>_. give (snd d)))
      | ACTION_NONE \<Rightarrow> andthen (save_state w s) (\<lambda>_. give (snd d))
      | ACTION_RECOVER \<Rightarrow>
          andthen (save_state w s) (\<lambda>_.
          andthen (recover w allowed cfg s (trusted_record rv u)) (\<lambda>r.
          if ss_recovery_failed (snd r)
          then andthen (stop_terminally w allowed cfg (snd r)) (\<lambda>_. give (ss_last_result (snd r)))
          else give (ss_last_result (snd r)))))"

definition locked_pass :: "world \<Rightarrow> string list \<Rightarrow> settings \<Rightarrow> string run" where
  "locked_pass w allowed cfg =
     andthen (on_service_error (andthen (show_unit w allowed (bridge_unit cfg)) (\<lambda>props. give (Some (from_properties props))))
        (\<lambda>_. andthen (emit (Logged 3 ''Unable to read the bridge unit state; nothing done'')) (\<lambda>_. give None))) (\<lambda>r. case r of
       None \<Rightarrow> give ''systemd_unavailable''
     | Some u \<Rightarrow>
         andthen (read_state w) (\<lambda>s0.
         andthen (load_record w) (\<lambda>rv.
         andthen (take_exits w) (\<lambda>exits.
         andthen (ask (w_clock w)) (\<lambda>clock.
         let s = observe s0 u rv clock cfg exits in
         andthen (if ss_recovery_failed s0 \<and> \<not> ss_recovery_failed s
                  then emit (Logged 5 ''Bridge observed healthy for a long period; latch cleared'') else give ()) (\<lambda>_.
         act_on w allowed cfg s u rv (decide s u rv clock cfg)))))))"

definition run_once :: "world \<Rightarrow> string list \<Rightarrow> settings \<Rightarrow> string run" where
  "run_once w allowed cfg = exclusive_lock w (\<lambda>acquired.
     if \<not> acquired then andthen (emit (Logged 6 ''Another recovery run holds the lock; nothing to do'')) (\<lambda>_. give ''locked'')
     else locked_pass w allowed cfg)"

datatype command = Run | Status | Reset | Record_Exit

text \<open>The hook: an \<^verbatim>\<open>OSError\<close> is suppressed, any other exception is not.\<close>

definition record_exit_command :: "world \<Rightarrow> (string \<times> string) list \<Rightarrow> unit run" where
  "record_exit_command w env = handle
     (andthen (ask (w_disk_error w)) (\<lambda>bad. if bad then throw Os_Error
      else andthen (ask (\<lambda>h. record_exit env (w_clock w h) (w_exits w h))) (\<lambda>r.
           andthen (from_sum Record_Error r) (\<lambda>x.
           if fst x then emit (Exit_Logged (snd x)) else give ()))))
     (\<lambda>e. case e of Os_Error \<Rightarrow> Some (give ()) | _ \<Rightarrow> None)"

definition main :: "world \<Rightarrow> (string \<times> string) list \<Rightarrow> command \<Rightarrow> int run" where
  "main w env cmd =
     (case from_env env of
        None \<Rightarrow> andthen (emit (Logged 3 ''Invalid recovery settings'')) (\<lambda>_. give 78)
      | Some cfg \<Rightarrow> (case cmd of
            Record_Exit \<Rightarrow> andthen (record_exit_command w env) (\<lambda>_. give 0)
          | Status \<Rightarrow> andthen (read_state w) (\<lambda>s. andthen (emit (Printed (state_json s))) (\<lambda>_. give 0))
          | Reset \<Rightarrow>
              andthen (exclusive_lock w (\<lambda>acquired.
                if \<not> acquired then andthen (emit (Logged 3 ''A recovery run is active; try again'')) (\<lambda>_. give False)
                else andthen (save_state w (new_state\<lparr>ss_last_result := ''operator_reset''\<rparr>)) (\<lambda>_. give True)))
              (\<lambda>ok. if \<not> ok then give 75
                   else andthen (emit (Logged 5 ''Recovery state reset by operator'')) (\<lambda>_. give 0))
          | Run \<Rightarrow> andthen (run_once w [bridge_unit cfg, BLUETOOTH_UNIT] cfg) (\<lambda>_. give 0)))"

section \<open>A concrete world\<close>

definition is_consumed :: "event \<Rightarrow> bool" where
  "is_consumed ev = (case ev of Consumed es \<Rightarrow> True | _ \<Rightarrow> False)"

definition started :: "history \<Rightarrow> bool" where
  "started h \<longleftrightarrow> list_ex (\<lambda>ev. case ev of Ran args t r \<Rightarrow> args = [''start'', DEFAULT_BRIDGE_UNIT] | _ \<Rightarrow> False) h"

definition sample_show :: "history \<Rightarrow> string" where
  "sample_show h = (if started h then ''MainPID=7'' @ [CHR 0x0A] @ ''ActiveState=active''
     else ''MainPID=0'' @ [CHR 0x0A] @ ''ActiveState=failed'')"

definition sample_record :: json where
  "sample_record = JObj [(''record_version'', JInt 1), (''instance_id'', JStr (replicate 32 (CHR ''b''))),
     (''pid'', JInt 7), (''start_ticks'', JInt 5), (''boot_id'', JStr (replicate 36 (CHR ''c''))),
     (''phase'', JStr ''ready''), (''error'', JStr ''none''), (''ble'', JStr ''connected''),
     (''mqtt'', JStr ''connected''), (''ever_ready'', JBool True), (''ready_since_monotonic'', JInt 1),
     (''updated_monotonic'', JInt 1)]"

text \<open>The exit log holds these entries until they are consumed.\<close>

definition sample_world :: "exit_entry list \<Rightarrow> world" where
  "sample_world exits = \<lparr>
     w_clock = (\<lambda>h. \<lparr>ck_wall = 100, ck_monotonic = sum_list (map (\<lambda>ev. case ev of Slept d \<Rightarrow> max 0 d | _ \<Rightarrow> 0) h),
                    ck_boottime = 100, ck_boot_id = Some (replicate 36 (CHR ''c''))\<rparr>),
     w_run = (\<lambda>h args timeout. case args of
                [verb, u, p] \<Rightarrow> Completed 0 (if u = BLUETOOTH_UNIT then ''ActiveState=active'' else sample_show h)
              | _ \<Rightarrow> Completed 0 []),
     w_record = (\<lambda>h. if started h then Some (400, Value sample_record) else None),
     w_proc_stat = (\<lambda>h pid. Some (''7 (python) S 1 1 1 0 1 1 1 1 1 1 1 1 1 1 1 1 1 1 5 1'')),
     w_exits = (\<lambda>h. Value (JArr (if list_ex is_consumed h then [] else map exit_json exits))),
     w_state_file = Missing, w_disk_error = (\<lambda>h. False), w_lock_free = (\<lambda>h. True)\<rparr>"

abbreviation "sample_units \<equiv> [DEFAULT_BRIDGE_UNIT, BLUETOOTH_UNIT]"

end
