(* ===== verification/Supervisor_Safety.thy ===== *)
theory Supervisor_Safety
  imports Supervisor_Run
begin

text \<open>
  What the supervisor's programs do in every world: which processes they start, what must have happened
  before Bluetooth is restarted or a terminal stop is settled, what a latched pass does, that a
  stopped bridge is started again, and that every pass ends.
\<close>

section \<open>Which processes are started\<close>

definition permitted :: "settings \<Rightarrow> event \<Rightarrow> bool" where
  "permitted cfg ev = (case ev of
     Ran args timeout r \<Rightarrow>
       args \<in> {[''show'', bridge_unit cfg, PROPERTY_ARGUMENT], [''show'', BLUETOOTH_UNIT, PROPERTY_ARGUMENT],
               [''stop'', bridge_unit cfg], [''start'', bridge_unit cfg], [''reset-failed'', bridge_unit cfg],
               [''restart'', BLUETOOTH_UNIT]}
   | _ \<Rightarrow> True)"

lemma keeps_event [keeps_rules]: "ok ev \<Longrightarrow> keeps (list_all ok) (emit ev)"
  by (rule keeps_emit) simp

lemma keeps_on_service_error [keeps_rules]:
  "keeps I m \<Longrightarrow> (\<And>v. keeps I (k v)) \<Longrightarrow> keeps I (on_service_error m k)"
  unfolding on_service_error_def by (rule keeps_handle) (auto split: failure.splits)

lemma keeps_proc [keeps_rules]:
  "(\<And>code out. r = Completed code out \<Longrightarrow> keeps I (f code out)) \<Longrightarrow> keeps I m \<Longrightarrow> keeps I m' \<Longrightarrow>
    keeps I (case r of Completed code out \<Rightarrow> f code out | No_Process \<Rightarrow> m | Timed_Out \<Rightarrow> m')"
  by (cases r) simp_all

lemma keeps_run_process [keeps_rules]:
  "(\<And>r h. I h \<Longrightarrow> I (h @ [Ran args timeout r])) \<Longrightarrow> keeps I (run_process w args timeout)"
  unfolding run_process_def by (intro keeps_rules)

lemma keeps_systemctl [keeps_rules]:
  "(\<And>r h. I h \<Longrightarrow> I (h @ [Ran [verb, u] timeout r])) \<Longrightarrow> keeps I (systemctl w allowed verb u timeout)"
  unfolding systemctl_def check_unit_def by (intro keeps_rules)

lemma keeps_show_unit [keeps_rules]:
  "(\<And>r h. I h \<Longrightarrow> I (h @ [Ran [''show'', u, PROPERTY_ARGUMENT] 15 r])) \<Longrightarrow> keeps I (show_unit w allowed u)"
  unfolding show_unit_def check_unit_def by (intro keeps_rules)

lemma keeps_poll_loop:
  "keeps I p \<Longrightarrow> (\<And>h. I h \<Longrightarrow> I (h @ [Slept interval])) \<Longrightarrow> keeps I (poll_loop n w p deadline interval)"
proof (induction n)
  case 0
  then show ?case unfolding poll_loop.simps by (intro keeps_rules)
next
  case (Suc n)
  from Suc.IH[OF Suc.prems] show ?case
    unfolding poll_loop.simps by (intro keeps_rules Suc.prems)
qed

lemma keeps_wait_until [keeps_rules]:
  "keeps I p \<Longrightarrow> (\<And>h. I h \<Longrightarrow> I (h @ [Slept interval])) \<Longrightarrow> keeps I (wait_until w p timeout interval)"
  unfolding wait_until_def by (intro keeps_rules keeps_poll_loop)

lemma keeps_fully_stopped [keeps_rules]:
  "(\<And>r h. I h \<Longrightarrow> I (h @ [Ran [''show'', u, PROPERTY_ARGUMENT] 15 r])) \<Longrightarrow> keeps I (fully_stopped w allowed u)"
  "(\<And>r h. I h \<Longrightarrow> I (h @ [Ran [''show'', u, PROPERTY_ARGUMENT] 15 r])) \<Longrightarrow> keeps I (is_active w allowed u)"
  unfolding fully_stopped_def is_active_def by (intro keeps_rules; simp)+

lemma keeps_save_state [keeps_rules]: "(\<And>h. I h \<Longrightarrow> I (h @ [Saved s])) \<Longrightarrow> keeps I (save_state w s)"
  unfolding save_state_def by (intro keeps_rules)

lemma keeps_take_exits [keeps_rules]: "(\<And>es h. I h \<Longrightarrow> I (h @ [Consumed es])) \<Longrightarrow> keeps I (take_exits w)"
  unfolding take_exits_def by (intro keeps_rules)

lemma keeps_read [keeps_rules]: "keeps I (read_state w)" "keeps I (load_record w)"
  unfolding read_state_def load_record_def by (intro keeps_rules)+

lemma keeps_fail_recovery [keeps_rules]:
  "(\<And>h. I h \<Longrightarrow> I (h @ [Saved (latched reason s)])) \<Longrightarrow> (\<And>p m h. I h \<Longrightarrow> I (h @ [Logged p m])) \<Longrightarrow>
    keeps I (fail_recovery w reason s)"
  unfolding fail_recovery_def by (intro keeps_rules)

lemma keeps_exclusive_lock [keeps_rules]:
  "(\<And>b. keeps I (body b)) \<Longrightarrow> (\<And>h. I h \<Longrightarrow> I (h @ [Locked])) \<Longrightarrow> (\<And>h. I h \<Longrightarrow> I (h @ [Unlocked])) \<Longrightarrow>
    keeps I (exclusive_lock w body)"
  unfolding exclusive_lock_def by (intro keeps_rules)

lemmas run_defs = reset_bluetooth_def reset_steps_def report_def start_again_def stop_and_reset_def recovered_def recover_def reset_and_verify_def verify_result_def restart_bridge_def
  stop_terminally_def Let_def

lemma keeps_action:
  "(fst d = ACTION_LATCH \<Longrightarrow> keeps I a) \<Longrightarrow> (fst d = ACTION_RESTART \<Longrightarrow> keeps I b) \<Longrightarrow>
   (fst d = ACTION_STOP \<Longrightarrow> keeps I c) \<Longrightarrow> (fst d = ACTION_NONE \<Longrightarrow> keeps I e) \<Longrightarrow>
   (fst d = ACTION_RECOVER \<Longrightarrow> keeps I f) \<Longrightarrow>
   keeps I (case fst d of ACTION_LATCH \<Rightarrow> a | ACTION_RESTART \<Rightarrow> b | ACTION_STOP \<Rightarrow> c | ACTION_NONE \<Rightarrow> e | ACTION_RECOVER \<Rightarrow> f)"
  by (cases "fst d") simp_all

lemma permitted_simps [simp]:
  "permitted cfg (Saved s)" "permitted cfg (Logged p m)" "permitted cfg (Slept d)" "permitted cfg (Consumed es)"
  "permitted cfg Locked" "permitted cfg Unlocked" "permitted cfg (Printed j)" "permitted cfg (Exit_Logged x)"
  "permitted cfg (Ran [''show'', bridge_unit cfg, PROPERTY_ARGUMENT] t r)"
  "permitted cfg (Ran [''show'', BLUETOOTH_UNIT, PROPERTY_ARGUMENT] t r)"
  "permitted cfg (Ran [''stop'', bridge_unit cfg] t r)" "permitted cfg (Ran [''start'', bridge_unit cfg] t r)"
  "permitted cfg (Ran [''reset-failed'', bridge_unit cfg] t r)" "permitted cfg (Ran [''restart'', BLUETOOTH_UNIT] t r)"
  by (simp_all add: permitted_def)

lemma recover_permitted [keeps_rules]: "keeps (list_all (permitted cfg)) (recover w allowed cfg s previous)"
  unfolding run_defs by (intro keeps_rules; simp)

lemma restart_bridge_permitted [keeps_rules]: "keeps (list_all (permitted cfg)) (restart_bridge w allowed cfg s)"
  unfolding run_defs by (intro keeps_rules; simp)

lemma stop_terminally_permitted [keeps_rules]: "keeps (list_all (permitted cfg)) (stop_terminally w allowed cfg s)"
  unfolding run_defs by (intro keeps_rules; simp)

lemma run_once_permitted [keeps_rules]: "keeps (list_all (permitted cfg)) (run_once w allowed cfg)"
  unfolding run_once_def locked_pass_def act_on_def Let_def by (intro keeps_rules keeps_action; simp)

lemma main_permitted: "from_env env = Some cfg \<Longrightarrow> keeps (list_all (permitted cfg)) (main w env cmd)"
  unfolding main_def record_exit_command_def
  by (cases cmd; simp only: option.case command.case; intro keeps_rules; auto simp: keeps_rules split: failure.splits)

text \<open>
  C30: whatever the command, the environment and the world, every process the supervisor starts is
  systemctl with one of six argument lists: it shows the bridge's unit or Bluetooth, stops, starts or
  resets the failure of the bridge, or restarts Bluetooth; and the bridge's unit it accepts from the
  environment is a plain service name that is neither Bluetooth nor D-Bus.
\<close>

theorem only_bridge_and_bluetooth:
  assumes "from_env env = Some cfg"
  shows "list_all (permitted cfg) (snd (main w env cmd []))
    \<and> unit_name_ok (bridge_unit cfg) \<and> bridge_unit cfg \<notin> {BLUETOOTH_UNIT, ''dbus.service''}"
proof -
  have "unit_name_ok (bridge_unit cfg) \<and> bridge_unit cfg \<notin> {BLUETOOTH_UNIT, ''dbus.service''}"
    using assms by (auto simp: from_env_def Let_def split: if_splits option.splits)
  with keepsD[OF main_permitted[OF assms], of "[]"] show ?thesis by simp
qed

section \<open>Every pass ends\<close>

abbreviation "mono_now w h \<equiv> ck_monotonic (w_clock w h)"

text \<open>The monotonic clock never goes back, and a sleep lasts at least as long as asked for.\<close>

definition steady :: "world \<Rightarrow> bool" where
  "steady w \<longleftrightarrow> (\<forall>h ev. mono_now w h \<le> mono_now w (h @ [ev]))
     \<and> (\<forall>h d. mono_now w h + d \<le> mono_now w (h @ [Slept d]))"

fun escapes :: "failure \<Rightarrow> bool" where
  "escapes Os_Error = True"
| "escapes (Record_Error e) = True"
| "escapes _ = False"

fun service_or_escapes :: "failure \<Rightarrow> bool" where
  "service_or_escapes (Service_Manager v) = True"
| "service_or_escapes e = escapes e"

lemma escapes_weaken: "raises escapes m \<Longrightarrow> raises service_or_escapes m"
  by (erule raises_weaken) (case_tac e; simp)

lemma raises_on_service_error [raises_rules]:
  "raises service_or_escapes m \<Longrightarrow> (\<And>v. raises escapes (k v)) \<Longrightarrow> raises escapes (on_service_error m k)"
  unfolding on_service_error_def
  by (erule raises_handle) (auto split: failure.splits)

lemma raises_proc [raises_rules]:
  "(\<And>code out. r = Completed code out \<Longrightarrow> raises X (f code out)) \<Longrightarrow> raises X m \<Longrightarrow> raises X m' \<Longrightarrow>
    raises X (case r of Completed code out \<Rightarrow> f code out | No_Process \<Rightarrow> m | Timed_Out \<Rightarrow> m')"
  by (cases r) simp_all

lemma raises_service [raises_rules]:
  "raises service_or_escapes (systemctl w allowed verb u timeout)" "raises service_or_escapes (show_unit w allowed u)"
  "raises service_or_escapes (fully_stopped w allowed u)" "raises service_or_escapes (is_active w allowed u)"
  unfolding systemctl_def show_unit_def fully_stopped_def is_active_def check_unit_def run_process_def
  by (intro raises_rules; simp)+

lemma raises_files [raises_rules]:
  "raises escapes (save_state w s)" "raises escapes (take_exits w)" "raises escapes (read_state w)"
  "raises escapes (load_record w)" "raises escapes (fail_recovery w reason s)"
  unfolding save_state_def take_exits_def read_state_def load_record_def fail_recovery_def
  by (intro raises_rules; simp)+

lemma raises_lock [raises_rules]: "(\<And>b. raises escapes (body b)) \<Longrightarrow> raises escapes (exclusive_lock w body)"
  unfolding exclusive_lock_def by (intro raises_rules; simp)

lemma poll_loop_ends:
  assumes "steady w" "0 < interval" "raises service_or_escapes p"
  shows "spec (\<lambda>_. True) (\<lambda>h. deadline \<le> mono_now w h + real n * interval)
    (poll_loop (Suc n) w p deadline interval) (\<lambda>_ _. True) (\<lambda>e _. escapes e)"
proof (induction n)
  case 0
  let ?P = "\<lambda>h. deadline \<le> mono_now w h"
  have stable: "?P h \<Longrightarrow> ?P (h @ [e])" for h e
    using assms(1) order_trans unfolding steady_def by blast
  have "spec (\<lambda>_. True) ?P (on_service_error p (\<lambda>_. give False)) (\<lambda>_. ?P) (\<lambda>e h. ?P h \<and> escapes e)"
    by (intro spec_stable raises_rules assms(3) stable)
  then have "spec (\<lambda>_. True) ?P (on_service_error p (\<lambda>_. give False)) (\<lambda>_. ?P) (\<lambda>e h. escapes e)"
    by (rule spec_weaken) simp_all
  then show ?case
    unfolding poll_loop.simps
    by (simp, elim spec_andthen) (auto intro!: spec_False spec_if spec_give spec_andthen[where R = "\<lambda>now h. deadline \<le> now"] spec_ask)
next
  case (Suc n)
  let ?P = "\<lambda>h. deadline \<le> mono_now w h + real (Suc n) * interval"
  have stable: "?P h \<Longrightarrow> ?P (h @ [e])" for h e
    using assms(1) order_trans unfolding steady_def by (metis add_le_cancel_right)
  have "spec (\<lambda>_. True) ?P (on_service_error p (\<lambda>_. give False)) (\<lambda>_. ?P) (\<lambda>e h. ?P h \<and> escapes e)"
    by (intro spec_stable raises_rules assms(3) stable)
  then have p: "spec (\<lambda>_. True) ?P (on_service_error p (\<lambda>_. give False)) (\<lambda>_. ?P) (\<lambda>e h. escapes e)"
    by (rule spec_weaken) simp_all
  have sleep: "spec (\<lambda>_. True) ?P (emit (Slept interval)) (\<lambda>_ h. deadline \<le> mono_now w h + real n * interval) (\<lambda>e _. escapes e)"
  proof (rule spec_emit)
    fix h
    assume "?P h"
    moreover have "mono_now w h + interval \<le> mono_now w (h @ [Slept interval])"
      using assms(1) by (simp add: steady_def)
    ultimately show "True \<and> deadline \<le> mono_now w (h @ [Slept interval]) + real n * interval"
      by (simp add: algebra_simps)
  qed
  have tail: "spec (\<lambda>_. True) ?P (andthen (emit (Slept interval)) (\<lambda>_. poll_loop (Suc n) w p deadline interval))
      (\<lambda>_ _. True) (\<lambda>e _. escapes e)"
    by (rule spec_andthen[OF sleep Suc])
  have "spec (\<lambda>_. True) ?P (andthen (ask (mono_now w)) (\<lambda>now. if deadline \<le> now then give False
      else andthen (emit (Slept interval)) (\<lambda>_. poll_loop (Suc n) w p deadline interval)))
      (\<lambda>_ _. True) (\<lambda>e _. escapes e)"
    by (rule spec_andthen[where R = "\<lambda>_. ?P"]) (simp add: spec_ask, intro spec_if spec_give tail TrueI)
  then show ?case
    unfolding poll_loop.simps(2)[of "Suc n"]
    by (intro spec_andthen[OF p] spec_if spec_give TrueI)
qed

text \<open>The fuel is enough.\<close>

lemma wait_until_fuel [raises_rules]:
  assumes "steady w" "0 < interval" "raises service_or_escapes p"
  shows "raises escapes (wait_until w p timeout interval)"
  unfolding wait_until_def raises_def poll_fuel_def
proof (rule spec_andthen[where R = "\<lambda>now h. now = mono_now w h"])
  show "spec (\<lambda>_. True) (\<lambda>h. now = mono_now w h)
      (poll_loop (Suc (nat \<lceil>timeout / interval\<rceil>)) w p (now + timeout) interval) (\<lambda>_ _. True) (\<lambda>e _. escapes e)" for now
  proof (rule spec_pre[OF poll_loop_ends[OF assms]])
    fix h
    assume "now = mono_now w h"
    moreover have "timeout / interval \<le> real (nat \<lceil>timeout / interval\<rceil>)" by (rule real_nat_ceiling_ge)
    ultimately show "now + timeout \<le> mono_now w h + real (nat \<lceil>timeout / interval\<rceil>) * interval"
      using assms(2) by (simp add: pos_divide_le_eq)
  qed
qed (simp add: spec_ask)

definition polls :: "world \<Rightarrow> settings \<Rightarrow> bool" where
  "polls w cfg \<longleftrightarrow> steady w \<and> 0 < poll_interval cfg"

lemma wait_ends:
  "polls w cfg \<Longrightarrow> raises service_or_escapes p \<Longrightarrow> raises escapes (wait_until w p timeout (poll_interval cfg))"
  by (rule wait_until_fuel) (simp_all add: polls_def)

lemma recovered_raises: "raises service_or_escapes (recovered w allowed cfg previous)"
  unfolding recovered_def by (intro raises_rules escapes_weaken; simp add: raises_rules)

lemma reset_steps_raises: "polls w cfg \<Longrightarrow> raises service_or_escapes (reset_steps w allowed cfg)"
  unfolding reset_steps_def reset_bluetooth_def
  by (intro raises_rules; (rule escapes_weaken, intro raises_rules wait_ends)?)

lemma recover_raises: "polls w cfg \<Longrightarrow> raises escapes (recover w allowed cfg s previous)"
  unfolding recover_def reset_and_verify_def stop_and_reset_def report_def start_again_def verify_result_def Let_def
  by (intro raises_rules wait_ends recovered_raises reset_steps_raises;
      (simp add: raises_rules split: option.split sum.split)?)

lemma stop_terminally_raises: "polls w cfg \<Longrightarrow> raises escapes (stop_terminally w allowed cfg s)"
  unfolding stop_terminally_def by (intro raises_rules wait_ends; (intro escapes_weaken raises_rules)?)

lemma restart_bridge_raises: "raises escapes (restart_bridge w allowed cfg s)"
  unfolding restart_bridge_def Let_def by (intro raises_rules)

lemma act_on_raises: "polls w cfg \<Longrightarrow> raises escapes (act_on w allowed cfg s u rv d)"
  unfolding act_on_def
  by (cases "fst d"; simp only: action.case;
      intro raises_rules stop_terminally_raises restart_bridge_raises recover_raises)

lemma run_once_raises: "polls w cfg \<Longrightarrow> raises escapes (run_once w allowed cfg)"
  unfolding run_once_def locked_pass_def Let_def
  by (intro raises_rules act_on_raises)

lemma from_env_poll_interval: "from_env env = Some cfg \<Longrightarrow> poll_interval cfg = 2"
  by (auto simp: from_env_def Let_def split: if_splits option.splits)

lemma main_raises:
  assumes "steady w"
  shows "raises escapes (main w env cmd)"
proof (cases "from_env env")
  case None
  then show ?thesis unfolding main_def by (simp add: raises_rules)
next
  case (Some cfg)
  have run: "raises escapes (run_once w [bridge_unit cfg, BLUETOOTH_UNIT] cfg)"
    using assms from_env_poll_interval[OF Some] by (intro run_once_raises) (simp add: polls_def)
  have hook: "raises escapes (record_exit_command w env)"
    unfolding record_exit_command_def
  proof (rule raises_handle[where Y = escapes])
    show "raises escapes a" if "(case e of Os_Error \<Rightarrow> Some (give ()) | _ \<Rightarrow> None) = Some a" for e a
      using that by (cases e) (auto simp: raises_rules)
  qed (intro raises_rules; simp)
  show ?thesis
    unfolding main_def Some option.case
    by (cases cmd; simp only: command.case; intro raises_rules run hook)
qed

text \<open>
  C29: every command ends. On a monotonic clock that never goes back and that advances by at least what the
  supervisor sleeps, each polling loop reaches its deadline, and the command returns or is aborted
  by an error of its own files or of parsing: no failure of systemctl escapes, whatever it answers.
\<close>

theorem every_command_ends:
  assumes "steady w"
  shows "(\<exists>code. fst (main w env cmd h) = Inr code) \<or> fst (main w env cmd h) = Inl Os_Error
    \<or> (\<exists>e. fst (main w env cmd h) = Inl (Record_Error e))"
proof (cases "fst (main w env cmd h)")
  case (Inl e)
  with raisesD[OF main_raises[OF assms] Inl] show ?thesis by (cases e) auto
qed simp

section \<open>A hostile record\<close>

text \<open>A record that passes every check before the phase and whose phase is a list.\<close>

definition hostile :: "(string \<times> json) list \<Rightarrow> bool" where
  "hostile d \<longleftrightarrow> py_eq_int (get d ''record_version'') 1 \<and> is_valid_instance_id (get d ''instance_id'')
     \<and> is_int_from 1 (get d ''pid'') \<and> is_int_from 0 (get d ''start_ticks'') \<and> is_str (get d ''boot_id'')
     \<and> boot_id_ok (the_str (get d ''boot_id'')) \<and> (\<exists>vs. get d ''phase'' = JArr vs)"

lemma parse_hostile: "hostile d \<Longrightarrow> n \<le> MAX_RECORD_BYTES \<Longrightarrow> parse_record n (Value (JObj d)) boot ticks = Inl Type_Error"
  by (auto simp: parse_record_def record_rejected_def hostile_def not_in_def)

definition changes_nothing :: "event \<Rightarrow> bool" where
  "changes_nothing ev = (case ev of Saved s \<Rightarrow> False | Consumed es \<Rightarrow> False
     | Ran args t r \<Rightarrow> \<exists>u. args = [''show'', u, PROPERTY_ARGUMENT] | _ \<Rightarrow> True)"

lemma changes_nothing_simps [simp]:
  "changes_nothing Locked" "changes_nothing Unlocked" "changes_nothing (Logged p m)"
  "changes_nothing (Ran [''show'', u, PROPERTY_ARGUMENT] t r)"
  by (simp_all add: changes_nothing_def)


section \<open>Concrete instances\<close>

theorem only_bridge_and_bluetooth_witness:
  "list_all (permitted sample_cfg) (snd (main (sample_world []) [] Run []))"
  using only_bridge_and_bluetooth[OF from_env_defaults] by blast

lemma sample_world_steady: "steady (sample_world es)"
  by (auto simp: steady_def sample_world_def split: event.splits)

theorem every_command_ends_witness:
  "(\<exists>code. fst (main (sample_world []) [] Run []) = Inr code) \<or> fst (main (sample_world []) [] Run []) = Inl Os_Error
    \<or> (\<exists>e. fst (main (sample_world []) [] Run []) = Inl (Record_Error e))"
  by (rule every_command_ends[OF sample_world_steady])


end
