(* ===== verification/Supervisor_Triples.thy ===== *)
theory Supervisor_Triples
  imports Supervisor_Safety
begin

text \<open>
  Triples of the programs that the supervisor's steps share (showing a unit, systemctl, polling), and the
  histories of passes that may be killed at any moment.
\<close>

section \<open>Triples of the shared programs\<close>

lemma spec_show_unit:
  assumes "\<And>h r. I h \<Longrightarrow> P h \<Longrightarrow> I (h @ [Ran [''show'', u, PROPERTY_ARGUMENT] 15 r])"
    and "\<And>h out. I h \<Longrightarrow> P h \<Longrightarrow> Q (parse_properties out) (h @ [Ran [''show'', u, PROPERTY_ARGUMENT] 15 (Completed 0 out)])"
    and "\<And>h r. I h \<Longrightarrow> P h \<Longrightarrow> E (h @ [Ran [''show'', u, PROPERTY_ARGUMENT] 15 r])" "\<And>h. I h \<Longrightarrow> P h \<Longrightarrow> E h"
  shows "spec I P (show_unit w allowed u) Q (\<lambda>_. E)"
  unfolding spec_def show_unit_def check_unit_def run_process_def andthen_def
  using assms by (auto simp: act_simps stays_snoc split: proc.splits)

lemma spec_systemctl:
  assumes "\<And>h r. I h \<Longrightarrow> P h \<Longrightarrow> I (h @ [Ran [verb, u] timeout r])"
    and "\<And>h out. I h \<Longrightarrow> P h \<Longrightarrow> Q (h @ [Ran [verb, u] timeout (Completed 0 out)])"
    and "\<And>h r. I h \<Longrightarrow> P h \<Longrightarrow> E (h @ [Ran [verb, u] timeout r])" "\<And>h. I h \<Longrightarrow> P h \<Longrightarrow> E h"
  shows "spec I P (systemctl w allowed verb u timeout) (\<lambda>_. Q) (\<lambda>_. E)"
  unfolding spec_def systemctl_def check_unit_def run_process_def andthen_def
  using assms by (auto simp: act_simps stays_snoc split: proc.splits)

lemma spec_on_service_error:
  assumes "spec I P m Q E'" "\<And>v. spec I (E' (Service_Manager v)) (k v) Q E"
    and "\<And>e h. I h \<Longrightarrow> E' e h \<Longrightarrow> (\<And>v. e \<noteq> Service_Manager v) \<Longrightarrow> E e h"
  shows "spec I P (on_service_error m k) Q E"
  unfolding on_service_error_def
proof (rule spec_handle[OF assms(1)])
  show "spec I (E' e) a Q E" if "(case e of Service_Manager v \<Rightarrow> Some (k v) | _ \<Rightarrow> None) = Some a" for e a
    using that assms(2) by (cases e) auto
  show "E e h" if "(case e of Service_Manager v \<Rightarrow> Some (k v) | _ \<Rightarrow> None) = None" "I h" "E' e h" for e h
    using that assms(3)[of h e] by (cases e) auto
qed

text \<open>Polling: what holds before each try holds at a timeout; a successful try ends it.\<close>

lemma spec_poll_loop:
  assumes p: "spec I P p (\<lambda>r h. if r then Q h else P h) (\<lambda>_. P)"
    and sleep: "\<And>h. I h \<Longrightarrow> P h \<Longrightarrow> I (h @ [Slept interval]) \<and> P (h @ [Slept interval])"
  shows "spec I P (poll_loop n w p deadline interval) (\<lambda>r h. if r then Q h else P h) (\<lambda>_. P)"
proof (induction n)
  case 0
  show ?case unfolding poll_loop.simps by (rule spec_throw)
next
  case (Suc n)
  have once: "spec I P (on_service_error p (\<lambda>_. give False)) (\<lambda>r h. if r then Q h else P h) (\<lambda>_. P)"
    by (rule spec_on_service_error[OF p]) (simp_all add: spec_give)
  have "spec I P (andthen (emit (Slept interval)) (\<lambda>_. poll_loop n w p deadline interval))
      (\<lambda>r h. if r then Q h else P h) (\<lambda>_. P)"
    by (rule spec_andthen[OF _ Suc]) (rule spec_emit, rule sleep)
  then have "spec I P (if now \<ge> deadline then give False
      else andthen (emit (Slept interval)) (\<lambda>_. poll_loop n w p deadline interval))
      (\<lambda>r h. if r then Q h else P h) (\<lambda>_. P)" for now
    by (simp add: spec_give)
  then have "spec I P (andthen (ask (mono_now w)) (\<lambda>now. if now \<ge> deadline then give False
      else andthen (emit (Slept interval)) (\<lambda>_. poll_loop n w p deadline interval)))
      (\<lambda>r h. if r then Q h else P h) (\<lambda>_. P)"
    by (intro spec_andthen[where R = "\<lambda>_. P"] spec_ask)
  then show ?case
    unfolding poll_loop.simps by (intro spec_andthen[OF once]) (auto intro!: spec_give)
qed

lemma spec_wait_until:
  assumes "spec I P p (\<lambda>r h. if r then Q h else P h) (\<lambda>_. P)"
    and "\<And>h. I h \<Longrightarrow> P h \<Longrightarrow> I (h @ [Slept interval]) \<and> P (h @ [Slept interval])"
  shows "spec I P (wait_until w p timeout interval) (\<lambda>r h. if r then Q h else P h) (\<lambda>_. P)"
  unfolding wait_until_def
  by (rule spec_andthen[where R = "\<lambda>_. P"]) (simp add: spec_ask, intro spec_poll_loop assms)

text \<open>Events that are neither saves nor Bluetooth restarts.\<close>

definition quiet :: "event \<Rightarrow> bool" where
  "quiet ev = (case ev of Saved s \<Rightarrow> False | Ran args t r \<Rightarrow> args \<noteq> [''restart'', BLUETOOTH_UNIT] | _ \<Rightarrow> True)"

lemma quiet_simps [simp]:
  "quiet (Logged p m)" "quiet (Slept d)" "quiet (Consumed es)" "quiet Locked" "quiet Unlocked"
  "quiet (Ran [''show'', u, PROPERTY_ARGUMENT] t r)" "quiet (Ran [''stop'', u] t r)" "quiet (Ran [''start'', u] t r)"
  "quiet (Ran [''reset-failed'', u] t r)"
  by (simp_all add: quiet_def)

section \<open>The state file along a history\<close>

lemma last_saved_snoc [simp]:
  "last_saved (h @ [Saved s]) acc = Some s"
  "(\<And>s. ev \<noteq> Saved s) \<Longrightarrow> last_saved (h @ [ev]) acc = last_saved h acc"
  by (induction h acc rule: last_saved.induct, auto, cases ev, auto)

section \<open>Passes of the supervisor, killed at any moment\<close>

text \<open>
  Histories of the supervisor: passes one after the other, each of which may be killed after any of its
  events (\<open>h'\<close> is then a proper prefix of the pass).
\<close>

inductive passes :: "world \<Rightarrow> string list \<Rightarrow> settings \<Rightarrow> history \<Rightarrow> bool" for w allowed cfg where
  no_pass: "passes w allowed cfg []"
| one_pass: "passes w allowed cfg h \<Longrightarrow> prefix h h' \<Longrightarrow> prefix h' (snd (run_once w allowed cfg h)) \<Longrightarrow>
    passes w allowed cfg h'"

lemma passes_keep:
  assumes "passes w allowed cfg h" "I []" "spec I (\<lambda>_. True) (run_once w allowed cfg) (\<lambda>_ _. True) (\<lambda>_ _. True)"
  shows "I h"
  using assms(1)
proof (induction rule: passes.induct)
  case no_pass
  show ?case by (rule assms(2))
next
  case (one_pass h h')
  from specD(1)[OF assms(3) one_pass.IH TrueI] one_pass.hyps show ?case by (auto simp: stays_def)
qed

lemma one_pass_from_start: "passes w allowed cfg (snd (run_once w allowed cfg []))"
  using keeps_extends[of "\<lambda>_. True" "run_once w allowed cfg" "[]"]
  by (intro one_pass[OF no_pass]) simp_all

section \<open>Concrete histories\<close>

definition reset_history :: history where
  "reset_history = snd (run_once (sample_world [exit_with ''76'' 10, exit_with ''76'' 50]) sample_units sample_cfg [])"

definition latch_history :: history where
  "latch_history = snd (run_once (sample_world (replicate 6 (exit_with ''79'' 10))) sample_units sample_cfg [])"

end
