(* ===== verification/Supervisor_Stops.thy ===== *)
theory Supervisor_Stops
  imports Supervisor_Triples
begin

text \<open>
  What must have happened before: Bluetooth is restarted, and a pending terminal stop is settled, only right
  after systemd showed the bridge fully stopped following a completed stop. A reset always
  starts the bridge again, and a latched supervisor only stops.
\<close>

section \<open>A verified stop\<close>

definition is_polling :: "settings \<Rightarrow> event \<Rightarrow> bool" where
  "is_polling cfg ev = (case ev of Slept d \<Rightarrow> True
     | Ran args t r \<Rightarrow> args = [''show'', bridge_unit cfg, PROPERTY_ARGUMENT] | _ \<Rightarrow> False)"

lemma event_kind_simps [simp]:
  "is_consumed (Consumed es)" "is_polling cfg (Slept d)"
  "is_polling cfg (Ran [''show'', bridge_unit cfg, PROPERTY_ARGUMENT] t r)"
  by (simp_all add: is_consumed_def is_polling_def)

definition stop_completed :: "settings \<Rightarrow> history \<Rightarrow> bool" where
  "stop_completed cfg h \<longleftrightarrow> (\<exists>a t out b. h = a @ Ran [''stop'', bridge_unit cfg] t (Completed 0 out) # b
     \<and> list_all (is_polling cfg) b)"

definition stop_verified :: "settings \<Rightarrow> history \<Rightarrow> bool" where
  "stop_verified cfg h \<longleftrightarrow> (\<exists>a t out c. h = a @ Ran [''show'', bridge_unit cfg, PROPERTY_ARGUMENT] t (Completed 0 out) # c
     \<and> stop_completed cfg a \<and> stopped_properties (parse_properties out) \<and> list_all is_consumed c)"

lemma stop_completed_snoc: "stop_completed cfg h \<Longrightarrow> is_polling cfg ev \<Longrightarrow> stop_completed cfg (h @ [ev])"
  unfolding stop_completed_def by (elim exE conjE) (rule exI, rule exI, rule exI, rule exI[of _ "b @ [ev]" for b], auto)

lemma stop_verified_snoc: "stop_verified cfg h \<Longrightarrow> stop_verified cfg (h @ [Consumed es])"
  unfolding stop_verified_def
  by (elim exE conjE) (rule exI, rule exI, rule exI, rule exI[of _ "c @ [Consumed es]" for c], auto)

lemma stop_completedI: "stop_completed cfg (h @ [Ran [''stop'', bridge_unit cfg] t (Completed 0 out)])"
  unfolding stop_completed_def by fastforce

lemma stop_verifiedI:
  "stop_completed cfg h \<Longrightarrow> stopped_properties (parse_properties out) \<Longrightarrow>
    stop_verified cfg (h @ [Ran [''show'', bridge_unit cfg, PROPERTY_ARGUMENT] t (Completed 0 out)])"
  unfolding stop_verified_def by fastforce

section \<open>Polling for the stop\<close>

lemma spec_stopped:
  assumes "\<And>h r. I h \<Longrightarrow> P h \<Longrightarrow> I (h @ [Ran [''show'', bridge_unit cfg, PROPERTY_ARGUMENT] 15 r])
        \<and> P (h @ [Ran [''show'', bridge_unit cfg, PROPERTY_ARGUMENT] 15 r])"
    and "\<And>h d. I h \<Longrightarrow> P h \<Longrightarrow> I (h @ [Slept d]) \<and> P (h @ [Slept d])"
  shows "spec I (\<lambda>h. P h \<and> stop_completed cfg h) (bridge_stopped w allowed cfg)
    (\<lambda>r h. if r then P h \<and> stop_verified cfg h else P h \<and> stop_completed cfg h) (\<lambda>_ h. P h)"
proof (rule spec_weaken)
  show "spec I (\<lambda>h. P h \<and> stop_completed cfg h) (bridge_stopped w allowed cfg)
      (\<lambda>r h. if r then P h \<and> stop_verified cfg h else P h \<and> stop_completed cfg h) (\<lambda>_ h. P h \<and> stop_completed cfg h)"
  proof (rule spec_wait_until)
    show "spec I (\<lambda>h. P h \<and> stop_completed cfg h) (fully_stopped w allowed (bridge_unit cfg))
        (\<lambda>r h. if r then P h \<and> stop_verified cfg h else P h \<and> stop_completed cfg h) (\<lambda>_ h. P h \<and> stop_completed cfg h)"
      unfolding fully_stopped_def
      by (rule spec_andthen[where R = "\<lambda>props h. P h \<and> stop_completed cfg h \<and> (stopped_properties props \<longrightarrow> stop_verified cfg h)"])
        (auto intro!: spec_show_unit spec_give simp: assms stop_completed_snoc stop_verifiedI)
  qed (auto simp: assms stop_completed_snoc)
qed auto

section \<open>Before Bluetooth is restarted or the terminal stop is settled\<close>

text \<open>Whether the state a pass would load has a terminal stop pending.\<close>

definition stop_pending :: "world \<Rightarrow> history \<Rightarrow> bool" where
  "stop_pending w h = (case load_state (state_file_now w h) of Inl e \<Rightarrow> False | Inr s \<Rightarrow> ss_terminal_stop_pending s)"

definition needs_stop :: "world \<Rightarrow> settings \<Rightarrow> history \<Rightarrow> event \<Rightarrow> bool" where
  "needs_stop w cfg h ev = (case ev of
       Ran args t r \<Rightarrow> args = [''restart'', BLUETOOTH_UNIT] \<longrightarrow> stop_verified cfg h
     | Saved s \<Rightarrow> stop_pending w h \<and> \<not> ss_terminal_stop_pending s \<longrightarrow> stop_verified cfg h
     | _ \<Rightarrow> True)"

lemma stop_pending_snoc [simp]: "(\<And>s. ev \<noteq> Saved s) \<Longrightarrow> stop_pending w (h @ [ev]) = stop_pending w h"
  by (simp add: stop_pending_def state_file_now_def)

lemma pending_of_own_file: "stop_pending w (h @ [Saved s]) \<Longrightarrow> ss_terminal_stop_pending s"
proof -
  assume p: "stop_pending w (h @ [Saved s])"
  then show ?thesis
    by (auto simp: stop_pending_def state_file_now_def state_json_def state_of_object_def unreadable_state_def
        split: option.splits if_splits)
qed

text \<open>\<open>s\<close> has a terminal stop pending if the file has.\<close>

definition keeps_pending :: "world \<Rightarrow> sup_state \<Rightarrow> history \<Rightarrow> bool" where
  "keeps_pending w s h \<longleftrightarrow> stop_pending w h \<longrightarrow> ss_terminal_stop_pending s"

abbreviation "orderly w cfg \<equiv> guarded (needs_stop w cfg)"

lemma keeps_pending_snoc [simp]:
  "(\<And>s'. ev \<noteq> Saved s') \<Longrightarrow> keeps_pending w s (h @ [ev]) = keeps_pending w s h"
  by (simp add: keeps_pending_def)

lemma keeps_pending_saved: "ss_terminal_stop_pending s = ss_terminal_stop_pending s' \<Longrightarrow> keeps_pending w s' (h @ [Saved s])"
  unfolding keeps_pending_def using pending_of_own_file by blast

lemma needs_stop_simps [simp]:
  "needs_stop w cfg h (Logged p m)" "needs_stop w cfg h (Slept d)" "needs_stop w cfg h (Consumed es)"
  "needs_stop w cfg h Locked" "needs_stop w cfg h Unlocked"
  "args \<noteq> [''restart'', BLUETOOTH_UNIT] \<Longrightarrow> needs_stop w cfg h (Ran args t r)"
  "needs_stop w cfg h (Ran [''restart'', BLUETOOTH_UNIT] t r) = stop_verified cfg h"
  by (simp_all add: needs_stop_def)

lemma quiet_event: "quiet ev \<Longrightarrow> (orderly w cfg (h @ [ev]) = orderly w cfg h)
    \<and> keeps_pending w s (h @ [ev]) = keeps_pending w s h"
  by (cases ev) (auto simp: quiet_def needs_stop_def)

lemma orderly_quiet [simp]:
  "orderly w cfg h \<Longrightarrow> quiet ev \<Longrightarrow> orderly w cfg (h @ [ev])"
  "keeps_pending w s h \<Longrightarrow> quiet ev \<Longrightarrow> keeps_pending w s (h @ [ev])"
  using quiet_event by blast+

lemma needs_stop_saved: "keeps_pending w s h \<Longrightarrow> ss_terminal_stop_pending s = ss_terminal_stop_pending s' \<Longrightarrow>
    needs_stop w cfg h (Saved s')"
  by (auto simp: needs_stop_def keeps_pending_def)

text \<open>A save of a state with the same pending stop.\<close>

lemma spec_save:
  assumes "ss_terminal_stop_pending s' = ss_terminal_stop_pending s"
  shows "spec (orderly w cfg) (keeps_pending w s) (save_state w s') (\<lambda>_. keeps_pending w s) (\<lambda>_. keeps_pending w s)"
  unfolding save_state_def
  by (rule spec_andthen[where R = "\<lambda>_. keeps_pending w s"])
    (auto intro!: spec_ask spec_throw spec_emit keeps_pending_saved assms needs_stop_saved simp: assms)

lemma spec_save_latched:
  "spec (orderly w cfg) (keeps_pending w s) (save_state w (latched reason s')) (\<lambda>_. keeps_pending w (latched reason s')) (\<lambda>_ _. True)"
  unfolding save_state_def
  by (rule spec_andthen[where R = "\<lambda>_. keeps_pending w s"])
    (auto intro!: spec_ask spec_throw spec_emit keeps_pending_saved simp: latched_def needs_stop_def)

lemma spec_quiet:
  "keeps (\<lambda>h. orderly w cfg h \<and> keeps_pending w s h) m \<Longrightarrow>
    spec (orderly w cfg) (keeps_pending w s) m (\<lambda>_. keeps_pending w s) (\<lambda>_. keeps_pending w s)"
  by (rule spec_frame)

lemma keeps_pending_latched [simp]: "keeps_pending w (latched reason s) h"
  by (simp add: keeps_pending_def latched_def)

lemma spec_fail_recovery:
  "spec (orderly w cfg) (keeps_pending w s) (fail_recovery w reason s')
     (\<lambda>r _. r = latched reason s') (\<lambda>_ _. True)"
  unfolding fail_recovery_def
  by (intro spec_andthen[OF spec_save_latched] spec_andthen[where R = "\<lambda>_ _. True"])
    (auto intro!: spec_emit spec_give)

section \<open>The programs are orderly\<close>

lemma keeps_pending_same:
  "ss_terminal_stop_pending s' = ss_terminal_stop_pending s \<Longrightarrow> keeps_pending w s' = keeps_pending w s"
  by (rule ext) (simp add: keeps_pending_def)

lemma reset_bluetooth_orderly:
  "spec (orderly w cfg) (\<lambda>h. keeps_pending w s h \<and> stop_verified cfg h) (reset_bluetooth w allowed cfg)
     (\<lambda>_. keeps_pending w s) (\<lambda>_. keeps_pending w s)"
  unfolding reset_bluetooth_def
proof (rule spec_andthen[where R = "\<lambda>_ h. keeps_pending w s h \<and> stop_verified cfg h"])
  show "spec (orderly w cfg) (\<lambda>h. keeps_pending w s h \<and> stop_verified cfg h) (take_exits w)
      (\<lambda>_ h. keeps_pending w s h \<and> stop_verified cfg h) (\<lambda>_. keeps_pending w s)"
    by (rule spec_weaken[OF spec_frame[where P = "\<lambda>h. keeps_pending w s h \<and> stop_verified cfg h"]])
      (rule keeps_take_exits, simp_all add: stop_verified_snoc)
qed (rule spec_andthen[where R = "\<lambda>_. keeps_pending w s"], rule spec_systemctl, simp_all,
     rule spec_quiet, intro keeps_rules, simp_all)

lemma reset_steps_orderly:
  "spec (orderly w cfg) (\<lambda>h. keeps_pending w s h \<and> stop_completed cfg h) (reset_steps w allowed cfg)
     (\<lambda>_. keeps_pending w s) (\<lambda>_. keeps_pending w s)"
  unfolding reset_steps_def
proof (rule spec_andthen)
  show "spec (orderly w cfg) (\<lambda>h. keeps_pending w s h \<and> stop_completed cfg h) (bridge_stopped w allowed cfg)
      (\<lambda>r h. if r then keeps_pending w s h \<and> stop_verified cfg h else keeps_pending w s h \<and> stop_completed cfg h)
      (\<lambda>_. keeps_pending w s)"
    by (rule spec_stopped) simp_all
  show "spec (orderly w cfg)
      (\<lambda>h. if r then keeps_pending w s h \<and> stop_verified cfg h else keeps_pending w s h \<and> stop_completed cfg h)
      (if \<not> r then give (Some ''bridge_stop_timeout'') else reset_bluetooth w allowed cfg)
      (\<lambda>_. keeps_pending w s) (\<lambda>_. keeps_pending w s)" for r
    by (cases r) (auto intro: reset_bluetooth_orderly spec_give)
qed

lemma stop_issued:
  assumes "\<And>h ev. P h \<Longrightarrow> quiet ev \<Longrightarrow> P (h @ [ev])"
  shows "spec (orderly w cfg) P (on_service_error (andthen (bridge_systemctl w allowed cfg ''stop'') (\<lambda>_. give ok)) (\<lambda>v. give (no v)))
    (\<lambda>r h. (r = ok \<and> P h \<and> stop_completed cfg h) \<or> (\<exists>v. r = no v) \<and> P h) (\<lambda>_ _. True)"
  by (rule spec_on_service_error[where E' = "\<lambda>_. P"], rule spec_andthen[where R = "\<lambda>_ h. P h \<and> stop_completed cfg h"],
      rule spec_systemctl)
     (auto intro!: spec_give simp: assms stop_completedI)

text \<open>What the try statement leaves: the bridge started, or a latched state.\<close>

definition after_reset :: "world \<Rightarrow> sup_state \<Rightarrow> sup_state option \<Rightarrow> history \<Rightarrow> bool" where
  "after_reset w s r h = (case r of None \<Rightarrow> keeps_pending w s h | Some s' \<Rightarrow> \<exists>reason. s' = latched reason s)"

lemma report_orderly:
  "spec (orderly w cfg) (keeps_pending w s) (report w s r) (after_reset w s) (\<lambda>_ _. True)"
proof (cases r)
  case None
  then show ?thesis unfolding report_def by (simp add: spec_give after_reset_def)
next
  case (Some reason)
  have "spec (orderly w cfg) (keeps_pending w s) (andthen (fail_recovery w reason s) (\<lambda>s'. give (Some s')))
      (after_reset w s) (\<lambda>_ _. True)"
    by (rule spec_andthen[OF spec_fail_recovery]) (auto intro!: spec_give simp: after_reset_def)
  with Some show ?thesis by (simp add: report_def)
qed

lemma start_again_orderly:
  assumes "\<And>h ev. P h \<Longrightarrow> quiet ev \<Longrightarrow> P (h @ [ev])"
  shows "spec (orderly w cfg) P (start_again w allowed cfg outcome) (\<lambda>_. P) (\<lambda>_ _. True)"
proof -
  have "keeps (\<lambda>h. orderly w cfg h \<and> P h) (start_again w allowed cfg outcome)"
    unfolding start_again_def by (intro keeps_rules) (simp_all add: assms)
  from spec_frame[OF this] show ?thesis by (rule spec_weaken) simp_all
qed

lemma stop_and_reset_orderly:
  "spec (orderly w cfg) (keeps_pending w s) (stop_and_reset w allowed cfg s) (after_reset w s) (\<lambda>_ _. True)"
proof -
  have steps: "spec (orderly w cfg) (\<lambda>h. keeps_pending w s h \<and> stop_completed cfg h)
      (on_service_error (reset_steps w allowed cfg) (\<lambda>v. give (Some (''service_manager_'' @ v))))
      (\<lambda>_. keeps_pending w s) (\<lambda>_ _. True)"
    by (rule spec_on_service_error[OF reset_steps_orderly]) (auto intro!: spec_give)
  have again: "spec (orderly w cfg) (after_reset w s x) (start_again w allowed cfg (Inr x)) (\<lambda>_. after_reset w s x) (\<lambda>_ _. True)" for x
    by (rule start_again_orderly) (auto simp: after_reset_def split: option.splits)
  have "spec (orderly w cfg) (\<lambda>_. True) (start_again w allowed cfg x) (\<lambda>_ _. True) (\<lambda>_ _. True)" for x
    by (rule start_again_orderly) simp
  then have tries: "spec (orderly w cfg) (\<lambda>h. keeps_pending w s h \<and> stop_completed cfg h)
      (finally_do (andthen (on_service_error (reset_steps w allowed cfg) (\<lambda>v. give (Some (''service_manager_'' @ v)))) (report w s))
         (start_again w allowed cfg)) (after_reset w s) (\<lambda>_ _. True)"
    by (intro spec_finally_do[OF spec_andthen[OF steps report_orderly] again])
  show ?thesis unfolding stop_and_reset_def
  proof (rule spec_andthen[OF stop_issued[where P = "keeps_pending w s"]])
    show "spec (orderly w cfg)
       (\<lambda>h. r = None \<and> keeps_pending w s h \<and> stop_completed cfg h \<or> (\<exists>v. r = Some (''service_manager_'' @ v)) \<and> keeps_pending w s h)
       (case r of Some reason \<Rightarrow> report w s r | None \<Rightarrow> finally_do (andthen (on_service_error (reset_steps w allowed cfg)
            (\<lambda>v. give (Some (''service_manager_'' @ v)))) (report w s)) (start_again w allowed cfg))
       (after_reset w s) (\<lambda>_ _. True)" for r
      by (cases r; simp only: option.case; rule spec_pre[OF tries] spec_pre[OF report_orderly]; auto)
  qed simp
qed

lemma verify_result_orderly:
  "spec (orderly w cfg) (keeps_pending w s) (verify_result w cfg ok s) (\<lambda>r. keeps_pending w (snd r)) (\<lambda>_ _. True)"
proof -
  have save: "spec (orderly w cfg) (keeps_pending w s) (save_state w s') (\<lambda>_. keeps_pending w s) (\<lambda>_ _. True)"
    if "ss_terminal_stop_pending s' = ss_terminal_stop_pending s" for s'
    by (rule spec_weaken[OF spec_save[OF that]]) simp_all
  have logged: "spec (orderly w cfg) (keeps_pending w s) (andthen (emit (Logged p m)) (\<lambda>_. give (b, s')))
      (\<lambda>r. keeps_pending w (snd r)) (\<lambda>_ _. True)"
    if "ss_terminal_stop_pending s' = ss_terminal_stop_pending s" for p m b s'
    by (rule spec_andthen[where R = "\<lambda>_. keeps_pending w s"])
      (auto intro!: spec_emit spec_give simp: keeps_pending_same[OF that])
  have failed: "spec (orderly w cfg) (keeps_pending w s) (andthen (fail_recovery w reason s') (\<lambda>s2. give (False, s2)))
      (\<lambda>r. keeps_pending w (snd r)) (\<lambda>_ _. True)" for reason s'
    by (rule spec_andthen[OF spec_fail_recovery]) (auto intro!: spec_give)
  show ?thesis unfolding verify_result_def Let_def
    by (intro spec_if spec_andthen[where R = "\<lambda>_. keeps_pending w s"] spec_ask save logged failed; simp)
qed

lemma reset_and_verify_orderly:
  "spec (orderly w cfg) (keeps_pending w s) (reset_and_verify w allowed cfg s previous)
     (\<lambda>r. keeps_pending w (snd r)) (\<lambda>_ _. True)"
proof -
  have wait: "spec (orderly w cfg) (keeps_pending w s) (wait_until w (recovered w allowed cfg previous) t i)
      (\<lambda>_. keeps_pending w s) (\<lambda>_ _. True)" for t i
  proof -
    have "keeps (\<lambda>h. orderly w cfg h \<and> keeps_pending w s h) (wait_until w (recovered w allowed cfg previous) t i)"
      unfolding recovered_def by (intro keeps_rules; simp)
    from spec_frame[OF this] show ?thesis by (rule spec_weaken) simp_all
  qed
  have "spec (orderly w cfg) (after_reset w s r) (case r of
         Some s' \<Rightarrow> give (False, s')
       | None \<Rightarrow> andthen (wait_until w (recovered w allowed cfg previous) t i) (\<lambda>ok. verify_result w cfg ok s))
      (\<lambda>r. keeps_pending w (snd r)) (\<lambda>_ _. True)" for r t i
    by (cases r) (auto intro!: spec_pre[OF spec_andthen[OF wait verify_result_orderly]] spec_give simp: after_reset_def)
  then show ?thesis
    unfolding reset_and_verify_def by (rule spec_andthen[OF stop_and_reset_orderly])
qed

lemma recover_orderly:
  "spec (orderly w cfg) (keeps_pending w s) (recover w allowed cfg s previous) (\<lambda>r. keeps_pending w (snd r)) (\<lambda>_ _. True)"
proof -
  have charged: "keeps_pending w (charge_reset clock s) = keeps_pending w s" for clock
    by (rule keeps_pending_same) (simp add: charge_reset_def)
  have save: "spec (orderly w cfg) (keeps_pending w s) (save_state w (charge_reset clock s)) (\<lambda>_. keeps_pending w s) (\<lambda>_ _. True)" for clock
    by (rule spec_weaken[OF spec_save]) (simp_all add: charge_reset_def)
  have attempt: "spec (orderly w cfg) (keeps_pending w s) (reset_and_verify w allowed cfg (charge_reset clock s) previous)
      (\<lambda>r. keeps_pending w (snd r)) (\<lambda>_ _. True)" for clock
    using reset_and_verify_orderly[of w cfg "charge_reset clock s"] by (simp add: charged)
  show ?thesis unfolding recover_def
    by (intro spec_andthen[where R = "\<lambda>_. keeps_pending w s"] spec_ask save attempt spec_emit) simp_all
qed

lemma stop_terminally_orderly:
  "spec (orderly w cfg) (keeps_pending w s) (stop_terminally w allowed cfg s) (\<lambda>_ _. True) (\<lambda>_ _. True)"
proof -
  have logged: "spec (orderly w cfg) P (emit (Logged p m)) (\<lambda>_ _. True) (\<lambda>_ _. True)" for P p m
    by (rule spec_emit) simp
  have save: "spec (orderly w cfg) (\<lambda>h. keeps_pending w s h \<and> stop_verified cfg h)
      (save_state w (s\<lparr>ss_terminal_stop_pending := False\<rparr>)) (\<lambda>_ _. True) (\<lambda>_ _. True)"
    unfolding save_state_def
    by (rule spec_andthen[where R = "\<lambda>_ h. keeps_pending w s h \<and> stop_verified cfg h"])
      (auto intro!: spec_ask spec_throw spec_emit simp: needs_stop_def)
  have stopped: "spec (orderly w cfg) (\<lambda>h. keeps_pending w s h \<and> stop_completed cfg h) (bridge_stopped w allowed cfg)
      (\<lambda>r h. if r then keeps_pending w s h \<and> stop_verified cfg h else keeps_pending w s h \<and> stop_completed cfg h)
      (\<lambda>_ _. True)"
    by (rule spec_weaken[OF spec_stopped[where P = "keeps_pending w s"]]) simp_all
  have verified: "spec (orderly w cfg)
      (\<lambda>h. if r then keeps_pending w s h \<and> stop_verified cfg h else keeps_pending w s h \<and> stop_completed cfg h)
      (if \<not> r then emit (Logged 3 ''Bridge terminal stop not yet verified; will retry'')
       else andthen (save_state w (s\<lparr>ss_terminal_stop_pending := False\<rparr>)) (\<lambda>_.
          emit (Logged 2 ''Casambi bridge terminal stop verified; recovery remains latched''))) (\<lambda>_ _. True) (\<lambda>_ _. True)" for r
    by (cases r) (auto intro!: logged spec_andthen[OF save])
  show ?thesis unfolding stop_terminally_def
  proof (rule spec_andthen[OF stop_issued[where P = "keeps_pending w s"]])
    show "spec (orderly w cfg)
       (\<lambda>h. ok = True \<and> keeps_pending w s h \<and> stop_completed cfg h \<or> (\<exists>v. ok = False) \<and> keeps_pending w s h)
       (if \<not> ok then emit (Logged 3 ''Unable to stop the bridge after recovery gave up'')
        else andthen (bridge_stopped w allowed cfg) (\<lambda>stopped.
     if \<not> stopped then emit (Logged 3 ''Bridge terminal stop not yet verified; will retry'')
     else andthen (save_state w (s\<lparr>ss_terminal_stop_pending := False\<rparr>)) (\<lambda>_.
          emit (Logged 2 ''Casambi bridge terminal stop verified; recovery remains latched''))))
       (\<lambda>_ _. True) (\<lambda>_ _. True)" for ok
      by (cases ok) (auto intro!: logged spec_pre[OF spec_andthen[OF stopped verified]])
  qed simp
qed

lemma restart_bridge_orderly:
  "spec (orderly w cfg) (keeps_pending w s) (restart_bridge w allowed cfg s) (\<lambda>s'. keeps_pending w s') (\<lambda>_ _. True)"
proof -
  have same: "ss_terminal_stop_pending (s\<lparr>ss_plain_restarts := rs, ss_plain_restart_streak := n, ss_last_result := l\<rparr>) = ss_terminal_stop_pending s"
    for rs n l by simp
  have tries: "spec (orderly w cfg) (keeps_pending w s) (on_service_error
        (andthen (bridge_systemctl w allowed cfg ''reset-failed'') (\<lambda>_.
         andthen (bridge_systemctl w allowed cfg ''start'') (\<lambda>_. give True))) (\<lambda>_. give False))
      (\<lambda>_. keeps_pending w s) (\<lambda>_ _. True)"
    by (rule spec_framed) (intro keeps_rules; simp)
  show ?thesis unfolding restart_bridge_def Let_def
    by (intro spec_andthen[where R = "\<lambda>_. keeps_pending w s"] spec_ask tries spec_if spec_emit spec_give)
      (simp_all add: keeps_pending_same[OF same])
qed

lemma act_on_orderly:
  "spec (orderly w cfg) (keeps_pending w s) (act_on w allowed cfg s u rv d) (\<lambda>_ _. True) (\<lambda>_ _. True)"
proof -
  have save: "spec (orderly w cfg) (keeps_pending w s') (save_state w s') (\<lambda>_. keeps_pending w s') (\<lambda>_ _. True)" for s'
    by (rule spec_weaken[OF spec_save]) simp_all
  have settled: "spec (orderly w cfg) (keeps_pending w s') (andthen (stop_terminally w allowed cfg s') (\<lambda>_. give r))
      (\<lambda>_ _. True) (\<lambda>_ _. True)" for s' and r :: string
    by (rule spec_andthen[OF stop_terminally_orderly]) (simp add: spec_give)
  have latch: "spec (orderly w cfg) (keeps_pending w s) (andthen (save_state w (latched r s)) (\<lambda>_.
      andthen (emit (Logged p m)) (\<lambda>_. andthen (stop_terminally w allowed cfg (latched r s)) (\<lambda>_. give r))))
      (\<lambda>_ _. True) (\<lambda>_ _. True)" for r p m
    by (intro spec_andthen[OF spec_save_latched] spec_andthen[OF _ settled] spec_emit) simp
  have finish: "spec (orderly w cfg) (keeps_pending w (snd r)) (if ss_recovery_failed (snd r)
          then andthen (stop_terminally w allowed cfg (snd r)) (\<lambda>_. give (ss_last_result (snd r)))
          else give (ss_last_result (snd r))) (\<lambda>_ _. True) (\<lambda>_ _. True)" for r
    by (intro spec_if settled spec_give) simp
  have reset: "spec (orderly w cfg) (keeps_pending w s) (andthen (recover w allowed cfg s previous) (\<lambda>r.
          if ss_recovery_failed (snd r)
          then andthen (stop_terminally w allowed cfg (snd r)) (\<lambda>_. give (ss_last_result (snd r)))
          else give (ss_last_result (snd r)))) (\<lambda>_ _. True) (\<lambda>_ _. True)" for previous
    by (rule spec_andthen[OF recover_orderly finish])
  have restart: "spec (orderly w cfg) (keeps_pending w s) (andthen (restart_bridge w allowed cfg s) (\<lambda>s1.
          andthen (save_state w s1) (\<lambda>_. give (ss_last_result s1)))) (\<lambda>_ _. True) (\<lambda>_ _. True)"
    by (intro spec_andthen[OF restart_bridge_orderly] spec_andthen[OF save] spec_give) simp
  show ?thesis unfolding act_on_def
    by (cases "fst d"; simp only: action.case; (intro latch restart spec_andthen[OF save] settled reset)?)
      (simp add: spec_give)
qed

lemma run_once_orderly: "spec (orderly w cfg) (\<lambda>_. True) (run_once w allowed cfg) (\<lambda>_ _. True) (\<lambda>_ _. True)"
proof -
  have act: "spec (orderly w cfg) (keeps_pending w s0) (andthen
         (if b then emit (Logged p m) else give ()) (\<lambda>_. act_on w allowed cfg (observe s0 u rv clock cfg es) u rv d))
      (\<lambda>_ _. True) (\<lambda>_ _. True)" for s0 b p m u rv clock es d
  proof -
    have "keeps_pending w (observe s0 u rv clock cfg es) = keeps_pending w s0" by (rule keeps_pending_same) simp
    with act_on_orderly[of w cfg "observe s0 u rv clock cfg es" allowed u rv d]
    have "spec (orderly w cfg) (keeps_pending w s0) (act_on w allowed cfg (observe s0 u rv clock cfg es) u rv d)
        (\<lambda>_ _. True) (\<lambda>_ _. True)" by (simp only:)
    then show ?thesis
      by (intro spec_andthen[where R = "\<lambda>_. keeps_pending w s0"] spec_if spec_emit spec_give) simp_all
  qed
  have quiets: "spec (orderly w cfg) (keeps_pending w s0) (load_record w) (\<lambda>_. keeps_pending w s0) (\<lambda>_ _. True)"
    "spec (orderly w cfg) (keeps_pending w s0) (take_exits w) (\<lambda>_. keeps_pending w s0) (\<lambda>_ _. True)" for s0
    by (rule spec_weaken[OF spec_quiet]; (intro keeps_rules)?; simp)+
  have read: "spec (orderly w cfg) (\<lambda>_. True) (read_state w) (\<lambda>s0. keeps_pending w s0) (\<lambda>_ _. True)"
    unfolding read_state_def
    by (rule spec_andthen[where R = "\<lambda>r h. r = load_state (state_file_now w h)"])
      (auto intro!: spec_ask spec_from_sum simp: keeps_pending_def stop_pending_def)
  have show_bridge: "spec (orderly w cfg) (\<lambda>_. True) (on_service_error (andthen (show_unit w allowed (bridge_unit cfg)) (\<lambda>props. give (Some (from_properties props))))
        (\<lambda>_. andthen (emit (Logged 3 ''Unable to read the bridge unit state; nothing done'')) (\<lambda>_. give None)))
      (\<lambda>_ _. True) (\<lambda>_ _. True)"
    by (rule spec_any) (intro keeps_rules; simp)
  have locked: "spec (orderly w cfg) (\<lambda>_. True) (locked_pass w allowed cfg) (\<lambda>_ _. True) (\<lambda>_ _. True)"
    unfolding locked_pass_def Let_def
  proof (rule spec_andthen[OF show_bridge], goal_cases)
    case (1 r)
    show ?case
      by (cases r; simp only: option.case; (intro spec_andthen[OF read] spec_andthen[OF quiets(1)] spec_andthen[OF quiets(2)]
            spec_andthen[OF spec_ask act])?) (simp_all add: spec_give)
  qed
  show ?thesis
    unfolding run_once_def exclusive_lock_def
    by (intro spec_andthen[where R = "\<lambda>_ _. True"] spec_ask spec_if spec_throw spec_emit spec_give
        spec_finally_do[where R = "\<lambda>_ _. True" and F = "\<lambda>_ _. True"] locked) simp_all
qed

section \<open>Histories of passes are orderly\<close>

lemma passes_orderly: "passes w allowed cfg h \<Longrightarrow> orderly w cfg h"
  by (erule passes_keep[OF _ _ run_once_orderly]) simp

text \<open>
  C12: Bluetooth is restarted only under a stopped bridge. In every history of passes, killed anywhere, a
  restart of Bluetooth comes right after (but for the reading of the exit log) systemd showed the bridge's
  unit with no main process and inactive or failed, and since the stop of the bridge that completed
  before it nothing but polling happened.
\<close>

theorem bluetooth_only_under_stopped_bridge:
  assumes "passes w allowed cfg (a @ Ran [''restart'', BLUETOOTH_UNIT] t r # c)"
  shows "stop_verified cfg a"
  using passes_orderly[OF assms] unfolding guarded_def by (fastforce simp: needs_stop_def)

text \<open>
  C13: a pending terminal stop is settled only by a verified stop. In every history of passes, a state
  saved without the pending stop, when the state that a pass would have loaded before had
  it, is saved right after systemd showed the bridge fully stopped following a completed stop; no
  healthy period, failed stop, timeout or lost save settles it.
\<close>

theorem terminal_stop_settled_only_verified:
  assumes "passes w allowed cfg (a @ Saved s # c)" "stop_pending w a" "\<not> ss_terminal_stop_pending s"
  shows "stop_verified cfg a"
  using passes_orderly[OF assms(1)] assms(2,3) unfolding guarded_def by (fastforce simp: needs_stop_def)

section \<open>Concrete histories\<close>

definition restarts_at :: "nat \<Rightarrow> history \<Rightarrow> bool" where
  "restarts_at n h \<longleftrightarrow> n < length h \<and> h ! n = Ran [''restart'', BLUETOOTH_UNIT] 60 (Completed 0 [])"

definition settles_at :: "nat \<Rightarrow> history \<Rightarrow> bool" where
  "settles_at n h \<longleftrightarrow> n < length h
     \<and> (case h ! n of Saved s \<Rightarrow> ss_recovery_failed s \<and> \<not> ss_terminal_stop_pending s | _ \<Rightarrow> False)
     \<and> (case last_saved (take n h) None of None \<Rightarrow> False | Some s \<Rightarrow> state_ok s \<and> ss_terminal_stop_pending s)"

lemma reset_history_event: "restarts_at 9 reset_history"
  by code_simp

lemma latch_history_event: "settles_at 7 latch_history"
  by code_simp simp

lemma stop_pending_saved: "last_saved h None = Some s \<Longrightarrow> state_ok s \<Longrightarrow> stop_pending w h = ss_terminal_stop_pending s"
  by (simp add: stop_pending_def state_file_now_def del: parse_state.simps)

theorem bluetooth_only_under_stopped_bridge_witness:
  "stop_verified sample_cfg (take 9 reset_history)"
proof -
  have "passes (sample_world [exit_with ''76'' 10, exit_with ''76'' 50]) sample_units sample_cfg
      (take 9 reset_history @ Ran [''restart'', BLUETOOTH_UNIT] 60 (Completed 0 []) # drop (Suc 9) reset_history)"
    using id_take_nth_drop[of 9 reset_history] reset_history_event one_pass_from_start
    by (simp add: reset_history_def restarts_at_def)
  then show ?thesis by (rule bluetooth_only_under_stopped_bridge)
qed

theorem terminal_stop_settled_only_verified_witness:
  "stop_verified sample_cfg (take 7 latch_history)"
proof -
  let ?w = "sample_world (replicate 6 (exit_with ''79'' 10))"
  from latch_history_event obtain s where s: "latch_history ! 7 = Saved s" "\<not> ss_terminal_stop_pending s"
    by (auto simp: settles_at_def split: event.splits)
  then have "passes ?w sample_units sample_cfg (take 7 latch_history @ Saved s # drop (Suc 7) latch_history)"
    using id_take_nth_drop[of 7 latch_history] latch_history_event one_pass_from_start
    by (simp add: latch_history_def settles_at_def)
  moreover have "stop_pending ?w (take 7 latch_history)"
    using latch_history_event by (auto simp: settles_at_def stop_pending_saved split: option.splits)
  ultimately show ?thesis using s(2) by (rule terminal_stop_settled_only_verified)
qed

end
