(* ===== verification/Supervisor_Outcomes.thy ===== *)
theory Supervisor_Outcomes
  imports Supervisor_Stops
begin

text \<open>
  How passes leave things: a reset that stopped the bridge has started it again, and a pass that loads a latched
  state only stops.
\<close>

section \<open>A stopped bridge is started again\<close>

text \<open>A completed stop owes a start; any attempt to start the bridge settles it.\<close>

definition owes :: "settings \<Rightarrow> event \<Rightarrow> bool \<Rightarrow> bool" where
  "owes cfg ev b = (case ev of
       Ran args t r \<Rightarrow>
         if args = [''stop'', bridge_unit cfg] then (case r of Completed code out \<Rightarrow> code = 0 \<or> b | _ \<Rightarrow> b)
         else if args = [''start'', bridge_unit cfg] then False else b
     | _ \<Rightarrow> b)"

definition start_owed :: "settings \<Rightarrow> history \<Rightarrow> bool" where
  "start_owed cfg h = fold (owes cfg) h False"

abbreviation "settled cfg h \<equiv> \<not> start_owed cfg h"

lemma start_owed_snoc [simp]: "start_owed cfg (h @ [ev]) = owes cfg ev (start_owed cfg h)"
  by (simp add: start_owed_def)

lemma owes_simps [simp]:
  "owes cfg (Saved s) b = b" "owes cfg (Logged p m) b = b" "owes cfg (Slept d) b = b" "owes cfg (Consumed es) b = b"
  "owes cfg (Ran [''show'', u, PROPERTY_ARGUMENT] t r) b = b" "owes cfg (Ran [''restart'', u] t r) b = b"
  "owes cfg (Ran [''reset-failed'', u] t r) b = b"
  "\<not> owes cfg (Ran [''start'', bridge_unit cfg] t r) b"
  "code \<noteq> 0 \<Longrightarrow> owes cfg (Ran [''stop'', u] t (Completed code out)) b = b"
  "owes cfg (Ran [''stop'', u] t No_Process) b = b" "owes cfg (Ran [''stop'', u] t Timed_Out) b = b"
  by (simp_all add: owes_def)

lemma start_settles:
  assumes "bridge_unit cfg \<in> set allowed"
  shows "spec (\<lambda>_. True) P (bridge_systemctl w allowed cfg ''start'') (\<lambda>_. settled cfg) (\<lambda>_. settled cfg)"
  using assms
  by (auto simp: spec_def systemctl_def VERBS_def check_unit_def run_process_def andthen_def act_simps stays_def
      split: proc.splits)

lemma start_again_settles:
  assumes "bridge_unit cfg \<in> set allowed" "outcome \<noteq> Inr None"
  shows "spec (\<lambda>_. True) P (start_again w allowed cfg outcome) (\<lambda>_. settled cfg) (\<lambda>_. settled cfg)"
proof -
  have "spec (\<lambda>_. True) P (on_service_error (bridge_systemctl w allowed cfg ''start'') (\<lambda>_. give ()))
      (\<lambda>_. settled cfg) (\<lambda>_. settled cfg)"
    by (rule spec_on_service_error[OF start_settles[OF assms(1)]]) (auto intro!: spec_give)
  with assms(2) show ?thesis by (auto simp: start_again_def split: sum.splits option.splits)
qed

lemma trivially: "keeps (\<lambda>_. True) m \<Longrightarrow> spec (\<lambda>_. True) P m (\<lambda>_ _. True) (\<lambda>_ _. True)"
  by (rule spec_any)

lemma reset_steps_settled:
  assumes "bridge_unit cfg \<in> set allowed"
  shows "spec (\<lambda>_. True) P (reset_steps w allowed cfg) (\<lambda>r h. r = None \<longrightarrow> settled cfg h) (\<lambda>_ _. True)"
proof -
  let ?Q = "\<lambda>r h. r = None \<longrightarrow> settled cfg h"
  have finish: "spec (\<lambda>_. True) P (andthen (bridge_systemctl w allowed cfg ''start'') (\<lambda>_. give None)) ?Q (\<lambda>_ _. True)"
    for P :: "history \<Rightarrow> bool"
  proof (rule spec_andthen)
    show "spec (\<lambda>_. True) P (bridge_systemctl w allowed cfg ''start'') (\<lambda>_. settled cfg) (\<lambda>_ _. True)"
      by (rule spec_weaken[OF start_settles[OF assms]]) simp_all
  qed (simp add: spec_give)
  have "keeps (\<lambda>_. True) (take_exits w)" "keeps (\<lambda>_. True) (bridge_stopped w allowed cfg)"
    "keeps (\<lambda>_. True) (systemctl w allowed verb u t)" "keeps (\<lambda>_. True) (show_unit w allowed u)"
    "keeps (\<lambda>_. True) (wait_until w (is_active w allowed u) t i)" for verb u t i
    by (intro keeps_rules; simp)+
  note any = this[THEN trivially]
  show ?thesis
    unfolding reset_steps_def reset_bluetooth_def
    by (intro spec_andthen[OF any(2)] spec_andthen[OF any(1)] spec_andthen[OF any(3)] spec_andthen[OF any(5)]
        spec_andthen[OF any(4)] spec_andthen[OF spec_if[OF any(3)]] spec_if finish; (rule spec_give)?) auto
qed

lemma report_settled:
  "spec (\<lambda>_. True) (settled cfg) (report w s r) (\<lambda>_. settled cfg) (\<lambda>_. settled cfg)"
  "spec (\<lambda>_. True) (\<lambda>h. r = None \<longrightarrow> settled cfg h) (report w s r) (\<lambda>r h. r = None \<longrightarrow> settled cfg h) (\<lambda>_ _. True)"
proof -
  have k: "keeps (\<lambda>h. True \<and> settled cfg h) (report w s r)"
    unfolding report_def by (intro keeps_rules; simp)
  from spec_frame[OF k] show "spec (\<lambda>_. True) (settled cfg) (report w s r) (\<lambda>_. settled cfg) (\<lambda>_. settled cfg)" .
  show "spec (\<lambda>_. True) (\<lambda>h. r = None \<longrightarrow> settled cfg h) (report w s r) (\<lambda>r h. r = None \<longrightarrow> settled cfg h) (\<lambda>_ _. True)"
  proof (cases r)
    case None
    then show ?thesis by (simp add: report_def spec_give)
  next
    case (Some reason)
    have "spec (\<lambda>_. True) (\<lambda>h. r = None \<longrightarrow> settled cfg h) (fail_recovery w reason s) (\<lambda>_ _. True) (\<lambda>_ _. True)"
      by (rule trivially) (intro keeps_rules; simp)
    then have "spec (\<lambda>_. True) (\<lambda>h. r = None \<longrightarrow> settled cfg h) (andthen (fail_recovery w reason s) (\<lambda>s'. give (Some s')))
        (\<lambda>r h. r = None \<longrightarrow> settled cfg h) (\<lambda>_ _. True)"
      by (rule spec_andthen) (rule spec_give, simp)
    then show ?thesis unfolding report_def Some option.case .
  qed
qed

lemma stop_and_reset_settled:
  assumes "bridge_unit cfg \<in> set allowed"
  shows "spec (\<lambda>_. True) (settled cfg) (stop_and_reset w allowed cfg s) (\<lambda>_. settled cfg) (\<lambda>_. settled cfg)"
proof -
  have stop: "spec (\<lambda>_. True) (settled cfg)
      (on_service_error (andthen (bridge_systemctl w allowed cfg ''stop'') (\<lambda>_. give None)) (\<lambda>v. give (Some (''service_manager_'' @ v))))
      (\<lambda>r h. r \<noteq> None \<longrightarrow> settled cfg h) (\<lambda>_. settled cfg)"
    by (auto simp: spec_def on_service_error_def handle_def systemctl_def check_unit_def run_process_def andthen_def
        act_simps stays_def split: proc.splits)
  have steps: "spec (\<lambda>_. True) (\<lambda>_. True)
      (andthen (on_service_error (reset_steps w allowed cfg) (\<lambda>v. give (Some (''service_manager_'' @ v)))) (report w s))
      (\<lambda>r h. r = None \<longrightarrow> settled cfg h) (\<lambda>_ _. True)"
    by (rule spec_andthen[OF spec_on_service_error[OF reset_steps_settled[OF assms]] report_settled(2)])
      (auto intro!: spec_give)
  have "spec (\<lambda>_. True) (\<lambda>h. x = None \<longrightarrow> settled cfg h) (start_again w allowed cfg (Inr x)) (\<lambda>_. settled cfg) (\<lambda>_. settled cfg)" for x
    by (cases x) (auto intro!: start_again_settles[OF assms] simp: start_again_def[of _ _ _ "Inr None"] spec_give)
  then have tries: "spec (\<lambda>_. True) (\<lambda>_. True)
      (finally_do (andthen (on_service_error (reset_steps w allowed cfg) (\<lambda>v. give (Some (''service_manager_'' @ v)))) (report w s))
         (start_again w allowed cfg)) (\<lambda>_. settled cfg) (\<lambda>_. settled cfg)"
    by (rule spec_finally_do[OF steps]) (rule start_again_settles[OF assms], simp)
  show ?thesis
    unfolding stop_and_reset_def
  proof (rule spec_andthen[OF stop])
    show "spec (\<lambda>_. True) (\<lambda>h. r \<noteq> None \<longrightarrow> settled cfg h)
       (case r of Some reason \<Rightarrow> report w s r | None \<Rightarrow> finally_do (andthen (on_service_error (reset_steps w allowed cfg)
            (\<lambda>v. give (Some (''service_manager_'' @ v)))) (report w s)) (start_again w allowed cfg))
       (\<lambda>_. settled cfg) (\<lambda>_. settled cfg)" for r
      by (cases r; simp only: option.case; rule spec_pre[OF tries] spec_pre[OF report_settled(1)]; simp)
  qed
qed

lemma recover_settled:
  assumes "bridge_unit cfg \<in> set allowed"
  shows "spec (\<lambda>_. True) (settled cfg) (recover w allowed cfg s previous) (\<lambda>_. settled cfg) (\<lambda>_. settled cfg)"
proof -
  have k: "keeps (\<lambda>h. True \<and> settled cfg h) (save_state w s')" "keeps (\<lambda>h. True \<and> settled cfg h) (emit (Logged p m))"
    "keeps (\<lambda>h. True \<and> settled cfg h) (andthen (wait_until w (recovered w allowed cfg previous) t i) (\<lambda>ok. verify_result w cfg ok s'))"
    for s' p m t i
    unfolding recovered_def verify_result_def Let_def by (intro keeps_rules; simp)+
  have after: "spec (\<lambda>_. True) (settled cfg) (case r of
         Some s' \<Rightarrow> give (False, s')
       | None \<Rightarrow> andthen (wait_until w (recovered w allowed cfg previous) t i) (\<lambda>ok. verify_result w cfg ok s'))
      (\<lambda>_. settled cfg) (\<lambda>_. settled cfg)" for r t i s'
    using spec_frame[OF k(3)] by (cases r) (auto intro!: spec_give)
  show ?thesis
    unfolding recover_def reset_and_verify_def
    by (intro spec_andthen[where R = "\<lambda>_. settled cfg"] spec_ask spec_frame[OF k(1)] spec_frame[OF k(2)]
        stop_and_reset_settled[OF assms] after)
qed

text \<open>
  C28: a Bluetooth reset never leaves the bridge stopped on purpose. However the reset ends, with
  success, at any failing step, at a deadline or by an exception of its files or of parsing, a
  stop of the bridge that completed during it is followed by an attempt to start the bridge.
\<close>

theorem reset_starts_bridge_again:
  assumes "bridge_unit cfg \<in> set allowed" "\<not> start_owed cfg h"
  shows "\<not> start_owed cfg (snd (recover w allowed cfg s previous h))"
  using specD[OF recover_settled[OF assms(1)], where h = h] assms(2)
  by (cases "fst (recover w allowed cfg s previous h)") blast+

section \<open>A latched supervisor only stops\<close>

lemma decide_of_latched:
  assumes "ss_recovery_failed s0"
  shows "fst (decide (observe s0 u rv c cfg es) u rv c cfg) \<in> {ACTION_NONE, ACTION_STOP}"
proof (cases "ss_recovery_failed (observe s0 u rv c cfg es)")
  case True
  then show ?thesis by (rule decide_latched)
next
  case False
  then have "trusted_ready rv u"
    using observe_unlatches[OF assms False] by (auto simp: trusted_ready_def)
  with False show ?thesis by (simp add: decide_def)
qed

text \<open>Showing and stopping the bridge, and saving states that satisfy \<open>ok\<close>.\<close>

definition only_stops :: "settings \<Rightarrow> (sup_state \<Rightarrow> bool) \<Rightarrow> event \<Rightarrow> bool" where
  "only_stops cfg ok ev = (case ev of
       Ran args t r \<Rightarrow> args \<in> {[''show'', bridge_unit cfg, PROPERTY_ARGUMENT], [''stop'', bridge_unit cfg]}
     | Saved s \<Rightarrow> ok s
     | _ \<Rightarrow> True)"

lemma only_stops_simps [simp]:
  "only_stops cfg ok (Saved s) = ok s" "only_stops cfg ok (Logged p m)" "only_stops cfg ok (Slept d)"
  "only_stops cfg ok (Consumed es)" "only_stops cfg ok Locked" "only_stops cfg ok Unlocked"
  "only_stops cfg ok (Ran [''show'', bridge_unit cfg, PROPERTY_ARGUMENT] t r)"
  "only_stops cfg ok (Ran [''stop'', bridge_unit cfg] t r)"
  by (simp_all add: only_stops_def)

definition latched_pass :: "settings \<Rightarrow> (sup_state \<Rightarrow> bool) \<Rightarrow> history \<Rightarrow> history \<Rightarrow> bool" where
  "latched_pass cfg ok h h' \<longleftrightarrow> (\<exists>es. h' = h @ es \<and> list_all (only_stops cfg ok) es)"

lemma latched_pass_refl [simp]: "latched_pass cfg ok h h"
  by (simp add: latched_pass_def)

lemma latched_pass_snoc: "latched_pass cfg ok h h' \<Longrightarrow> only_stops cfg ok ev \<Longrightarrow> latched_pass cfg ok h (h' @ [ev])"
  unfolding latched_pass_def by fastforce

lemma stop_terminally_latched:
  "ok (s\<lparr>ss_terminal_stop_pending := False\<rparr>) \<Longrightarrow> keeps (latched_pass cfg ok h) (stop_terminally w allowed cfg s)"
  unfolding stop_terminally_def by (intro keeps_rules latched_pass_snoc; simp)

lemma act_on_latched:
  assumes "fst d \<in> {ACTION_NONE, ACTION_STOP}" "ok s" "ok (s\<lparr>ss_terminal_stop_pending := False\<rparr>)"
  shows "keeps (latched_pass cfg ok h) (act_on w allowed cfg s u rv d)"
  using assms stop_terminally_latched[where ok = ok and s = s, OF assms(3)] unfolding act_on_def
  by (cases "fst d"; simp; intro keeps_rules latched_pass_snoc; simp)

text \<open>The pass that loads \<open>s0\<close>.\<close>

definition loads :: "world \<Rightarrow> sup_state \<Rightarrow> history \<Rightarrow> bool" where
  "loads w s0 h \<longleftrightarrow> load_state (state_file_now w h) = Inr s0"

lemma loads_snoc [simp]: "(\<And>s. ev \<noteq> Saved s) \<Longrightarrow> loads w s0 (h @ [ev]) = loads w s0 h"
  by (simp add: loads_def state_file_now_def)

lemma run_once_latched:
  assumes "ss_recovery_failed s0" "\<And>u rv c es. ok (observe s0 u rv c cfg es)"
    and "\<And>s. ok s \<Longrightarrow> ok (s\<lparr>ss_terminal_stop_pending := False\<rparr>)"
  shows "spec (latched_pass cfg ok h) (loads w s0) (run_once w allowed cfg) (\<lambda>_ _. True) (\<lambda>_ _. True)"
proof -
  let ?I = "latched_pass cfg ok h"
  have act: "spec ?I P (andthen (if b then emit (Logged p m) else give ())
        (\<lambda>_. act_on w allowed cfg (observe s0 u rv c cfg es) u rv (decide (observe s0 u rv c cfg es) u rv c cfg)))
      (\<lambda>_ _. True) (\<lambda>_ _. True)" for P :: "history \<Rightarrow> bool" and b p m u rv c es
  proof (rule spec_any)
    have "keeps ?I (act_on w allowed cfg (observe s0 u rv c cfg es) u rv (decide (observe s0 u rv c cfg es) u rv c cfg))"
      by (rule act_on_latched) (simp_all only: decide_of_latched assms)
    then show "keeps ?I (andthen (if b then emit (Logged p m) else give ())
        (\<lambda>_. act_on w allowed cfg (observe s0 u rv c cfg es) u rv (decide (observe s0 u rv c cfg es) u rv c cfg)))"
      by (intro keeps_rules latched_pass_snoc; simp)
  qed
  have read: "spec ?I (loads w s0) (read_state w) (\<lambda>s _. s = s0) (\<lambda>_ _. True)"
    unfolding read_state_def
    by (rule spec_andthen[where R = "\<lambda>r _. r = Inr s0"]) (auto intro!: spec_ask spec_from_sum simp: loads_def)
  have rest: "spec ?I P (load_record w) (\<lambda>_ _. True) (\<lambda>_ _. True)" "spec ?I P (take_exits w) (\<lambda>_ _. True) (\<lambda>_ _. True)"
    for P :: "history \<Rightarrow> bool"
    by (rule spec_any; intro keeps_rules latched_pass_snoc; simp)+
  have show_bridge: "spec ?I (loads w s0) (on_service_error (andthen (show_unit w allowed (bridge_unit cfg)) (\<lambda>props. give (Some (from_properties props))))
        (\<lambda>_. andthen (emit (Logged 3 ''Unable to read the bridge unit state; nothing done'')) (\<lambda>_. give None)))
      (\<lambda>_. loads w s0) (\<lambda>_ _. True)"
    by (rule spec_framed) (intro keeps_rules; auto intro: latched_pass_snoc)
  have locked: "spec ?I (loads w s0) (locked_pass w allowed cfg) (\<lambda>_ _. True) (\<lambda>_ _. True)"
    unfolding locked_pass_def Let_def
  proof (rule spec_andthen[OF show_bridge], goal_cases)
    case (1 r)
    show ?case
    proof (cases r)
      case (Some u)
      show ?thesis unfolding Some option.case
      proof (rule spec_andthen[OF read], goal_cases)
        case (1 s)
        show ?case
        proof (cases "s = s0")
          case True
          then show ?thesis
            by (simp only:) (intro spec_andthen[OF rest(1)] spec_andthen[OF rest(2)] spec_andthen[OF spec_ask act] TrueI)
        qed (simp add: spec_False)
      qed
    qed (simp add: spec_give)
  qed
  show ?thesis
    unfolding run_once_def exclusive_lock_def
    by (intro spec_andthen[where R = "\<lambda>_. loads w s0"] spec_ask spec_if spec_throw spec_emit spec_give
        spec_finally_do[where R = "\<lambda>_ _. True" and F = "\<lambda>_ _. True"] locked)
      (simp_all add: latched_pass_snoc)
qed

text \<open>
  C25: a latched supervisor only stops. A pass that loads a latched state starts no process other than showing and
  stopping the bridge: it never starts the bridge and never touches Bluetooth. If moreover a
  terminal stop is pending or no healthy period was under way, every state it saves is latched.
\<close>

theorem latched_pass_only_stops:
  assumes "load_state (state_file_now w h) = Inr s0" "ss_recovery_failed s0"
  shows "\<exists>es. snd (run_once w allowed cfg h) = h @ es
    \<and> list_all (only_stops cfg (\<lambda>s. ss_terminal_stop_pending s0 \<or> ss_ready_since s0 = None \<longrightarrow> ss_recovery_failed s)) es"
proof -
  let ?ok = "\<lambda>s. ss_terminal_stop_pending s0 \<or> ss_ready_since s0 = None \<longrightarrow> ss_recovery_failed s"
  have "?ok (observe s0 u rv c cfg es)" for u rv c es
    using observe_unlatches[OF assms(2), of u rv c cfg es] by (cases "ss_recovery_failed (observe s0 u rv c cfg es)") auto
  then have pass: "spec (latched_pass cfg ?ok h) (loads w s0) (run_once w allowed cfg) (\<lambda>_ _. True) (\<lambda>_ _. True)"
    by (intro run_once_latched[OF assms(2)]) simp_all
  have "stays (latched_pass cfg ?ok h) h (snd (run_once w allowed cfg h))"
    by (rule specD(1)[OF pass]) (simp_all add: loads_def assms(1))
  from stays_end[OF this] show ?thesis by (simp add: latched_pass_def)
qed

theorem reset_starts_bridge_again_witness:
  "\<not> start_owed sample_cfg (snd (recover (sample_world []) sample_units sample_cfg new_state None []))"
  by (rule reset_starts_bridge_again) (simp_all add: sample_cfg_def start_owed_def)

theorem latched_pass_only_stops_witness:
  "\<exists>es. snd (run_once ((sample_world [])\<lparr>w_state_file := Unreadable\<rparr>) sample_units sample_cfg []) = es
    \<and> list_all (only_stops sample_cfg ss_recovery_failed) es"
proof -
  have "load_state (state_file_now ((sample_world [])\<lparr>w_state_file := Unreadable\<rparr>) []) = Inr unreadable_state"
    by (simp add: state_file_now_def)
  from latched_pass_only_stops[OF this] show ?thesis
    by (simp add: unreadable_state_def)
qed

end
