(* ===== verification/Supervisor_Budget.thy ===== *)
theory Supervisor_Budget
  imports Supervisor_Triples
begin

text \<open>
  The budget of Bluetooth resets over any number of passes, killed anywhere: each reset is charged in the
  saved state before it starts, and no window holds more charges of resets than the settings allow. The
  theorem is for the passes of one boot; the initial state file is arbitrary.
\<close>

section \<open>States that load with their charges\<close>

definition loadable :: "sup_state \<Rightarrow> bool" where
  "loadable s \<longleftrightarrow>
     list_all stamp_ok (ss_ble_failures s) \<and> list_all stamp_ok (ss_resets s)
   \<and> list_all stamp_ok (ss_plain_restarts s) \<and> 0 \<le> ss_plain_restart_streak s
   \<and> 0 \<le> ss_startup_failure_streak s \<and> pred_option stamp_ok (ss_ready_since s)
   \<and> list_all instance_id_ok (ss_stuck_counted s) \<and> 0 \<le> ss_mqtt_reconnects s"

lemma state_ok_loadable: "state_ok s \<Longrightarrow> loadable s"
  by (simp add: state_ok_def loadable_def)

lemma loadable_file:
  assumes "loadable s" "state_json s = JObj d"
  shows "ss_resets (state_of_object d) = ss_resets s"
proof -
  note d = assms(2)[unfolded state_json_def json.inject, symmetric]
  show ?thesis
  proof (cases "ss_ready_since s")
    case None
    with assms(1) show ?thesis
      unfolding state_of_object_def
      by (simp add: d loadable_def state_fields_ok_def is_int_from_def)
  next
    case (Some t)
    with assms(1) show ?thesis
      unfolding state_of_object_def
      by (simp add: d loadable_def state_fields_ok_def is_int_from_def)
  qed
qed

lemma loadable_loads:
  assumes "loadable s" "last_saved h None = Some s" "load_state (state_file_now w h) = Inr s'"
  shows "ss_resets s' = ss_resets s"
proof -
  obtain d where d: "state_json s = JObj d" by (simp add: state_json_def)
  with assms(2,3) have "s' = state_of_object d" by (simp add: state_file_now_def)
  with loadable_file[OF assms(1) d] show ?thesis by simp
qed

text \<open>Observing and acting keep states loadable.\<close>

definition record_ok :: "record_view option \<Rightarrow> bool" where
  "record_ok rv = pred_option (\<lambda>r. instance_id_ok (rv_instance_id r) \<and> 0 \<le> rv_mqtt_reconnects r) rv"

definition clock_ok :: "clock \<Rightarrow> bool" where
  "clock_ok c \<longleftrightarrow> 0 \<le> ck_boottime c \<and> 0 \<le> ck_wall c"

lemma stamp_now_ok [simp]: "clock_ok c \<Longrightarrow> stamp_ok (stamp_now c)"
  by (simp add: clock_ok_def stamp_ok_def stamp_now_def)

lemma list_all_recent: "list_all P xs \<Longrightarrow> list_all P (recent xs c w)"
  by (auto simp: recent_def list_all_iff)

lemma count_exits_loadable: "loadable s \<Longrightarrow> list_all exit_ok es \<Longrightarrow> loadable (fold count_exit es s)"
  by (induction es arbitrary: s) (simp_all add: loadable_def count_exit_def exit_ok_def Let_def)

lemma observe_loadable:
  assumes "loadable s" "list_all exit_ok es" "record_ok rv" "clock_ok c"
  shows "loadable (observe s u rv c cfg es)"
proof -
  have p: "loadable (prune c cfg (fold count_exit es s))"
    using count_exits_loadable[OF assms(1,2)] by (simp add: loadable_def list_all_recent prune_def)
  show ?thesis
  proof (cases "trusted_record rv u")
    case None
    with p show ?thesis by (simp add: observe_def loadable_def not_ready_def)
  next
    case (Some r)
    with assms(3) have r: "instance_id_ok (rv_instance_id r)" "0 \<le> rv_mqtt_reconnects r"
      by (auto simp: trusted_record_def record_ok_def split: option.splits if_splits)
    have ready: "loadable (observe_ready r c cfg s')" if "loadable s'" for s'
      using that assms(4) by (cases "ss_ready_since s'") (simp_all add: observe_ready_def loadable_def)
    have "loadable (count_stuck r c cfg s')" if "loadable s'" for s'
      using that r assms(4) by (simp add: count_stuck_def loadable_def list_all_last_n list_all_replicate)
    with Some p r ready show ?thesis
      by (simp add: observe_def Let_def loadable_def not_ready_def end_streaks_def)
  qed
qed

lemma parse_record_ok: "parse_record n raw boot ticks = Inr rv \<Longrightarrow> record_ok rv"
proof (cases rv)
  case (Some r)
  assume p: "parse_record n raw boot ticks = Inr rv"
  from p[unfolded Some] show ?thesis
  proof (cases rule: parse_record_Some)
    case (1 d)
    obtain iid where "get d ''instance_id'' = JStr iid" "instance_id_ok iid"
      using record_not_rejected(1)[OF 1(3)] by (auto simp: is_valid_instance_id_iff)
    moreover have "0 \<le> the_int (get_default d ''mqtt_reconnects'' (JInt 0))"
      using record_not_rejected(6)[OF 1(3)] by (simp add: is_int_from_def)
    ultimately show ?thesis using 1 Some by (simp add: record_ok_def)
  qed
qed (simp add: record_ok_def)

section \<open>The charges of the resets in a history\<close>

text \<open>The charge of a reset is the last reset stamp of the state saved before it.\<close>

definition charge_of :: "sup_state option \<Rightarrow> stamp option" where
  "charge_of acc = (case acc of
       None \<Rightarrow> None
     | Some s \<Rightarrow> if ss_resets s = [] then None else Some (last (ss_resets s)))"

fun reset_charges :: "history \<Rightarrow> sup_state option \<Rightarrow> stamp option list" where
  "reset_charges [] acc = []"
| "reset_charges (Saved s # h) acc = reset_charges h (Some s)"
| "reset_charges (Ran args t r # h) acc =
     (if args = [''restart'', BLUETOOTH_UNIT] then [charge_of acc] else []) @ reset_charges h acc"
| "reset_charges (_ # h) acc = reset_charges h acc"

definition reset_times :: "history \<Rightarrow> time list" where
  "reset_times h = map (\<lambda>x. st_t (the x)) (reset_charges h None)"

abbreviation "boottime w h \<equiv> ck_boottime (w_clock w h)"

text \<open>One boot: the boot's id and a boot clock that never goes back; clocks are not negative.\<close>

definition one_boot :: "world \<Rightarrow> string \<Rightarrow> bool" where
  "one_boot w b \<longleftrightarrow> (\<forall>h. ck_boot_id (w_clock w h) = Some b \<and> clock_ok (w_clock w h))
     \<and> (\<forall>h ev. boottime w h \<le> boottime w (h @ [ev]))"

definition boot_times :: "string \<Rightarrow> stamp list \<Rightarrow> time list" where
  "boot_times b R = map st_t (filter (\<lambda>s. st_boot s = Some b) R)"

text \<open>The window \<open>W\<close> with at most \<open>cap\<close> resets is one the supervisor enforces.\<close>

definition limit :: "settings \<Rightarrow> time \<Rightarrow> nat \<Rightarrow> bool" where
  "limit cfg W cap \<longleftrightarrow> 0 < W \<and> W \<le> of_int (long_window cfg)
     \<and> (W = of_int (short_window cfg) \<and> cap = nat (max_resets_short cfg)
        \<or> W = of_int (long_window cfg) \<and> cap = nat (max_resets_long cfg))"

lemma reset_charges_snoc: "reset_charges (h @ [ev]) acc = reset_charges h acc @
    (case ev of Ran args t r \<Rightarrow> if args = [''restart'', BLUETOOTH_UNIT] then [charge_of (last_saved h acc)] else [] | _ \<Rightarrow> [])"
  by (induction h acc rule: reset_charges.induct) (cases ev; simp)+

lemma reset_charges_quiet [simp]:
  "quiet ev \<Longrightarrow> reset_charges (h @ [ev]) None = reset_charges h None"
  "reset_charges (h @ [Saved s]) None = reset_charges h None"
  by (cases ev; simp add: reset_charges_snoc quiet_def) (simp add: reset_charges_snoc)

lemma reset_times_quiet [simp]:
  "quiet ev \<Longrightarrow> reset_times (h @ [ev]) = reset_times h" "reset_times (h @ [Saved s]) = reset_times h"
  by (simp_all add: reset_times_def)

lemma last_saved_quiet [simp]: "quiet ev \<Longrightarrow> last_saved (h @ [ev]) None = last_saved h None"
  by (cases ev) (simp_all add: quiet_def)

lemma one_boot_mono: "one_boot w b \<Longrightarrow> boottime w h \<le> boottime w (h @ [ev])"
  by (simp add: one_boot_def)

section \<open>The invariant\<close>

definition covers :: "world \<Rightarrow> string \<Rightarrow> time \<Rightarrow> stamp list \<Rightarrow> history \<Rightarrow> bool" where
  "covers w b W R h \<longleftrightarrow> (\<forall>n \<ge> boottime w h.
     length (recent_at W n (reset_times h)) \<le> length (recent_at W n (boot_times b R)))"

definition booked :: "world \<Rightarrow> string \<Rightarrow> time \<Rightarrow> sup_state \<Rightarrow> history \<Rightarrow> bool" where
  "booked w b W s h \<longleftrightarrow> loadable s \<and> covers w b W (ss_resets s) h"

definition in_budget :: "time \<Rightarrow> nat \<Rightarrow> time list \<Rightarrow> bool" where
  "in_budget W cap ts \<longleftrightarrow> (\<forall>T. length (filter (\<lambda>t. T - W < t \<and> t \<le> T) ts) \<le> cap)"

definition accounts :: "world \<Rightarrow> string \<Rightarrow> time \<Rightarrow> nat \<Rightarrow> history \<Rightarrow> bool" where
  "accounts w b W cap h \<longleftrightarrow>
     (last_saved h None = None \<longrightarrow> reset_charges h None = [])
   \<and> (\<forall>x \<in> set (reset_charges h None). \<exists>s. x = Some s \<and> st_boot s = Some b \<and> st_t s \<le> boottime w h)
   \<and> (\<forall>s. last_saved h None = Some s \<longrightarrow> booked w b W s h)
   \<and> in_budget W cap (reset_times h)"

text \<open>A saved charge that no reset has used yet.\<close>

definition chargeable :: "world \<Rightarrow> string \<Rightarrow> time \<Rightarrow> nat \<Rightarrow> sup_state \<Rightarrow> history \<Rightarrow> bool" where
  "chargeable w b W cap s h \<longleftrightarrow> loadable s \<and> last_saved h None = Some s \<and> ss_resets s \<noteq> []
   \<and> st_boot (last (ss_resets s)) = Some b \<and> st_t (last (ss_resets s)) \<le> boottime w h
   \<and> (\<forall>x \<in> set (reset_times h). x \<le> st_t (last (ss_resets s)))
   \<and> (\<forall>n \<ge> boottime w h. length (recent_at W n (reset_times h @ [st_t (last (ss_resets s))]))
        \<le> length (recent_at W n (boot_times b (ss_resets s))))
   \<and> length (recent_at W (st_t (last (ss_resets s))) (reset_times h)) < cap"

definition spare :: "world \<Rightarrow> string \<Rightarrow> time \<Rightarrow> nat \<Rightarrow> sup_state \<Rightarrow> history \<Rightarrow> bool" where
  "spare w b W cap s h \<longleftrightarrow> (\<forall>n \<ge> boottime w h. length (recent_at W n (boot_times b (ss_resets s))) < cap)"

lemma accounts_start: "0 < W \<Longrightarrow> accounts w b W cap []"
  by (simp add: accounts_def reset_times_def in_budget_def)

lemma quiet_accounts:
  assumes "one_boot w b" "quiet ev"
  shows "accounts w b W cap h \<Longrightarrow> accounts w b W cap (h @ [ev])"
    and "booked w b W s h \<Longrightarrow> booked w b W s (h @ [ev])"
    and "chargeable w b W cap s h \<Longrightarrow> chargeable w b W cap s (h @ [ev])"
    and "spare w b W cap s h \<Longrightarrow> spare w b W cap s (h @ [ev])"
proof -
  note m = one_boot_mono[OF assms(1), of h ev]
  show b: "booked w b W s h \<Longrightarrow> booked w b W s (h @ [ev])" for s
    using assms(2) m by (auto simp: booked_def covers_def)
  show "spare w b W cap s h \<Longrightarrow> spare w b W cap s (h @ [ev])"
    using m by (auto simp: spare_def)
  show "chargeable w b W cap s h \<Longrightarrow> chargeable w b W cap s (h @ [ev])"
    using assms(2) m by (simp add: chargeable_def)
  assume a: "accounts w b W cap h"
  then have "\<exists>s. x = Some s \<and> st_boot s = Some b \<and> st_t s \<le> boottime w (h @ [ev])" if "x \<in> set (reset_charges h None)" for x
    using that m unfolding accounts_def by (meson order_trans)
  with a b assms(2) show "accounts w b W cap (h @ [ev])"
    by (simp add: accounts_def)
qed

lemma saved_accounts:
  assumes "one_boot w b" "accounts w b W cap h" "booked w b W s h"
  shows "accounts w b W cap (h @ [Saved s])" "booked w b W s' h \<Longrightarrow> booked w b W s' (h @ [Saved s])"
    "spare w b W cap s' h \<Longrightarrow> spare w b W cap s' (h @ [Saved s])"
proof -
  note m = one_boot_mono[OF assms(1), of h "Saved s"]
  show b: "booked w b W s' h \<Longrightarrow> booked w b W s' (h @ [Saved s])" for s'
    using m by (auto simp: booked_def covers_def)
  show "spare w b W cap s' h \<Longrightarrow> spare w b W cap s' (h @ [Saved s])"
    using m by (auto simp: spare_def)
  have "\<exists>s. x = Some s \<and> st_boot s = Some b \<and> st_t s \<le> boottime w (h @ [Saved s'])" if "x \<in> set (reset_charges h None)" for x s'
    using that assms(2) one_boot_mono[OF assms(1)] unfolding accounts_def by (meson order_trans)
  with assms(2) b[OF assms(3)] show "accounts w b W cap (h @ [Saved s])"
    by (simp add: accounts_def)
qed

lemma in_budget_snoc:
  assumes "in_budget W cap ts" "\<forall>x \<in> set ts. x \<le> t" "length (recent_at W t ts) < cap"
  shows "in_budget W cap (ts @ [t])"
  unfolding in_budget_def
proof
  fix T
  show "length (filter (\<lambda>t. T - W < t \<and> t \<le> T) (ts @ [t])) \<le> cap"
  proof (cases "T - W < t \<and> t \<le> T")
    case True
    have "length (filter (\<lambda>t. T - W < t \<and> t \<le> T) ts) \<le> length (recent_at W t ts)"
      using True by (induction ts) auto
    with True assms(3) show ?thesis by simp
  next
    case False
    with assms(1) show ?thesis by (auto simp: in_budget_def)
  qed
qed

lemma restart_accounts:
  assumes "one_boot w b" "accounts w b W cap h" "chargeable w b W cap s h"
  shows "accounts w b W cap (h @ [Ran [''restart'', BLUETOOTH_UNIT] t r])"
    "booked w b W s (h @ [Ran [''restart'', BLUETOOTH_UNIT] t r])"
proof -
  let ?ev = "Ran [''restart'', BLUETOOTH_UNIT] t r"
  note m = one_boot_mono[OF assms(1), of h ?ev]
  let ?t = "last (ss_resets s)"
  have c: "reset_charges (h @ [?ev]) None = reset_charges h None @ [Some ?t]"
    using assms(3) by (simp add: reset_charges_snoc chargeable_def charge_of_def)
  then have ts: "reset_times (h @ [?ev]) = reset_times h @ [st_t ?t]"
    by (simp add: reset_times_def)
  show b: "booked w b W s (h @ [?ev])"
    using assms(3) m unfolding booked_def covers_def ts chargeable_def by (meson order_trans)
  have old: "\<exists>s. x = Some s \<and> st_boot s = Some b \<and> st_t s \<le> boottime w (h @ [?ev])" if "x \<in> set (reset_charges h None)" for x
    using that assms(2) m unfolding accounts_def by (meson order_trans)
  have "st_boot ?t = Some b" "st_t ?t \<le> boottime w (h @ [?ev])"
    using assms(3) m by (auto simp: chargeable_def)
  moreover have "in_budget W cap (reset_times h @ [st_t ?t])"
    using assms(2,3) by (intro in_budget_snoc) (simp_all add: accounts_def chargeable_def)
  moreover have "last_saved (h @ [?ev]) None = Some s"
    using assms(3) by (simp add: chargeable_def)
  ultimately show "accounts w b W cap (h @ [?ev])"
    using b old unfolding accounts_def c ts by auto
qed

lemma charge_accounts:
  assumes "one_boot w b" "accounts w b W cap h" "booked w b W s h" "spare w b W cap s h" "0 < W"
  shows "booked w b W (charge_reset (w_clock w h) s) h"
    "chargeable w b W cap (charge_reset (w_clock w h) s) (h @ [Saved (charge_reset (w_clock w h) s)])"
proof -
  let ?c = "w_clock w h"
  let ?s = "charge_reset ?c s"
  note m = one_boot_mono[OF assms(1), of h "Saved ?s"]
  have l: "loadable ?s"
    using assms(1,3) by (simp add: booked_def loadable_def charge_reset_def one_boot_def)
  have r: "ss_resets ?s = ss_resets s @ [stamp_now ?c]" by (simp add: charge_reset_def)
  have bt: "boot_times b (ss_resets ?s) = boot_times b (ss_resets s) @ [boottime w h]"
    using assms(1) by (simp add: r boot_times_def stamp_now_def one_boot_def)
  have cov: "length (recent_at W n (reset_times h)) \<le> length (recent_at W n (boot_times b (ss_resets s)))"
    if "boottime w h \<le> n" for n
    using assms(3) that by (simp add: booked_def covers_def)
  then show "booked w b W ?s h"
    using l unfolding booked_def covers_def bt by (auto intro: le_SucI)
  have "\<forall>x \<in> set (reset_times h). x \<le> boottime w h"
    using assms(2) by (auto simp: accounts_def reset_times_def)
  moreover have "length (recent_at W (boottime w h) (reset_times h)) < cap"
    using cov[of "boottime w h"] assms(4) unfolding spare_def by (meson le_less_trans order_refl)
  moreover have "length (recent_at W n (reset_times h @ [boottime w h])) \<le> length (recent_at W n (boot_times b (ss_resets ?s)))"
    if "boottime w (h @ [Saved ?s]) \<le> n" for n
    using cov[of n] that m unfolding bt by auto
  ultimately show "chargeable w b W cap ?s (h @ [Saved ?s])"
    using l m assms(1) unfolding chargeable_def r by (auto simp: stamp_now_def one_boot_def)
qed

section \<open>The programs keep the accounts\<close>

text \<open>\<open>s'\<close> holds the same resets and loads if \<open>s\<close> does.\<close>

definition books :: "sup_state \<Rightarrow> sup_state \<Rightarrow> bool" where
  "books s s' \<longleftrightarrow> ss_resets s' = ss_resets s \<and> (loadable s \<longrightarrow> loadable s')"

lemma books_booked: "books s s' \<Longrightarrow> booked w b W s h \<Longrightarrow> booked w b W s' h"
  by (simp add: books_def booked_def)

lemma books_simps [simp]:
  "books s s" "books s (latched reason s)" "books s (s\<lparr>ss_terminal_stop_pending := p\<rparr>)"
  "books s (s\<lparr>ss_last_result := r\<rparr>)" "books s (latched reason (s\<lparr>ss_last_result := r\<rparr>))"
  "books s (s\<lparr>ss_ble_failures := [], ss_startup_failure_streak := 0, ss_last_result := r\<rparr>)"
  "books s (latched reason s\<lparr>ss_terminal_stop_pending := p\<rparr>)"
  by (simp_all add: books_def loadable_def latched_def)

abbreviation "kept w b W cap s h \<equiv> accounts w b W cap h \<and> booked w b W s h"

lemma kept_quiet: "one_boot w b \<Longrightarrow> quiet ev \<Longrightarrow> kept w b W cap s h \<Longrightarrow> kept w b W cap s (h @ [ev])"
  by (simp add: quiet_accounts(1,2))

lemma kept_saved: "one_boot w b \<Longrightarrow> books s s' \<Longrightarrow> kept w b W cap s h \<Longrightarrow> kept w b W cap s (h @ [Saved s'])"
  using saved_accounts[of w b W cap h s'] books_booked by blast

lemma kept_programs:
  assumes "one_boot w b"
  shows "books s s' \<Longrightarrow> keeps (kept w b W cap s) (fail_recovery w reason s')"
    "keeps (kept w b W cap s) (report w s r)" "keeps (kept w b W cap s) (start_again w allowed cfg outcome)"
    "keeps (kept w b W cap s) (verify_result w cfg ok s)"
    "books s s' \<Longrightarrow> keeps (kept w b W cap s) (stop_terminally w allowed cfg s')"
    "keeps (kept w b W cap s) (wait_until w (recovered w allowed cfg previous) t i)"
proof -
  have latched: "books s s' \<Longrightarrow> books s (latched reason s')" for s' reason
    by (simp add: books_def loadable_def latched_def)
  have settled: "books s s' \<Longrightarrow> books s (s'\<lparr>ss_terminal_stop_pending := False\<rparr>)" for s'
    by (simp add: books_def loadable_def)
  show f: "books s s' \<Longrightarrow> keeps (kept w b W cap s) (fail_recovery w reason s')" for s' reason
    by (intro keeps_rules kept_saved[OF assms] kept_quiet[OF assms] latched; simp)
  show "keeps (kept w b W cap s) (report w s r)" "keeps (kept w b W cap s) (start_again w allowed cfg outcome)"
    unfolding report_def start_again_def by (intro keeps_rules f kept_quiet[OF assms] kept_saved[OF assms]; simp)+
  show "keeps (kept w b W cap s) (verify_result w cfg ok s)"
    unfolding verify_result_def Let_def by (intro keeps_rules f kept_quiet[OF assms] kept_saved[OF assms]; simp)
  show "books s s' \<Longrightarrow> keeps (kept w b W cap s) (stop_terminally w allowed cfg s')"
    unfolding stop_terminally_def by (intro keeps_rules kept_quiet[OF assms] kept_saved[OF assms] settled; simp)
  show "keeps (kept w b W cap s) (wait_until w (recovered w allowed cfg previous) t i)"
    unfolding recovered_def by (intro keeps_rules kept_quiet[OF assms]; simp)
qed

lemma chargeable_kept: "chargeable w b W cap s h \<Longrightarrow> booked w b W s h"
proof -
  assume c: "chargeable w b W cap s h"
  have "length (recent_at W n ts) \<le> length (recent_at W n (ts @ [t]))" for n ts t by simp
  with c show ?thesis unfolding chargeable_def booked_def covers_def by (meson order_trans)
qed

lemma reset_bluetooth_accounts:
  assumes "one_boot w b"
  shows "spec (accounts w b W cap) (chargeable w b W cap s) (reset_bluetooth w allowed cfg)
    (\<lambda>_. booked w b W s) (\<lambda>_. booked w b W s)"
proof -
  have exits: "spec (accounts w b W cap) (chargeable w b W cap s) (take_exits w)
      (\<lambda>_. chargeable w b W cap s) (\<lambda>_. booked w b W s)"
    by (rule spec_weaken[OF spec_frame[where P = "chargeable w b W cap s"]])
      (rule keeps_take_exits, simp_all add: quiet_accounts[OF assms] chargeable_kept)
  have restart: "spec (accounts w b W cap) (chargeable w b W cap s) (systemctl w allowed ''restart'' BLUETOOTH_UNIT t)
      (\<lambda>_. booked w b W s) (\<lambda>_. booked w b W s)" for t
    by (rule spec_systemctl) (simp_all add: restart_accounts[OF assms] chargeable_kept)
  have rest: "keeps (kept w b W cap s) (andthen (wait_until w (is_active w allowed BLUETOOTH_UNIT) t i) (\<lambda>active.
       if \<not> active then give (Some ''bluetooth_restart_timeout'')
       else andthen (show_unit w allowed (bridge_unit cfg)) (\<lambda>props.
       andthen (if map_of props ''Result'' = Some ''start-limit-hit''
                then bridge_systemctl w allowed cfg ''reset-failed'' else give ()) (\<lambda>_.
       andthen (bridge_systemctl w allowed cfg ''start'') (\<lambda>_. give None)))))" for t i
    by (intro keeps_rules kept_quiet[OF assms]; simp)
  show ?thesis unfolding reset_bluetooth_def
    by (rule spec_andthen[OF exits spec_andthen[OF restart spec_frame[OF rest]]])
qed

lemma reset_steps_accounts:
  assumes "one_boot w b"
  shows "spec (accounts w b W cap) (chargeable w b W cap s) (reset_steps w allowed cfg)
    (\<lambda>_. booked w b W s) (\<lambda>_. booked w b W s)"
proof -
  have "keeps (\<lambda>h. accounts w b W cap h \<and> chargeable w b W cap s h) (bridge_stopped w allowed cfg)"
    by (intro keeps_rules) (simp_all add: quiet_accounts[OF assms])
  from spec_frame[OF this] have stopped: "spec (accounts w b W cap) (chargeable w b W cap s) (bridge_stopped w allowed cfg)
      (\<lambda>_. chargeable w b W cap s) (\<lambda>_. booked w b W s)"
    by (rule spec_weaken) (simp_all add: chargeable_kept)
  show ?thesis unfolding reset_steps_def
    by (rule spec_andthen[OF stopped])
      (auto intro!: reset_bluetooth_accounts[OF assms] spec_give simp: chargeable_kept)
qed

lemma stop_and_reset_accounts:
  assumes "one_boot w b"
  shows "spec (accounts w b W cap) (chargeable w b W cap s) (stop_and_reset w allowed cfg s)
    (\<lambda>r h. booked w b W s h \<and> (\<forall>s'. r = Some s' \<longrightarrow> books s s')) (\<lambda>_ _. True)"
proof -
  let ?A = "accounts w b W cap" and ?C = "chargeable w b W cap s" and ?B = "booked w b W s"
  let ?Q = "\<lambda>r h. ?B h \<and> (\<forall>s'. r = Some s' \<longrightarrow> books s s')"
  have stop: "spec ?A ?C (on_service_error (andthen (bridge_systemctl w allowed cfg ''stop'') (\<lambda>_. give None))
      (\<lambda>v. give (Some (''service_manager_'' @ v)))) (\<lambda>_. ?C) (\<lambda>_ _. True)"
    by (rule spec_framed) (intro keeps_rules; simp add: quiet_accounts[OF assms])
  have report: "spec ?A ?B (report w s r) ?Q (\<lambda>_. ?B)" for r
  proof (cases r)
    case None
    then show ?thesis by (simp add: report_def spec_give)
  next
    case (Some reason)
    have "spec ?A ?B (save_state w (latched reason s)) (\<lambda>_. ?B) (\<lambda>_. ?B)"
      "spec ?A ?B (emit (Logged p m)) (\<lambda>_. ?B) (\<lambda>_. ?B)" for p m
      by (rule spec_frame, intro keeps_rules kept_saved[OF assms] kept_quiet[OF assms]; simp)+
    then have "spec ?A ?B (fail_recovery w reason s) (\<lambda>s' h. ?B h \<and> s' = latched reason s) (\<lambda>_. ?B)"
      unfolding fail_recovery_def by (intro spec_andthen spec_give) auto
    then have "spec ?A ?B (andthen (fail_recovery w reason s) (\<lambda>s'. give (Some s'))) ?Q (\<lambda>_. ?B)"
      by (rule spec_andthen) (auto intro!: spec_give)
    then show ?thesis unfolding Some report_def option.case .
  qed
  have steps: "spec ?A ?C (andthen (on_service_error (reset_steps w allowed cfg) (\<lambda>v. give (Some (''service_manager_'' @ v)))) (report w s))
      ?Q (\<lambda>_. ?B)"
    by (rule spec_andthen[OF spec_on_service_error[OF reset_steps_accounts[OF assms]] report])
      (auto intro!: spec_give)
  have again: "spec ?A (?Q x) (start_again w allowed cfg outcome) (\<lambda>_. ?Q x) (\<lambda>_ _. True)" for x outcome
  proof -
    have "spec ?A ?B (start_again w allowed cfg outcome) (\<lambda>_. ?B) (\<lambda>_ _. True)"
      by (rule spec_framed) (rule kept_programs(3)[OF assms])
    note start = this
    show ?thesis
    proof (cases "\<forall>s'. x = Some s' \<longrightarrow> books s s'")
      case True
      then show ?thesis by (intro spec_weaken[OF start]) simp_all
    next
      case False
      then show ?thesis by (intro spec_pre[OF spec_False]) blast
    qed
  qed
  have again_error: "spec ?A ?B (start_again w allowed cfg outcome) (\<lambda>_ _. True) (\<lambda>_ _. True)" for outcome
    by (rule spec_weaken[OF spec_framed[OF kept_programs(3)[OF assms]]]) simp_all
  show ?thesis unfolding stop_and_reset_def
  proof (rule spec_andthen[OF stop])
    show "spec ?A ?C
       (case r of Some reason \<Rightarrow> report w s r | None \<Rightarrow> finally_do (andthen (on_service_error (reset_steps w allowed cfg)
            (\<lambda>v. give (Some (''service_manager_'' @ v)))) (report w s)) (start_again w allowed cfg))
       ?Q (\<lambda>_ _. True)" for r
    proof (cases r)
      case None
      then show ?thesis
        by (simp only: option.case) (rule spec_finally_do[OF steps again again_error])
    next
      case (Some reason)
      then show ?thesis
        by (simp only: option.case) (rule spec_weaken[OF report]; simp add: chargeable_kept)
    qed
  qed
qed

lemma reset_and_verify_accounts:
  assumes "one_boot w b"
  shows "spec (accounts w b W cap) (chargeable w b W cap s) (reset_and_verify w allowed cfg s previous)
    (\<lambda>r h. booked w b W s h \<and> books s (snd r)) (\<lambda>_ _. True)"
proof -
  let ?A = "accounts w b W cap" and ?B = "booked w b W s"
  let ?Q = "\<lambda>r h. ?B h \<and> books s (snd r)"
  have fail: "spec ?A ?B (andthen (fail_recovery w reason s') (\<lambda>s2. give (False, s2))) ?Q (\<lambda>_ _. True)" if "books s s'" for reason s'
  proof -
    have l: "books s (latched reason s')" using that by (simp add: books_def loadable_def latched_def)
    have "spec ?A ?B (save_state w (latched reason s')) (\<lambda>_. ?B) (\<lambda>_ _. True)" "spec ?A ?B (emit (Logged p m)) (\<lambda>_. ?B) (\<lambda>_ _. True)" for p m
      by (rule spec_framed, intro keeps_rules kept_saved[OF assms] kept_quiet[OF assms] l; simp)+
    then show ?thesis
      unfolding fail_recovery_def by (intro spec_andthen[where R = "\<lambda>x h. ?B h \<and> x = latched reason s'"] spec_andthen[where R = "\<lambda>_. ?B"] spec_give)
        (auto simp: l)
  qed
  have save: "spec ?A ?B (andthen (save_state w s') (\<lambda>_. andthen (emit (Logged p m)) (\<lambda>_. give (ok, s')))) ?Q (\<lambda>_ _. True)"
    if "books s s'" for s' p m ok
  proof -
    have "spec ?A ?B (save_state w s') (\<lambda>_. ?B) (\<lambda>_ _. True)" "spec ?A ?B (emit (Logged p m)) (\<lambda>_. ?B) (\<lambda>_ _. True)"
      by (rule spec_framed, intro keeps_rules kept_saved[OF assms] kept_quiet[OF assms] that; simp)+
    then show ?thesis by (intro spec_andthen spec_give) (auto simp: that)
  qed
  have verify: "spec ?A ?B (verify_result w cfg ok s) ?Q (\<lambda>_ _. True)" for ok
    unfolding verify_result_def Let_def
    by (intro spec_if spec_andthen[where R = "\<lambda>_. ?B", OF spec_ask] fail save; simp)
  have wait: "spec ?A ?B (wait_until w (recovered w allowed cfg previous) t i) (\<lambda>_. ?B) (\<lambda>_ _. True)" for t i
    by (rule spec_framed[OF kept_programs(6)[OF assms]])
  have next_step: "spec ?A (\<lambda>h. ?B h \<and> (\<forall>s'. r = Some s' \<longrightarrow> books s s')) (case r of
         Some s' \<Rightarrow> give (False, s')
       | None \<Rightarrow> andthen (wait_until w (recovered w allowed cfg previous) t i) (\<lambda>ok. verify_result w cfg ok s)) ?Q (\<lambda>_ _. True)" for r t i
    by (cases r) (auto intro!: spec_pre[OF spec_andthen[OF wait verify]] spec_give)
  show ?thesis unfolding reset_and_verify_def
    by (rule spec_andthen[OF stop_and_reset_accounts[OF assms] next_step])
qed

lemma recover_accounts:
  assumes "one_boot w b" "0 < W"
  shows "spec (accounts w b W cap) (\<lambda>h. booked w b W s h \<and> spare w b W cap s h) (recover w allowed cfg s previous)
    (\<lambda>r h. booked w b W (snd r) h) (\<lambda>_ _. True)"
  unfolding recover_def
proof (rule spec_andthen[where R = "\<lambda>c h. c = w_clock w h \<and> booked w b W s h \<and> spare w b W cap s h"])
  fix c
  let ?s = "charge_reset c s"
  have save: "spec (accounts w b W cap) (\<lambda>h. c = w_clock w h \<and> booked w b W s h \<and> spare w b W cap s h)
      (save_state w ?s) (\<lambda>_. chargeable w b W cap ?s) (\<lambda>_ _. True)"
    unfolding save_state_def
    by (rule spec_andthen[where R = "\<lambda>_ h. c = w_clock w h \<and> booked w b W s h \<and> spare w b W cap s h"])
      (auto intro!: spec_ask spec_throw spec_emit saved_accounts(1)[OF assms(1)]
        charge_accounts(1)[OF assms(1) _ _ _ assms(2)] charge_accounts(2)[OF assms(1) _ _ _ assms(2)])
  have logged: "spec (accounts w b W cap) (chargeable w b W cap ?s) (emit (Logged p m)) (\<lambda>_. chargeable w b W cap ?s) (\<lambda>_ _. True)" for p m
    by (rule spec_framed) (intro keeps_rules; simp add: quiet_accounts[OF assms(1)])
  have attempt: "spec (accounts w b W cap) (chargeable w b W cap ?s) (reset_and_verify w allowed cfg ?s previous)
      (\<lambda>r h. booked w b W (snd r) h) (\<lambda>_ _. True)"
    by (rule spec_weaken[OF reset_and_verify_accounts[OF assms(1)]]) (auto intro: books_booked)
  show "spec (accounts w b W cap) (\<lambda>h. c = w_clock w h \<and> booked w b W s h \<and> spare w b W cap s h)
      (andthen (save_state w ?s) (\<lambda>_. andthen (emit (Logged 4 ''Repeated Casambi BLE startup failure: resetting Bluetooth once''))
        (\<lambda>_. reset_and_verify w allowed cfg ?s previous)))
      (\<lambda>r h. booked w b W (snd r) h) (\<lambda>_ _. True)"
    by (rule spec_andthen[OF save spec_andthen[OF logged attempt]])
qed (simp add: spec_ask)

lemma restart_bridge_accounts:
  assumes "one_boot w b"
  shows "spec (accounts w b W cap) (booked w b W s) (restart_bridge w allowed cfg s) (\<lambda>s' h. booked w b W s' h) (\<lambda>_ _. True)"
proof -
  let ?A = "accounts w b W cap" and ?B = "booked w b W s"
  have tries: "spec ?A ?B (on_service_error
        (andthen (bridge_systemctl w allowed cfg ''reset-failed'') (\<lambda>_.
         andthen (bridge_systemctl w allowed cfg ''start'') (\<lambda>_. give True))) (\<lambda>_. give False)) (\<lambda>_. ?B) (\<lambda>_ _. True)"
    "spec ?A ?B (emit (Logged p m)) (\<lambda>_. ?B) (\<lambda>_ _. True)" for p m
    by (rule spec_framed, intro keeps_rules kept_quiet[OF assms]; simp)+
  have c: "clock_ok (w_clock w h)" for h using assms by (simp add: one_boot_def)
  have charged: "booked w b W (s\<lparr>ss_plain_restarts := ss_plain_restarts s @ [stamp_now c],
      ss_plain_restart_streak := ss_plain_restart_streak s + 1, ss_last_result := r\<rparr>) h" if "?B h" "clock_ok c" for c r h
    using that by (simp add: booked_def loadable_def)
  have finish: "spec ?A ?B (if b' then x else y) (\<lambda>s' h. booked w b W s' h) (\<lambda>_ _. True)"
    if "spec ?A ?B x (\<lambda>s' h. booked w b W s' h) (\<lambda>_ _. True)" "spec ?A ?B y (\<lambda>s' h. booked w b W s' h) (\<lambda>_ _. True)" for b' x y
    using that by simp
  show ?thesis unfolding restart_bridge_def Let_def
  proof (rule spec_andthen[where R = "\<lambda>c h. clock_ok c \<and> ?B h"])
    fix c
    show "spec ?A (\<lambda>h. clock_ok c \<and> ?B h)
     (andthen (on_service_error
        (andthen (bridge_systemctl w allowed cfg ''reset-failed'') (\<lambda>_.
         andthen (bridge_systemctl w allowed cfg ''start'') (\<lambda>_. give True))) (\<lambda>_. give False)) (\<lambda>ok.
     if \<not> ok then
       andthen (emit (Logged 3 ''Casambi bridge restart after systemd gave up failed'')) (\<lambda>_.
       give (s\<lparr>ss_plain_restarts := ss_plain_restarts s @ [stamp_now c],
                ss_plain_restart_streak := ss_plain_restart_streak s + 1, ss_last_result := ''bridge_restart_failed''\<rparr>))
     else
       andthen (emit (Logged 5 ''Casambi bridge restarted after systemd gave up (no Bluetooth reset)'')) (\<lambda>_.
       give (s\<lparr>ss_plain_restarts := ss_plain_restarts s @ [stamp_now c],
                ss_plain_restart_streak := ss_plain_restart_streak s + 1, ss_last_result := ''bridge_restarted''\<rparr>))))
     (\<lambda>s' h. booked w b W s' h) (\<lambda>_ _. True)"
    proof (cases "clock_ok c")
      case True
      then show ?thesis
        by (simp only: simp_thms) (intro spec_andthen[OF tries(1)] spec_andthen[OF tries(2)] finish spec_give charged)
    qed (simp add: spec_False)
  qed (auto intro!: spec_ask simp: c)
qed

lemma act_on_accounts:
  assumes "one_boot w b" "0 < W"
  shows "spec (accounts w b W cap) (\<lambda>h. booked w b W s h \<and> (fst d = ACTION_RECOVER \<longrightarrow> spare w b W cap s h))
    (act_on w allowed cfg s u rv d) (\<lambda>_ _. True) (\<lambda>_ _. True)"
proof -
  let ?A = "accounts w b W cap"
  have stop: "spec ?A (booked w b W s') (andthen (stop_terminally w allowed cfg s') (\<lambda>_. give x)) (\<lambda>_ _. True) (\<lambda>_ _. True)" for s' and x :: string
    by (rule spec_andthen[OF spec_framed[OF kept_programs(5)[OF assms(1) books_simps(1)]]]) (simp add: spec_give)
  have save: "spec ?A (booked w b W s') (save_state w s') (\<lambda>_. booked w b W s') (\<lambda>_ _. True)" for s'
    by (rule spec_framed) (intro keeps_rules kept_saved[OF assms(1)]; simp)
  have logged: "spec ?A (booked w b W s') (emit (Logged p m)) (\<lambda>_. booked w b W s') (\<lambda>_ _. True)" for s' p m
    by (rule spec_framed) (intro keeps_rules kept_quiet[OF assms(1)]; simp)
  have finish: "spec ?A (\<lambda>h. booked w b W (snd r) h) (if ss_recovery_failed (snd r)
          then andthen (stop_terminally w allowed cfg (snd r)) (\<lambda>_. give (ss_last_result (snd r)))
          else give (ss_last_result (snd r))) (\<lambda>_ _. True) (\<lambda>_ _. True)" for r
    by (intro spec_if stop spec_give) simp
  have latch: "booked w b W (latched r s) h" if "booked w b W s h" for r h
    using that books_booked books_simps(2) by blast
  have spare_saved: "spec ?A (\<lambda>h. booked w b W s h \<and> spare w b W cap s h) (save_state w s)
      (\<lambda>_ h. booked w b W s h \<and> spare w b W cap s h) (\<lambda>_ _. True)"
    unfolding save_state_def
    by (rule spec_andthen[where R = "\<lambda>_ h. booked w b W s h \<and> spare w b W cap s h"])
      (auto intro!: spec_ask spec_throw spec_emit simp: saved_accounts[OF assms(1)])
  show ?thesis
  proof (cases "fst d")
    case ACTION_NONE
    then show ?thesis unfolding act_on_def
      by (simp only: action.case) (rule spec_andthen[OF spec_pre[OF save]], simp_all add: spec_give)
  next
    case ACTION_RECOVER
    then show ?thesis unfolding act_on_def
      by (simp only: action.case simp_thms)
        (rule spec_andthen[OF spare_saved spec_andthen[OF recover_accounts[OF assms] finish]])
  next
    case ACTION_RESTART
    then show ?thesis unfolding act_on_def
      by (simp only: action.case)
        (rule spec_andthen[OF spec_pre[OF restart_bridge_accounts[OF assms(1)]] spec_andthen[OF save]], simp_all add: spec_give)
  next
    case ACTION_LATCH
    then show ?thesis unfolding act_on_def
      by (simp only: action.case)
        (rule spec_andthen[OF spec_pre[OF save] spec_andthen[OF logged stop]], simp add: latch)
  next
    case ACTION_STOP
    then show ?thesis unfolding act_on_def
      by (simp only: action.case) (rule spec_andthen[OF spec_pre[OF save] stop], simp)
  qed
qed

lemma observe_booked:
  assumes "one_boot w b" "limit cfg W cap" "booked w b W s h" "list_all exit_ok es" "record_ok rv"
  shows "booked w b W (observe s u rv (w_clock w h) cfg es) h"
proof -
  let ?c = "w_clock w h"
  have c: "clock_ok ?c" "ck_boot_id ?c = Some b" using assms(1) by (simp_all add: one_boot_def)
  have "recent_at W n (boot_times b (recent R ?c (of_int (long_window cfg)))) = recent_at W n (boot_times b R)"
    if "boottime w h \<le> n" for n R
    using that assms(2) c(2) by (induction R) (auto simp: boot_times_def recent_def is_recent_def limit_def)
  with assms(3) observe_loadable[OF _ assms(4,5) c(1), of s u cfg] show ?thesis
    by (simp add: booked_def covers_def)
qed

lemma decide_spare:
  assumes "one_boot w b" "limit cfg W cap" "fst (decide s u rv (w_clock w h) cfg) = ACTION_RECOVER"
  shows "spare w b W cap s h"
proof -
  let ?c = "w_clock w h"
  have "length (recent_at W (boottime w h) (boot_times b R)) \<le> length (recent R ?c W)" for R
    using assms(1) by (induction R) (auto simp: boot_times_def recent_def is_recent_def one_boot_def)
  moreover have "length (recent (ss_resets s) ?c W) < cap"
    using assms(2,3) by (auto simp: decide_recover reset_budget_spent_def limit_def)
  ultimately have "length (recent_at W (boottime w h) (boot_times b (ss_resets s))) < cap"
    by (meson le_less_trans)
  then show ?thesis
    unfolding spare_def by (meson le_less_trans length_recent_at_mono)
qed

lemma run_once_accounts:
  assumes "one_boot w b" "limit cfg W cap"
  shows "spec (accounts w b W cap) (\<lambda>_. True) (run_once w allowed cfg) (\<lambda>_ _. True) (\<lambda>_ _. True)"
proof -
  let ?A = "accounts w b W cap"
  have W: "0 < W" using assms(2) by (simp add: limit_def)
  have quiet_log: "spec ?A P (if b' then emit (Logged p m) else give ()) (\<lambda>_. P) (\<lambda>_ _. True)"
    if "\<And>h ev. P h \<Longrightarrow> quiet ev \<Longrightarrow> P (h @ [ev])" for P b' p m
    using that by (intro spec_if spec_emit spec_give) (simp_all add: quiet_accounts[OF assms(1)])
  have act: "spec ?A (\<lambda>h. c = w_clock w h \<and> booked w b W s0 h \<and> record_ok rv \<and> list_all exit_ok es)
      (andthen (if b' then emit (Logged p m) else give ())
        (\<lambda>_. act_on w allowed cfg (observe s0 u rv c cfg es) u rv (decide (observe s0 u rv c cfg es) u rv c cfg)))
      (\<lambda>_ _. True) (\<lambda>_ _. True)" for s0 u rv c es b' p m
  proof -
    let ?s = "observe s0 u rv c cfg es"
    let ?P = "\<lambda>h. booked w b W ?s h \<and> (fst (decide ?s u rv c cfg) = ACTION_RECOVER \<longrightarrow> spare w b W cap ?s h)"
    have "spec ?A ?P (andthen (if b' then emit (Logged p m) else give ())
        (\<lambda>_. act_on w allowed cfg ?s u rv (decide ?s u rv c cfg))) (\<lambda>_ _. True) (\<lambda>_ _. True)"
      by (rule spec_andthen[OF quiet_log act_on_accounts[OF assms(1) W]])
        (auto simp: quiet_accounts[OF assms(1)])
    then show ?thesis
      by (rule spec_pre) (auto intro: observe_booked[OF assms] decide_spare[OF assms])
  qed
  have read: "spec ?A (\<lambda>_. True) (read_state w) (\<lambda>s0 h. booked w b W s0 h) (\<lambda>_ _. True)"
    unfolding read_state_def
  proof (rule spec_andthen[where R = "\<lambda>r h. r = load_state (state_file_now w h)"])
    fix r
    show "spec ?A (\<lambda>h. r = load_state (state_file_now w h)) (from_sum Record_Error r)
        (\<lambda>s0 h. booked w b W s0 h) (\<lambda>_ _. True)"
    proof (rule spec_from_sum)
      fix h s0
      assume a: "?A h" "r = load_state (state_file_now w h)" "r = Inr s0"
      then have l: "load_state (state_file_now w h) = Inr s0" by simp
      then have ok: "loadable s0" using load_state_ok state_ok_loadable by blast
      show "booked w b W s0 h"
      proof (cases "last_saved h None")
        case None
        with a(1) ok show ?thesis by (simp add: accounts_def booked_def covers_def reset_times_def)
      next
        case (Some s)
        with a(1) have "booked w b W s h" by (simp add: accounts_def)
        with ok loadable_loads[OF _ Some l] show ?thesis by (simp add: booked_def)
      qed
    qed simp
  qed (simp add: spec_ask)
  have records: "spec ?A (booked w b W s0) (load_record w) (\<lambda>rv h. booked w b W s0 h \<and> record_ok rv) (\<lambda>_ _. True)" for s0
    unfolding load_record_def
    by (rule spec_andthen[where R = "\<lambda>r h. booked w b W s0 h \<and> (\<forall>rv. r = Inr rv \<longrightarrow> record_ok rv)"])
      (auto intro!: spec_ask spec_from_sum simp: record_ok_def[of None] dest: parse_record_ok split: option.splits)
  have exits: "spec ?A (\<lambda>h. booked w b W s0 h \<and> record_ok rv) (take_exits w)
      (\<lambda>es h. booked w b W s0 h \<and> record_ok rv \<and> list_all exit_ok es) (\<lambda>_ _. True)" for s0 rv
  proof -
    have entries: "spec ?A (\<lambda>h. (booked w b W s0 h \<and> record_ok rv) \<and> list_all exit_ok (fst x))
        (andthen (emit (Consumed (fst x))) (\<lambda>_. give (fst x)))
        (\<lambda>es h. booked w b W s0 h \<and> record_ok rv \<and> list_all exit_ok es) (\<lambda>_ _. True)" for x :: "exit_entry list \<times> loaded"
      by (rule spec_andthen[where R = "\<lambda>_ h. (booked w b W s0 h \<and> record_ok rv) \<and> list_all exit_ok (fst x)"])
        (auto intro!: spec_emit spec_give simp: quiet_accounts[OF assms(1)])
    show ?thesis unfolding take_exits_def
      by (rule spec_andthen[where R = "\<lambda>_ h. booked w b W s0 h \<and> record_ok rv"], simp add: spec_ask,
          rule spec_if, simp add: spec_throw,
          rule spec_andthen[where R = "\<lambda>r h. (booked w b W s0 h \<and> record_ok rv) \<and> (\<forall>x. r = Inr x \<longrightarrow> list_all exit_ok (fst x))"])
        (auto intro!: spec_ask spec_andthen[OF _ entries] spec_from_sum
          simp: consume_exits_def dest: read_exit_log_ok split: sum.splits)
  qed
  have show_bridge: "spec ?A (\<lambda>_. True) (on_service_error (andthen (show_unit w allowed (bridge_unit cfg)) (\<lambda>props. give (Some (from_properties props))))
        (\<lambda>_. andthen (emit (Logged 3 ''Unable to read the bridge unit state; nothing done'')) (\<lambda>_. give None)))
      (\<lambda>_ _. True) (\<lambda>_ _. True)"
    by (rule spec_any) (intro keeps_rules; simp add: quiet_accounts[OF assms(1)])
  have locked: "spec ?A (\<lambda>_. True) (locked_pass w allowed cfg) (\<lambda>_ _. True) (\<lambda>_ _. True)"
    unfolding locked_pass_def Let_def
  proof (rule spec_andthen[OF show_bridge], goal_cases)
    case (1 r)
    show ?case
      by (cases r; simp only: option.case; (intro spec_andthen[OF read] spec_andthen[OF records] spec_andthen[OF exits]
            spec_andthen[OF spec_ask act])?) (simp_all add: spec_give)
  qed
  show ?thesis
    unfolding run_once_def exclusive_lock_def
    by (intro spec_andthen[where R = "\<lambda>_ _. True"] spec_ask spec_if spec_throw spec_emit spec_give
        spec_finally_do[where R = "\<lambda>_ _. True" and F = "\<lambda>_ _. True"] locked)
      (simp_all add: quiet_accounts[OF assms(1)])
qed

text \<open>
  C2: Bluetooth resets stay within the budget. In every history of passes within one boot, each of them killed
  anywhere, whatever the state file held at the start: every restart of Bluetooth has a charge that was
  saved before it, and no time interval of the length of the long window holds the charges
  of more resets than allowed; nor does the short window, if it is not longer than the long one.
\<close>

theorem reset_budget_held:
  assumes "passes w allowed cfg h" "one_boot w b" "0 < short_window cfg" "0 < long_window cfg"
  shows "None \<notin> set (reset_charges h None)
    \<and> length (filter (\<lambda>t. T - of_int (long_window cfg) < t \<and> t \<le> T) (reset_times h)) \<le> nat (max_resets_long cfg)
    \<and> (short_window cfg \<le> long_window cfg \<longrightarrow>
        length (filter (\<lambda>t. T - of_int (short_window cfg) < t \<and> t \<le> T) (reset_times h)) \<le> nat (max_resets_short cfg))"
proof -
  have a: "accounts w b W cap h" if "limit cfg W cap" for W cap
    by (rule passes_keep[OF assms(1) _ run_once_accounts[OF assms(2) that]])
      (use that in \<open>simp add: accounts_start limit_def\<close>)
  have long: "accounts w b (of_int (long_window cfg)) (nat (max_resets_long cfg)) h"
    using assms(4) by (intro a) (simp add: limit_def)
  have "short_window cfg \<le> long_window cfg \<Longrightarrow> accounts w b (of_int (short_window cfg)) (nat (max_resets_short cfg)) h"
    using assms(3) by (intro a) (simp add: limit_def)
  with long show ?thesis unfolding accounts_def in_budget_def by auto
qed

lemma sample_world_one_boot: "one_boot (sample_world es) (replicate 36 (CHR ''c''))"
  by (simp add: one_boot_def sample_world_def clock_ok_def)

theorem reset_budget_held_witness:
  "None \<notin> set (reset_charges reset_history None)
   \<and> length (filter (\<lambda>t. 100 - of_int (long_window sample_cfg) < t \<and> t \<le> 100) (reset_times reset_history)) \<le> 2"
proof -
  let ?w = "sample_world [exit_with ''76'' 10, exit_with ''76'' 50]"
  have "passes ?w sample_units sample_cfg reset_history"
    unfolding reset_history_def by (rule one_pass_from_start)
  from reset_budget_held[OF this sample_world_one_boot, of 100]
  have "None \<notin> set (reset_charges reset_history None)
    \<and> length (filter (\<lambda>t. 100 - of_int (long_window sample_cfg) < t \<and> t \<le> 100) (reset_times reset_history))
        \<le> nat (max_resets_long sample_cfg)"
    by (simp add: sample_cfg_def[THEN arg_cong[where f = long_window]] sample_cfg_def[THEN arg_cong[where f = short_window]])
  then show ?thesis by (simp add: sample_cfg_def[THEN arg_cong[where f = max_resets_long]])
qed

end
