(* ===== verification/Switch_Decoder.thy ===== *)
theory Switch_Decoder
  imports Contracts "HOL-Library.Word"
begin

unbundle bit_operations_syntax

text \<open>
  \<^verbatim>\<open>src/switch_decoder.py\<close>: the parser of decrypted switch-event packets and the
  stateful decoder that turns frames into one event per physical action. Bytes are 8-bit words
  and the frame's numeric fields 16-bit words (\<^verbatim>\<open>int.from_bytes(data[p:p+2], "big")\<close> of two
  bytes); what the decoder emits are Python's unbounded ints. The clock is read once per packet.

  The parser is proved exact against the frame layout: the frames it returns are the ones whose
  encodings the packet starts with, followed by a strict prefix of one more frame. The table of
  recent actions, which forgets what can no longer suppress anything, is proved to emit exactly
  what a decoder that remembers every emitted event would emit.
\<close>

type_synonym byte = "8 word"

section \<open>Frames\<close>

abbreviation "HEADER_LENGTH \<equiv> 9 :: nat"
abbreviation "FLAG_HAS_ORIGIN_HANDLE \<equiv> 0x0200 :: 16 word"
abbreviation "PAYLOAD_LENGTH_MASK \<equiv> 0x3F :: 16 word"
abbreviation "BUTTON_EVENT_BASE \<equiv> 29 :: int"
abbreviation "BUTTON_EVENT_LAST \<equiv> 36 :: int"
abbreviation "INPUT_EVENT_BASE \<equiv> 64 :: int"
abbreviation "INPUT_EVENT_LAST \<equiv> 71 :: int"
abbreviation "TARGET_TYPE_BUTTON \<equiv> 0x06 :: 16 word"
abbreviation "TARGET_TYPE_INPUT \<equiv> 0x12 :: 16 word"
abbreviation "RETRANSMIT_WINDOW_SECONDS \<equiv> 1 / 2 :: time"
abbreviation "ORIGIN_RELEASE_BIT \<equiv> 0x02 :: 16 word"

record invocation_frame =
  if_flags :: "16 word"
  if_opcode :: byte
  if_origin :: "16 word"
  if_target :: "16 word"
  if_age :: "16 word"
  if_origin_handle :: "byte option"
  if_payload :: "byte list"

definition payload_len :: "invocation_frame \<Rightarrow> nat" where
  "payload_len f = unat (if_flags f AND PAYLOAD_LENGTH_MASK)"

definition frame_unit_id :: "invocation_frame \<Rightarrow> 16 word" where
  "frame_unit_id f = drop_bit 8 (if_target f)"

definition target_type :: "invocation_frame \<Rightarrow> 16 word" where
  "target_type f = if_target f AND 0xFF"

text \<open>\<^verbatim>\<open>int.from_bytes(data[pos : pos + 2], "big")\<close> and \<^verbatim>\<open>data[pos : pos + n]\<close>\<close>

definition be16 :: "byte list \<Rightarrow> nat \<Rightarrow> 16 word" where
  "be16 data pos = word_cat (data ! pos) (data ! (pos + 1))"

definition byte_slice :: "byte list \<Rightarrow> nat \<Rightarrow> nat \<Rightarrow> byte list" where
  "byte_slice data pos n = take n (drop pos data)"

text \<open>
  The optional handle byte at \<open>pos\<close> and the position after it; \<open>None\<close> when the packet ends
  before it.
\<close>

definition origin_handle_at :: "16 word \<Rightarrow> byte list \<Rightarrow> nat \<Rightarrow> (byte option \<times> nat) option" where
  "origin_handle_at flags data pos =
     (if flags AND FLAG_HAS_ORIGIN_HANDLE \<noteq> 0
      then if pos \<ge> length data then None else Some (Some (data ! pos), pos + 1)
      else Some (None, pos))"

lemma origin_handle_at_le: "origin_handle_at flags data pos = Some (h, p) \<Longrightarrow> pos \<le> p"
  by (auto simp: origin_handle_at_def split: if_splits)

function parse_from :: "byte list \<Rightarrow> nat \<Rightarrow> invocation_frame list" where
  "parse_from data pos =
     (if length data < pos + HEADER_LENGTH then []
      else
        let flags = be16 data pos in
        case origin_handle_at flags data (pos + HEADER_LENGTH) of
          None \<Rightarrow> []
        | Some (origin_handle, p) \<Rightarrow>
            let n = unat (flags AND PAYLOAD_LENGTH_MASK) in
            if p + n > length data then []
            else \<lparr>if_flags = flags, if_opcode = data ! (pos + 2), if_origin = be16 data (pos + 3),
                   if_target = be16 data (pos + 5), if_age = be16 data (pos + 7),
                   if_origin_handle = origin_handle, if_payload = byte_slice data p n\<rparr>
                 # parse_from data (p + n))"
  by pat_completeness auto
termination
  by (relation "measure (\<lambda>(data, pos). length data - pos)") (auto dest!: origin_handle_at_le)

declare parse_from.simps [simp del]

definition parse_invocation_stream :: "byte list \<Rightarrow> invocation_frame list" where
  "parse_invocation_stream data = parse_from data 0"

section \<open>Events\<close>

datatype switch_event_phase = PRESS | RELEASE | HOLD | RELEASE_AFTER_HOLD

text \<open>\<^verbatim>\<open>SwitchEventPhase(code)\<close>; \<open>None\<close> is its ValueError.\<close>

definition phase_of_code :: "byte \<Rightarrow> switch_event_phase option" where
  "phase_of_code code =
     (if code = 0x01 then Some PRESS else if code = 0x02 then Some RELEASE
      else if code = 0x09 then Some HOLD else if code = 0x0C then Some RELEASE_AFTER_HOLD
      else None)"

type_synonym action_key = "int \<times> int \<times> int"

record switch_event =
  se_unit_id :: int
  se_button :: int
  se_event :: switch_event_phase
  se_dedup_identity :: "action_key option"

text \<open>\<open>_seen\<close>: when each (unit, control, origin) was last let through.\<close>

type_synonym seen = "action_key \<Rightarrow> time option"

text \<open>\<^verbatim>\<open>_expire\<close>, \<^verbatim>\<open>_is_retransmit\<close>\<close>

definition expire :: "time \<Rightarrow> seen \<Rightarrow> seen" where
  "expire now seen = (\<lambda>key. case seen key of None \<Rightarrow> None
     | Some seen_at \<Rightarrow> if now - seen_at \<ge> RETRANSMIT_WINDOW_SECONDS then None else Some seen_at)"

definition is_retransmit :: "action_key \<Rightarrow> time \<Rightarrow> seen \<Rightarrow> bool \<times> seen" where
  "is_retransmit key now seen =
     (case seen key of
        Some previous \<Rightarrow>
          if now - previous < RETRANSMIT_WINDOW_SECONDS then (True, seen)
          else (False, expire now (seen(key \<mapsto> now)))
      | None \<Rightarrow> (False, expire now (seen(key \<mapsto> now))))"

text \<open>The control and phase a frame means, \<open>None\<close> where \<^verbatim>\<open>_decode_frame\<close> returns before its
  retransmit check.\<close>

definition frame_action :: "invocation_frame \<Rightarrow> (int \<times> switch_event_phase) option" where
  "frame_action f =
     (let opcode = uint (if_opcode f) in
      if target_type f = TARGET_TYPE_BUTTON \<and> BUTTON_EVENT_BASE \<le> opcode \<and> opcode \<le> BUTTON_EVENT_LAST
      then Some (opcode - BUTTON_EVENT_BASE,
                 if if_origin f AND ORIGIN_RELEASE_BIT \<noteq> 0 then RELEASE else PRESS)
      else if target_type f = TARGET_TYPE_INPUT \<and> INPUT_EVENT_BASE \<le> opcode \<and> opcode \<le> INPUT_EVENT_LAST
      then if if_payload f = [] then None
           else (case phase_of_code (hd (if_payload f)) of
                   None \<Rightarrow> None
                 | Some phase \<Rightarrow>
                     if phase = PRESS \<or> phase = RELEASE then None
                     else Some (opcode - INPUT_EVENT_BASE, phase))
      else None)"

definition decode_frame :: "time \<Rightarrow> invocation_frame \<Rightarrow> seen \<Rightarrow> switch_event option \<times> seen" where
  "decode_frame now f seen =
     (case frame_action f of
        None \<Rightarrow> (None, seen)
      | Some (control, phase) \<Rightarrow>
          (let key = (uint (frame_unit_id f), control, uint (if_origin f));
               (retransmit, seen') = is_retransmit key now seen in
           if retransmit then (None, seen')
           else (Some \<lparr>se_unit_id = uint (frame_unit_id f), se_button = control + 1, se_event = phase,
                       se_dedup_identity = Some key\<rparr>, seen')))"

fun decode_frames :: "time \<Rightarrow> invocation_frame list \<Rightarrow> seen \<Rightarrow> switch_event list \<times> seen" where
  "decode_frames now [] seen = ([], seen)"
| "decode_frames now (f # fs) seen =
     (let (event, seen') = decode_frame now f seen; (events, seen'') = decode_frames now fs seen' in
      (case event of None \<Rightarrow> events | Some e \<Rightarrow> e # events, seen''))"

definition decode :: "time \<Rightarrow> byte list \<Rightarrow> seen \<Rightarrow> switch_event list \<times> seen" where
  "decode now data seen = decode_frames now (parse_invocation_stream data) seen"

definition reset :: "seen \<Rightarrow> seen" where
  "reset seen = Map.empty"

text \<open>The decoder over packets with their arrival times; the events carry the time.\<close>

fun decode_packets :: "(time \<times> byte list) list \<Rightarrow> seen \<Rightarrow> (time \<times> switch_event) list" where
  "decode_packets [] seen = []"
| "decode_packets ((now, data) # ps) seen =
     map (Pair now) (fst (decode now data seen)) @ decode_packets ps (snd (decode now data seen))"

section \<open>Installation\<close>

text \<open>
  What \<^verbatim>\<open>install_switch_event_decoder\<close> finds as the client module's parser: none, casambi-bt's
  own, or a decoder installed before (marked by an attribute). An installed decoder keeps its table.
\<close>

datatype parser_seam = Absent | Library_Parser | Decoder seen

definition install_switch_event_decoder :: "parser_seam \<Rightarrow> string + parser_seam" where
  "install_switch_event_decoder seam =
     (case seam of
        Absent \<Rightarrow> Inl ''casambi-bt no longer exposes the switch-event parser seam''
      | Decoder seen \<Rightarrow> Inr (Decoder seen)
      | Library_Parser \<Rightarrow> Inr (Decoder Map.empty))"

section \<open>The frame layout\<close>

text \<open>The layout as an encoder: the bytes of a frame whose flags agree with its fields.\<close>

definition be_bytes :: "16 word \<Rightarrow> byte list" where
  "be_bytes w = [ucast (drop_bit 8 w), ucast w]"

definition encode_frame :: "invocation_frame \<Rightarrow> byte list" where
  "encode_frame f = be_bytes (if_flags f) @ [if_opcode f] @ be_bytes (if_origin f) @ be_bytes (if_target f)
     @ be_bytes (if_age f) @ (case if_origin_handle f of None \<Rightarrow> [] | Some h \<Rightarrow> [h]) @ if_payload f"

definition frame_ok :: "invocation_frame \<Rightarrow> bool" where
  "frame_ok f \<longleftrightarrow> length (if_payload f) = payload_len f
     \<and> (if_origin_handle f \<noteq> None \<longleftrightarrow> if_flags f AND FLAG_HAS_ORIGIN_HANDLE \<noteq> 0)"

text \<open>A strict prefix of some frame's bytes: what a truncated packet ends with.\<close>

definition cut_frame :: "byte list \<Rightarrow> bool" where
  "cut_frame rest \<longleftrightarrow> (\<exists>f tail. frame_ok f \<and> tail \<noteq> [] \<and> encode_frame f = rest @ tail)"

lemma word_cat_be_bytes [simp]:
  "(word_cat (ucast (drop_bit 8 w) :: byte) (ucast w :: byte) :: 16 word) = w"
  by (rule bit_word_eqI) (auto simp: bit_word_cat_iff bit_simps)

lemma be_bytes_word_cat [simp]: "be_bytes (word_cat a b) = [a, b]"
proof -
  have "(ucast (drop_bit 8 (word_cat a b :: 16 word)) :: byte) = a"
    by (rule bit_word_eqI) (auto simp: bit_word_cat_iff bit_simps)
  moreover have "(ucast (word_cat a b :: 16 word) :: byte) = b"
    by (rule bit_word_eqI) (auto simp: bit_word_cat_iff bit_simps)
  ultimately show ?thesis by (simp add: be_bytes_def)
qed

lemma length_be_bytes [simp]: "length (be_bytes w) = 2"
  by (simp add: be_bytes_def)

lemma be_bytes_inj [simp]: "be_bytes v = be_bytes w \<longleftrightarrow> v = w"
  by (metis be_bytes_def list.inject word_cat_be_bytes)

lemma encode_frame_prefix_free:
  assumes "frame_ok f" "frame_ok g" "encode_frame f @ r = encode_frame g @ s"
  shows "f = g \<and> r = s"
proof -
  let ?rest = "\<lambda>h t. (case if_origin_handle h of None \<Rightarrow> [] | Some b \<Rightarrow> [b]) @ if_payload h @ t"
  from assms(3) have fields: "if_flags f = if_flags g" "if_opcode f = if_opcode g"
    "if_origin f = if_origin g" "if_target f = if_target g" "if_age f = if_age g"
    and rest: "?rest f r = ?rest g s"
    by (simp_all add: encode_frame_def)
  from assms(1,2) fields have "if_origin_handle f = None \<longleftrightarrow> if_origin_handle g = None"
    and len: "length (if_payload f) = length (if_payload g)"
    by (auto simp: frame_ok_def payload_len_def)
  with rest have "if_origin_handle f = if_origin_handle g" "if_payload f @ r = if_payload g @ s"
    by (auto split: option.splits)
  with fields len show ?thesis
    by (cases f, cases g) simp
qed

lemma encode_frame_nonempty [simp]: "encode_frame f \<noteq> []"
  by (simp add: encode_frame_def)

lemma not_cut_frame_encode:
  assumes "frame_ok f"
  shows "\<not> cut_frame (encode_frame f @ r)"
proof
  assume "cut_frame (encode_frame f @ r)"
  then obtain g tail where "frame_ok g" "tail \<noteq> []" "encode_frame g @ [] = encode_frame f @ (r @ tail)"
    by (auto simp: cut_frame_def)
  then show False using encode_frame_prefix_free[of g f "[]" "r @ tail"] assms by simp
qed

lemma header_bytes:
  assumes "pos + HEADER_LENGTH \<le> length data"
  shows "drop pos data = be_bytes (be16 data pos) @ [data ! (pos + 2)] @ be_bytes (be16 data (pos + 3))
    @ be_bytes (be16 data (pos + 5)) @ be_bytes (be16 data (pos + 7)) @ drop (pos + HEADER_LENGTH) data"
  using assms by (simp add: be16_def eval_nat_numeral flip: Cons_nth_drop_Suc)

definition body_len :: "16 word \<Rightarrow> nat" where
  "body_len flags = (if flags AND FLAG_HAS_ORIGIN_HANDLE \<noteq> 0 then 1 else 0) + unat (flags AND PAYLOAD_LENGTH_MASK)"

lemma frame_of_body:
  assumes "length body = body_len flags"
  shows "\<exists>f. frame_ok f \<and> encode_frame f = be_bytes flags @ [opcode] @ be_bytes origin @ be_bytes target
      @ be_bytes age @ body"
proof -
  let ?f = "\<lambda>h p. \<lparr>if_flags = flags, if_opcode = opcode, if_origin = origin, if_target = target,
    if_age = age, if_origin_handle = h, if_payload = p\<rparr>"
  show ?thesis
  proof (cases "flags AND FLAG_HAS_ORIGIN_HANDLE = 0")
    case True
    with assms show ?thesis
      by (intro exI[of _ "?f None body"])
        (simp add: frame_ok_def payload_len_def encode_frame_def body_len_def)
  next
    case False
    with assms obtain h p where "body = h # p" by (cases body) (auto simp: body_len_def)
    with assms False show ?thesis
      by (intro exI[of _ "?f (Some h) p"])
        (simp add: frame_ok_def payload_len_def encode_frame_def body_len_def)
  qed
qed

text \<open>Every header and every shorter body extend to a frame.\<close>

lemma frame_extends:
  assumes "length got \<le> body_len flags"
  shows "\<exists>f. frame_ok f \<and> encode_frame f = (be_bytes flags @ [opcode] @ be_bytes origin @ be_bytes target
      @ be_bytes age @ got) @ replicate (body_len flags - length got) 0"
  using frame_of_body[of "got @ replicate (body_len flags - length got) 0" flags opcode origin target age] assms
  by simp

lemma cut_header:
  assumes "length rest < HEADER_LENGTH"
  shows "cut_frame rest"
proof -
  define pad where "pad = replicate (HEADER_LENGTH - length rest) (0 :: byte)"
  from assms have pad: "pad \<noteq> []" "length (rest @ pad) = HEADER_LENGTH" by (simp_all add: pad_def)
  with header_bytes[of 0 "rest @ pad"] obtain flags opcode origin target age where
    "rest @ pad = be_bytes flags @ [opcode] @ be_bytes origin @ be_bytes target @ be_bytes age" by fastforce
  with frame_extends[of "[]" flags opcode origin target age] obtain f where
    "frame_ok f" "encode_frame f = rest @ pad @ replicate (body_len flags) 0" by (auto simp flip: append_assoc)
  with pad show ?thesis unfolding cut_frame_def by blast
qed

text \<open>One turn of the parser's loop, against the layout.\<close>

lemma parse_from_cases:
  assumes "pos \<le> length data"
  obtains (Cut) "parse_from data pos = []" "cut_frame (drop pos data)"
  | (Frame) f where "frame_ok f" "drop pos data = encode_frame f @ drop (pos + length (encode_frame f)) data"
      "parse_from data pos = f # parse_from data (pos + length (encode_frame f))"
proof (cases "length data < pos + HEADER_LENGTH")
  case True
  with assms cut_header[of "drop pos data"] show ?thesis
    by (intro Cut) (simp_all add: parse_from.simps)
next
  case False
  let ?flags = "be16 data pos" and ?rest = "drop (pos + HEADER_LENGTH) data"
  let ?f = "\<lambda>h p. \<lparr>if_flags = ?flags, if_opcode = data ! (pos + 2), if_origin = be16 data (pos + 3),
    if_target = be16 data (pos + 5), if_age = be16 data (pos + 7), if_origin_handle = h, if_payload = p\<rparr>"
  have bytes: "drop pos data = be_bytes ?flags @ [data ! (pos + 2)] @ be_bytes (be16 data (pos + 3))
    @ be_bytes (be16 data (pos + 5)) @ be_bytes (be16 data (pos + 7)) @ ?rest"
    using False by (intro header_bytes) simp
  show ?thesis
  proof (cases "length ?rest < body_len ?flags")
    case True
    then have "parse_from data pos = []"
      using False
      by (cases "?flags AND FLAG_HAS_ORIGIN_HANDLE = 0")
        (auto simp: parse_from.simps[of data pos] Let_def origin_handle_at_def body_len_def)
    moreover from True frame_extends[of ?rest ?flags] bytes have "cut_frame (drop pos data)"
      unfolding cut_frame_def by (metis (no_types, lifting) append_assoc less_imp_le_nat
        replicate_empty zero_less_diff less_numeral_extra(3))
    ultimately show ?thesis by (rule Cut)
  next
    case long: False
    define h where "h = (if ?flags AND FLAG_HAS_ORIGIN_HANDLE \<noteq> 0 then Some (data ! (pos + HEADER_LENGTH)) else None)"
    define p where "p = pos + HEADER_LENGTH + (case h of None \<Rightarrow> 0 | Some _ \<Rightarrow> 1)"
    define n where "n = unat (?flags AND PAYLOAD_LENGTH_MASK)"
    let ?g = "?f h (byte_slice data p n)"
    from long False have "origin_handle_at ?flags data (pos + HEADER_LENGTH) = Some (h, p)" and pn: "p + n \<le> length data"
      by (auto simp: origin_handle_at_def h_def p_def n_def body_len_def split: if_splits)
    with False have step: "parse_from data pos = ?g # parse_from data (p + n)"
      by (simp add: parse_from.simps[of data pos] Let_def flip: n_def)
    from pn have ok: "frame_ok ?g" by (simp add: frame_ok_def payload_len_def byte_slice_def h_def flip: n_def)
    have "?rest = (case h of None \<Rightarrow> [] | Some b \<Rightarrow> [b]) @ drop p data"
    proof (cases h)
      case None
      then show ?thesis by (simp add: p_def)
    next
      case (Some b)
      with pn have "pos + HEADER_LENGTH < length data" "b = data ! (pos + HEADER_LENGTH)"
        by (auto simp: h_def p_def split: if_splits)
      with Some show ?thesis using Cons_nth_drop_Suc[of "pos + HEADER_LENGTH" data] by (simp add: p_def)
    qed
    moreover have "drop p data = byte_slice data p n @ drop (p + n) data"
      by (simp add: byte_slice_def add.commute[of p] flip: drop_drop)
    ultimately have "?rest = (case h of None \<Rightarrow> [] | Some b \<Rightarrow> [b]) @ byte_slice data p n @ drop (p + n) data"
      by simp
    with bytes have split: "drop pos data = encode_frame ?g @ drop (p + n) data"
      by (simp add: encode_frame_def)
    have len: "pos + length (encode_frame ?g) = p + n"
      using pn by (simp add: encode_frame_def byte_slice_def p_def split: option.splits)
    show ?thesis by (rule Frame[of ?g, unfolded len, OF ok split step])
  qed
qed

lemma parse_from_exact:
  assumes "pos \<le> length data"
  shows "parse_from data pos = fs \<longleftrightarrow> list_all frame_ok fs
    \<and> (\<exists>rest. drop pos data = concat (map encode_frame fs) @ rest \<and> cut_frame rest)"
  using assms
proof (induction fs arbitrary: pos)
  case Nil
  from Nil show ?case
    by (cases rule: parse_from_cases[OF Nil]) (auto simp: not_cut_frame_encode)
next
  case (Cons g fs)
  show ?case
  proof (cases rule: parse_from_cases[OF Cons.prems])
    case 1
    then show ?thesis using not_cut_frame_encode[of g] by fastforce
  next
    case (2 f)
    let ?pos = "pos + length (encode_frame f)"
    from 2(2) have "length data - pos = length (encode_frame f) + (length data - ?pos)"
      by (metis length_append length_drop)
    with Cons.prems have "?pos \<le> length data"
      by (cases "?pos \<le> length data") (use length_greater_0_conv[of "encode_frame f"] in auto)
    note IH = Cons.IH[OF this]
    show ?thesis
    proof (cases "f = g")
      case True
      with 2 IH show ?thesis by auto
    next
      case False
      then show ?thesis using 2 encode_frame_prefix_free[of f g] by (auto simp: append_assoc)
    qed
  qed
qed

section \<open>The retransmit window\<close>

text \<open>The decoder's table is a suppression window; \<open>pass\<close> is its negated answer.\<close>

definition pass :: "action_key \<Rightarrow> time \<Rightarrow> seen \<Rightarrow> bool \<times> seen" where
  "pass key now seen = (let (retransmit, seen') = is_retransmit key now seen in (\<not> retransmit, seen'))"

interpretation retransmit_gate: window_gate pass "\<lambda>seen. seen" RETRANSMIT_WINDOW_SECONDS
  by unfold_locales
    (auto simp: pass_def is_retransmit_def expire_def split: option.splits if_splits)

section \<open>Refinement of the event history\<close>

text \<open>
  The specification remembers every event it ever emitted, with its time: a frame is an event
  unless an event of its unit, control and origin was emitted less than half a second before.
\<close>

definition action_key_of :: "invocation_frame \<Rightarrow> int \<Rightarrow> action_key" where
  "action_key_of f control = (uint (frame_unit_id f), control, uint (if_origin f))"

fun history_events :: "(time \<times> invocation_frame) list \<Rightarrow> (action_key \<times> time) list
    \<Rightarrow> (time \<times> switch_event) list" where
  "history_events [] emitted = []"
| "history_events ((now, f) # fs) emitted =
     (case frame_action f of
        None \<Rightarrow> history_events fs emitted
      | Some (control, phase) \<Rightarrow>
          (let key = action_key_of f control in
           if passed_within RETRANSMIT_WINDOW_SECONDS emitted key now then history_events fs emitted
           else (now, \<lparr>se_unit_id = uint (frame_unit_id f), se_button = control + 1, se_event = phase,
                       se_dedup_identity = Some key\<rparr>) # history_events fs ((key, now) # emitted)))"

abbreviation same_window :: "time \<Rightarrow> seen \<Rightarrow> (action_key \<times> time) list \<Rightarrow> bool" where
  "same_window \<equiv> agrees (\<lambda>seen. seen) RETRANSMIT_WINDOW_SECONDS"

lemma pass_is_retransmit [simp]:
  "fst (pass key now seen) \<longleftrightarrow> \<not> fst (is_retransmit key now seen)"
  "snd (pass key now seen) = snd (is_retransmit key now seen)"
  by (simp_all add: pass_def split: prod.splits)

lemma retransmit_keeps: "is_retransmit key now seen = (True, seen') \<Longrightarrow> seen' = seen"
  by (auto simp: is_retransmit_def split: option.splits if_splits)

lemma decode_frames_history:
  assumes "same_window now seen emitted"
  shows "\<exists>emitted'. same_window now (snd (decode_frames now fs seen)) emitted'
    \<and> (\<forall>rest. history_events (map (Pair now) fs @ rest) emitted =
         map (Pair now) (fst (decode_frames now fs seen)) @ history_events rest emitted')"
  using assms
proof (induction fs arbitrary: seen emitted)
  case Nil
  then show ?case by auto
next
  case (Cons f fs)
  show ?case
  proof (cases "frame_action f")
    case None
    then have "decode_frame now f seen = (None, seen)" by (simp add: decode_frame_def)
    with Cons.IH[OF Cons.prems] None show ?thesis by (auto split: prod.splits)
  next
    case (Some action)
    obtain control phase where action: "action = (control, phase)" by force
    let ?key = "action_key_of f control"
    obtain again seen' where r: "is_retransmit ?key now seen = (again, seen')" by force
    have window: "passed_within RETRANSMIT_WINDOW_SECONDS emitted ?key now \<longleftrightarrow> again"
      using retransmit_gate.admit_agrees[OF Cons.prems, of ?key] r by simp
    show ?thesis
    proof (cases again)
      case True
      with r have "decode_frame now f seen = (None, seen)"
        using Some action by (auto simp: decode_frame_def action_key_of_def dest: retransmit_keeps)
      with Cons.IH[OF Cons.prems] Some action window True show ?thesis
        by (auto simp: Let_def split: prod.splits)
    next
      case False
      with r Some action have "decode_frame now f seen = (Some \<lparr>se_unit_id = uint (frame_unit_id f),
          se_button = control + 1, se_event = phase, se_dedup_identity = Some ?key\<rparr>, seen')"
        by (simp add: decode_frame_def action_key_of_def)
      with Cons.IH[of seen' "(?key, now) # emitted"] retransmit_gate.agrees_admit[OF Cons.prems, of ?key]
        r Some action window False
      show ?thesis by (auto simp: Let_def split: prod.splits)
    qed
  qed
qed

text \<open>The frames of a sequence of packets, each with its packet's arrival time.\<close>

definition timed_frames :: "(time \<times> byte list) list \<Rightarrow> (time \<times> invocation_frame) list" where
  "timed_frames ps = concat (map (\<lambda>(now, data). map (Pair now) (parse_invocation_stream data)) ps)"

lemma decode_packets_history:
  assumes "sorted (map fst ps)" "\<forall>p \<in> set ps. start \<le> fst p" "same_window start seen emitted"
  shows "decode_packets ps seen = history_events (timed_frames ps) emitted"
  using assms
proof (induction ps arbitrary: start seen emitted)
  case Nil
  then show ?case by (simp add: timed_frames_def)
next
  case (Cons p ps)
  obtain now data where p: "p = (now, data)" by force
  with Cons.prems have "same_window now seen emitted" by (auto intro: agrees_later)
  from decode_frames_history[OF this, of "parse_invocation_stream data"] obtain emitted' where
    "same_window now (snd (decode now data seen)) emitted'"
    "\<And>rest. history_events (map (Pair now) (parse_invocation_stream data) @ rest) emitted =
       map (Pair now) (fst (decode now data seen)) @ history_events rest emitted'"
    unfolding decode_def by blast
  with Cons.IH[of now "snd (decode now data seen)" emitted'] Cons.prems p show ?case
    by (simp add: timed_frames_def)
qed

section \<open>Properties\<close>

text \<open>
  C40: the parser is exact for the frame layout. It returns \<open>fs\<close> just when the packet is the
  concatenation of their encodings, each consistent with its flags, followed by a strict prefix
  (possibly empty) of one more frame: no frame is skipped, invented or resynchronised.
\<close>

theorem frame_parser_exact:
  "parse_invocation_stream data = fs \<longleftrightarrow> list_all frame_ok fs
     \<and> (\<exists>rest. data = concat (map encode_frame fs) @ rest \<and> cut_frame rest)"
  using parse_from_exact[of 0 data fs] by (simp add: parse_invocation_stream_def)

text \<open>
  C24: over any packets on a clock that does not step back the decoder, whose table forgets entries,
  emits exactly the events of the full history: every frame with a known control and phase is an
  event, in order, unless an event of the same unit, control and origin was emitted less than half
  a second before.
\<close>

theorem decoder_refines_history:
  assumes "sorted (map fst ps)"
  shows "decode_packets ps (reset seen) = history_events (timed_frames ps) []"
proof (cases ps)
  case Nil
  then show ?thesis by (simp add: timed_frames_def)
next
  case (Cons p ps')
  with assms have "\<forall>q \<in> set ps. fst p \<le> fst q" by auto
  from decode_packets_history[OF assms this, of "reset seen" "[]"] show ?thesis
    by (simp add: agrees_start reset_def)
qed

text \<open>A press of unit 5's first button, its copy after 0.1 s, the release, and a hold code 0.7 s later.\<close>

definition sample_packets :: "(time \<times> byte list) list" where
  "sample_packets =
     [(0, [0, 0, 29, 0, 17, 5, 6, 0, 0]),
      (1 / 10, [0, 0, 29, 0, 17, 5, 6, 0, 0, 0, 0, 29, 0, 19, 5, 6, 0, 0]),
      (7 / 10, [2, 1, 64, 0, 17, 5, 0x12, 0, 0, 7, 9, 2])]"

lemma sample_events: "decode_packets sample_packets Map.empty =
    [(0, \<lparr>se_unit_id = 5, se_button = 1, se_event = PRESS, se_dedup_identity = Some (5, 0, 17)\<rparr>),
     (1 / 10, \<lparr>se_unit_id = 5, se_button = 1, se_event = RELEASE, se_dedup_identity = Some (5, 0, 19)\<rparr>),
     (7 / 10, \<lparr>se_unit_id = 5, se_button = 1, se_event = HOLD, se_dedup_identity = Some (5, 0, 17)\<rparr>)]"
  by code_simp

theorem decoder_refines_history_witness:
  "map (\<lambda>(now, e). (now, se_button e, se_event e)) (history_events (timed_frames sample_packets) [])
     = [(0, 1, PRESS), (1 / 10, 1, RELEASE), (7 / 10, 1, HOLD)]"
proof -
  have "sorted (map fst sample_packets)" by (simp add: sample_packets_def)
  show ?thesis
    unfolding decoder_refines_history[OF \<open>sorted _\<close>, of Map.empty, symmetric] reset_def sample_events
    by simp
qed

end
