(* ===== verification/Bridge_Diagnostics.thy ===== *)
theory Bridge_Diagnostics
  imports Json
begin

text \<open>
  \<^verbatim>\<open>src/server.py\<close>, \<^verbatim>\<open>BridgeDiagnostics\<close>: the bridge's counters of one MQTT session, which
  both publishers, the callbacks and the health state update.
\<close>

record bridge_diagnostics =
  bd_unit_callbacks :: int
  bd_commands_received :: int
  bd_unit_queue_depth :: int
  bd_unit_queue_peak :: int
  bd_unit_publish_attempted :: int
  bd_unit_publish_confirmed :: int
  bd_unit_publish_failed :: int
  bd_unit_publish_coalesced :: int
  bd_switch_queue_depth :: int
  bd_switch_publish_attempted :: int
  bd_switch_dropped :: int
  bd_ble_disconnects :: int
  bd_loop_lag_ms_max :: int
  bd_health_status_published :: int
  bd_health_status_failed :: int
  bd_health_requests_rate_limited :: int

definition new_diagnostics :: bridge_diagnostics where
  "new_diagnostics = \<lparr>bd_unit_callbacks = 0, bd_commands_received = 0, bd_unit_queue_depth = 0,
     bd_unit_queue_peak = 0, bd_unit_publish_attempted = 0, bd_unit_publish_confirmed = 0,
     bd_unit_publish_failed = 0, bd_unit_publish_coalesced = 0, bd_switch_queue_depth = 0,
     bd_switch_publish_attempted = 0, bd_switch_dropped = 0, bd_ble_disconnects = 0,
     bd_loop_lag_ms_max = 0, bd_health_status_published = 0, bd_health_status_failed = 0,
     bd_health_requests_rate_limited = 0\<rparr>"

text \<open>\<^verbatim>\<open>TOPIC_PREFIX\<close>; the network name is a setting of the process.\<close>

abbreviation "TOPIC_PREFIX \<equiv> ''casambi''"

text \<open>\<^verbatim>\<open>const.py\<close>: one literal topic level, never a wildcard or path.\<close>

definition is_valid_network_name :: "json \<Rightarrow> bool" where
  "is_valid_network_name v \<longleftrightarrow> is_str v \<and> the_str v \<noteq> []
     \<and> \<not> list_ex (\<lambda>c. c \<in> set (the_str v)) [CHR ''/'', CHR ''+'', CHR ''#'', CHR 0x00]"

text \<open>How a client's publish ends: confirmed by the broker, \<^verbatim>\<open>MqttError\<close>, or another exception.\<close>

datatype publish_outcome = Confirmed | Mqtt_Error | Other_Error

end
