(* ===== verification/Switch_Publisher.thy ===== *)
theory Switch_Publisher
  imports Switch_Decoder Bridge_Diagnostics
begin

text \<open>
  \<^verbatim>\<open>src/server.py\<close>, \<^verbatim>\<open>SwitchEventPublisher\<close> and the functions it uses: switch events from
  casambi-bt's callback wait in a bounded queue, one worker takes them out, keeps their public
  fields, drops repetitions of one action and publishes the rest. A run is a list of actions: a
  callback, the worker taking an event (which it does only when it is idle) up to its await of the
  publish, and that await ending. Draining at shutdown is not modelled.
\<close>

section \<open>Sanitizing\<close>

text \<open>
  A callback event of unknown shape: the attributes \<open>event.event.name\<close>, \<open>event.button\<close> and
  \<open>event.unit_id\<close>, \<open>None\<close> where reading it raises, and \<open>dedup_identity\<close>.
\<close>

record callback_event =
  ce_event_name :: "json option"
  ce_button :: "json option"
  ce_unit_id :: "json option"
  ce_dedup_identity :: "action_key option"

definition SUPPORTED_SWITCH_EVENTS :: "string list" where
  "SUPPORTED_SWITCH_EVENTS = [''PRESS'', ''RELEASE'', ''HOLD'', ''RELEASE_AFTER_HOLD'']"

abbreviation "MAX_SWITCH_EVENT_VALUE \<equiv> 255 :: int"
abbreviation "SWITCH_EVENT_DEDUP_SECONDS \<equiv> 1 / 4 :: time"
abbreviation "SWITCH_EVENT_QUEUE_MAX \<equiv> 64 :: nat"

record switch_record =
  sr_unit_id :: int
  sr_button :: int
  sr_event :: string

definition record_json :: "switch_record \<Rightarrow> json" where
  "record_json r = JObj [(''unit_id'', JInt (sr_unit_id r)), (''button'', JInt (sr_button r)),
     (''event'', JStr (sr_event r))]"

definition sanitize_switch_event :: "callback_event \<Rightarrow> switch_record option" where
  "sanitize_switch_event event =
     (case (ce_event_name event, ce_button event, ce_unit_id event) of
        (Some event_type, Some button, Some unit_id) \<Rightarrow>
          (case member_hash event_type SUPPORTED_SWITCH_EVENTS of
             None \<Rightarrow> None
           | Some supported \<Rightarrow>
               if \<not> supported \<or> \<not> is_int button \<or> \<not> is_int unit_id
                  \<or> \<not> (0 \<le> the_int button \<and> the_int button \<le> MAX_SWITCH_EVENT_VALUE)
                  \<or> \<not> (0 \<le> the_int unit_id \<and> the_int unit_id \<le> MAX_SWITCH_EVENT_VALUE)
               then None
               else Some \<lparr>sr_unit_id = the_int unit_id, sr_button = the_int button,
                          sr_event = the_str event_type\<rparr>)
      | _ \<Rightarrow> None)"

text \<open>\<^verbatim>\<open>emit_switch_event\<close> of the read-only probe: the line it writes, if any.\<close>

definition emit_switch_event :: "callback_event \<Rightarrow> json option" where
  "emit_switch_event event = map_option record_json (sanitize_switch_event event)"

datatype dedup_key = Decoded action_key | Callback int int string

definition switch_event_dedup_key :: "callback_event \<Rightarrow> switch_record \<Rightarrow> dedup_key" where
  "switch_event_dedup_key event r =
     (case ce_dedup_identity event of
        Some identity \<Rightarrow> Decoded identity
      | None \<Rightarrow> Callback (sr_unit_id r) (sr_button r) (sr_event r))"

section \<open>The publisher\<close>

record switch_publisher =
  sp_queue :: "callback_event list"
  sp_last_seen :: "dedup_key \<Rightarrow> time option"
  sp_dropped :: int
  sp_dropped_warned :: bool
  sp_publishing :: bool
  sp_published :: "(string \<times> json) list"
  sp_log :: "string list"

definition new_switch_publisher :: switch_publisher where
  "new_switch_publisher = \<lparr>sp_queue = [], sp_last_seen = Map.empty, sp_dropped = 0,
     sp_dropped_warned = False, sp_publishing = False, sp_published = [], sp_log = []\<rparr>"

text \<open>\<^verbatim>\<open>_purge_expired\<close>\<close>

definition purge_expired :: "time \<Rightarrow> (dedup_key \<Rightarrow> time option) \<Rightarrow> (dedup_key \<Rightarrow> time option)" where
  "purge_expired now last_seen = (\<lambda>key. case last_seen key of None \<Rightarrow> None
     | Some seen_at \<Rightarrow> if seen_at \<le> now - SWITCH_EVENT_DEDUP_SECONDS then None else Some seen_at)"

text \<open>The duplicate check of \<^verbatim>\<open>publish\<close>: whether the event passes, and the table after it.\<close>

definition pass_dedup :: "dedup_key \<Rightarrow> time \<Rightarrow> (dedup_key \<Rightarrow> time option) \<Rightarrow> bool \<times> (dedup_key \<Rightarrow> time option)" where
  "pass_dedup key now last_seen =
     (let purged = purge_expired now last_seen in
      case purged key of
        Some previous \<Rightarrow>
          if now - previous < SWITCH_EVENT_DEDUP_SECONDS then (False, purged) else (True, purged(key \<mapsto> now))
      | None \<Rightarrow> (True, purged(key \<mapsto> now)))"

definition switch_topic :: "string \<Rightarrow> string" where
  "switch_topic network = TOPIC_PREFIX @ ''/'' @ network @ ''/switch_events''"

text \<open>\<^verbatim>\<open>publish\<close> up to the await of the client's publish.\<close>

definition publish_event :: "string \<Rightarrow> time \<Rightarrow> callback_event \<Rightarrow> switch_publisher \<Rightarrow> switch_publisher" where
  "publish_event network now event p =
     (case sanitize_switch_event event of
        None \<Rightarrow> p
      | Some r \<Rightarrow>
          (let (pass, last_seen) = pass_dedup (switch_event_dedup_key event r) now (sp_last_seen p) in
           if \<not> pass then p\<lparr>sp_last_seen := last_seen\<rparr>
           else p\<lparr>sp_last_seen := last_seen, sp_publishing := True,
                  sp_published := sp_published p @ [(switch_topic network, record_json r)]\<rparr>))"

text \<open>\<^verbatim>\<open>__call__\<close>: the callback.\<close>

definition offer_event :: "callback_event \<Rightarrow> switch_publisher \<times> bridge_diagnostics
    \<Rightarrow> switch_publisher \<times> bridge_diagnostics" where
  "offer_event event s =
     (let (p, d) = s;
          (p', d') =
            (if length (sp_queue p) \<ge> SWITCH_EVENT_QUEUE_MAX
             then (p\<lparr>sp_dropped := sp_dropped p + 1, sp_dropped_warned := True,
                     sp_log := (if sp_dropped_warned p then sp_log p
                                else sp_log p @ [''Dropping Casambi switch events due to a full queue''])\<rparr>,
                   d\<lparr>bd_switch_dropped := bd_switch_dropped d + 1\<rparr>)
             else (p\<lparr>sp_queue := sp_queue p @ [event]\<rparr>, d)) in
      (p', d'\<lparr>bd_switch_queue_depth := int (length (sp_queue p'))\<rparr>))"

text \<open>The worker's turn until it waits again, for a publish or for the next event.\<close>

definition take_event :: "string \<Rightarrow> time \<Rightarrow> switch_publisher \<times> bridge_diagnostics
    \<Rightarrow> switch_publisher \<times> bridge_diagnostics" where
  "take_event network now s =
     (let (p, d) = s in
      case sp_queue p of
        [] \<Rightarrow> s
      | event # queue \<Rightarrow>
          if sp_publishing p then s
          else (publish_event network now event (p\<lparr>sp_queue := queue\<rparr>),
                d\<lparr>bd_switch_queue_depth := int (length queue),
                  bd_switch_publish_attempted := bd_switch_publish_attempted d + 1\<rparr>))"

text \<open>The publish ends; \<^verbatim>\<open>log_exceptions\<close> logs an MqttError, the worker anything else.\<close>

definition publish_ended :: "publish_outcome \<Rightarrow> switch_publisher \<Rightarrow> switch_publisher" where
  "publish_ended outcome p =
     p\<lparr>sp_publishing := False,
       sp_log := (case outcome of Confirmed \<Rightarrow> sp_log p
                  | Mqtt_Error \<Rightarrow> sp_log p @ [''Unhandled exception'']
                  | Other_Error \<Rightarrow> sp_log p @ [''Switch event publish failed''])\<rparr>"

datatype switch_action = Offer callback_event | Take time | Publish_Ended publish_outcome

fun switch_step :: "string \<Rightarrow> switch_action \<Rightarrow> switch_publisher \<times> bridge_diagnostics
    \<Rightarrow> switch_publisher \<times> bridge_diagnostics" where
  "switch_step network (Offer event) s = offer_event event s"
| "switch_step network (Take now) s = take_event network now s"
| "switch_step network (Publish_Ended outcome) s = (publish_ended outcome (fst s), snd s)"

fun switch_run :: "string \<Rightarrow> switch_action list \<Rightarrow> switch_publisher \<times> bridge_diagnostics
    \<Rightarrow> switch_publisher \<times> bridge_diagnostics" where
  "switch_run network [] s = s"
| "switch_run network (a # as) s = switch_run network as (switch_step network a s)"

section \<open>Events of the decoder\<close>

fun phase_name :: "switch_event_phase \<Rightarrow> string" where
  "phase_name PRESS = ''PRESS''"
| "phase_name RELEASE = ''RELEASE''"
| "phase_name HOLD = ''HOLD''"
| "phase_name RELEASE_AFTER_HOLD = ''RELEASE_AFTER_HOLD''"

text \<open>A decoder event as the callback sees it.\<close>

definition callback_of :: "switch_event \<Rightarrow> callback_event" where
  "callback_of e = \<lparr>ce_event_name = Some (JStr (phase_name (se_event e))),
     ce_button = Some (JInt (se_button e)), ce_unit_id = Some (JInt (se_unit_id e)),
     ce_dedup_identity = se_dedup_identity e\<rparr>"

definition public_record :: "switch_event \<Rightarrow> switch_record" where
  "public_record e = \<lparr>sr_unit_id = se_unit_id e, sr_button = se_button e, sr_event = phase_name (se_event e)\<rparr>"

interpretation dedup_gate: window_gate pass_dedup "\<lambda>last_seen key. last_seen key" SWITCH_EVENT_DEDUP_SECONDS
  by unfold_locales
    (auto simp: pass_dedup_def purge_expired_def Let_def split: option.splits if_splits)

text \<open>What the decoder emits passes the sanitizer unchanged: bytes and small button numbers.\<close>

definition switch_event_ok :: "switch_event \<Rightarrow> bool" where
  "switch_event_ok e \<longleftrightarrow> 0 \<le> se_unit_id e \<and> se_unit_id e \<le> 255 \<and> 1 \<le> se_button e \<and> se_button e \<le> 8
     \<and> se_dedup_identity e \<noteq> None"

lemma frame_unit_id_le: "uint (frame_unit_id f) \<le> 255"
proof -
  have "uint (frame_unit_id f) = uint (if_target f) div 2 ^ 8"
    by (simp add: frame_unit_id_def uint_div drop_bit_eq_div)
  moreover have "uint (if_target f) < 2 ^ 16" using uint_bounded[of "if_target f"] by simp
  ultimately show ?thesis by simp
qed

lemma frame_action_control: "frame_action f = Some (control, phase) \<Longrightarrow> 0 \<le> control \<and> control \<le> 7"
  by (auto simp: frame_action_def Let_def split: if_splits option.splits)

lemma decode_frame_ok: "fst (decode_frame now f seen) = Some e \<Longrightarrow> switch_event_ok e"
  using frame_unit_id_le[of f]
  by (auto simp: decode_frame_def switch_event_ok_def Let_def dest!: frame_action_control
      split: option.splits prod.splits if_splits)

lemma decode_frames_ok: "list_all switch_event_ok (fst (decode_frames now fs seen))"
proof (induction fs arbitrary: seen)
  case (Cons f fs)
  obtain event seen' where "decode_frame now f seen = (event, seen')" by force
  with Cons.IH[of seen'] decode_frame_ok[of now f seen] show ?case
    by (auto split: prod.splits option.splits)
qed simp

lemma decode_packets_ok: "list_all switch_event_ok (map snd (decode_packets ps seen))"
  by (induction ps seen rule: decode_packets.induct)
    (simp_all add: decode_def decode_frames_ok comp_def)

lemma sanitize_callback_of [simp]:
  "switch_event_ok e \<Longrightarrow> sanitize_switch_event (callback_of e) = Some (public_record e)"
  by (cases "se_event e")
    (simp_all add: sanitize_switch_event_def callback_of_def public_record_def switch_event_ok_def
      SUPPORTED_SWITCH_EVENTS_def)

lemma dedup_key_callback_of: "switch_event_ok e \<Longrightarrow>
    switch_event_dedup_key (callback_of e) r = Decoded (the (se_dedup_identity e))"
  by (auto simp: switch_event_dedup_key_def callback_of_def switch_event_ok_def split: option.splits)

text \<open>The worker's events stay in arrival order; distinct actions never suppress each other.\<close>

abbreviation switch_payload :: "string \<Rightarrow> switch_event \<Rightarrow> string \<times> json" where
  "switch_payload network e \<equiv> (switch_topic network, record_json (public_record e))"

fun offered :: "switch_action list \<Rightarrow> callback_event list" where
  "offered [] = []"
| "offered (Offer e # as) = e # offered as"
| "offered (_ # as) = offered as"

text \<open>\<open>handled\<close> are published, \<open>waiting\<close> are queued, and the table knows handled actions only.\<close>

definition switch_inv :: "string \<Rightarrow> switch_event list \<Rightarrow> switch_event list \<Rightarrow> switch_publisher \<Rightarrow> bool" where
  "switch_inv network handled waiting p \<longleftrightarrow> sp_queue p = map callback_of waiting
     \<and> sp_published p = map (switch_payload network) handled
     \<and> (\<forall>k. sp_last_seen p k \<noteq> None \<longrightarrow> (\<exists>e \<in> set handled. k = Decoded (the (se_dedup_identity e))))"

lemma dropped_mono: "sp_dropped (fst s) \<le> sp_dropped (fst (switch_run network as s))"
proof (induction as arbitrary: s)
  case (Cons a as)
  have "sp_dropped (fst s) \<le> sp_dropped (fst (switch_step network a s))"
    by (cases a; cases s) (auto simp: offer_event_def take_event_def publish_event_def publish_ended_def
        Let_def split: list.splits option.splits prod.splits)
  with Cons[of "switch_step network a s"] show ?case by simp
qed simp

lemma take_event_inv:
  assumes "switch_inv network handled (e # waiting) (fst s)" "\<not> sp_publishing (fst s)" "switch_event_ok e"
    and "\<forall>e' \<in> set handled. se_dedup_identity e' \<noteq> se_dedup_identity e \<and> switch_event_ok e'"
  shows "switch_inv network (handled @ [e]) waiting (fst (take_event network now s))"
proof -
  obtain p d where s: "s = (p, d)" by force
  let ?key = "Decoded (the (se_dedup_identity e))"
  have fresh: "sp_last_seen p ?key = None"
  proof (rule ccontr)
    assume "sp_last_seen p ?key \<noteq> None"
    with assms(1) s obtain e' where "e' \<in> set handled" "the (se_dedup_identity e') = the (se_dedup_identity e)"
      by (auto simp: switch_inv_def)
    with assms(3,4) show False by (auto simp: switch_event_ok_def)
  qed
  then have "pass_dedup ?key now (sp_last_seen p)
      = (True, (purge_expired now (sp_last_seen p))(?key \<mapsto> now))"
    by (simp add: pass_dedup_def purge_expired_def)
  with assms(1-3) s have "fst (take_event network now s) = p\<lparr>sp_queue := map callback_of waiting,
      sp_last_seen := (purge_expired now (sp_last_seen p))(?key \<mapsto> now), sp_publishing := True,
      sp_published := sp_published p @ [switch_payload network e]\<rparr>"
    by (simp add: take_event_def publish_event_def switch_inv_def dedup_key_callback_of)
  with assms(1) s show ?thesis
    by (auto simp: switch_inv_def purge_expired_def split: option.splits)
qed

lemma switch_run_inv:
  assumes "switch_inv network handled waiting (fst s)" "offered as = map callback_of fresh"
    and "sp_dropped (fst (switch_run network as s)) = sp_dropped (fst s)"
    and "list_all switch_event_ok (handled @ waiting @ fresh)"
    and "distinct (map se_dedup_identity (handled @ waiting @ fresh))"
  shows "\<exists>handled' waiting'. handled @ waiting @ fresh = handled' @ waiting'
    \<and> switch_inv network handled' waiting' (fst (switch_run network as s))"
  using assms
proof (induction as arbitrary: s handled waiting fresh)
  case Nil
  then show ?case by fastforce
next
  case (Cons a as)
  obtain p d where s: "s = (p, d)" by force
  let ?s = "switch_step network a s"
  have same: "sp_dropped (fst ?s) = sp_dropped (fst s)"
    and rest: "sp_dropped (fst (switch_run network as ?s)) = sp_dropped (fst ?s)"
  proof -
    have "sp_dropped (fst s) \<le> sp_dropped (fst ?s)"
      using dropped_mono[of s network "[a]"] by simp
    with dropped_mono[of ?s network as] Cons.prems(3) show "sp_dropped (fst ?s) = sp_dropped (fst s)"
      "sp_dropped (fst (switch_run network as ?s)) = sp_dropped (fst ?s)" by simp_all
  qed
  show ?case
  proof (cases a)
    case (Offer event)
    with Cons.prems(2) obtain e fresh' where e: "fresh = e # fresh'" "event = callback_of e"
      by (cases fresh) auto
    have "switch_inv network handled (waiting @ [e]) (fst ?s)"
      using Cons.prems(1) same Offer e s by (auto simp: switch_inv_def offer_event_def split: if_splits)
    from Cons.IH[OF this _ rest, of fresh'] Cons.prems e Offer show ?thesis by simp
  next
    case (Take now)
    show ?thesis
    proof (cases "sp_publishing p \<or> waiting = []")
      case True
      then have "?s = s"
        using Cons.prems(1) Take s by (auto simp: take_event_def switch_inv_def split: list.splits)
      with Cons.IH[OF _ _ rest, of handled waiting fresh] Cons.prems Take show ?thesis by simp
    next
      case False
      then obtain e waiting' where w: "waiting = e # waiting'" by (cases waiting) auto
      with Cons.prems(5) have "\<forall>e' \<in> set handled. se_dedup_identity e' \<noteq> se_dedup_identity e"
        by (auto simp: image_iff)
      with w Cons.prems(4)
      have apart: "\<forall>e' \<in> set handled. se_dedup_identity e' \<noteq> se_dedup_identity e \<and> switch_event_ok e'"
        and ok: "switch_event_ok e" by (auto simp: list_all_iff)
      have "switch_inv network (handled @ [e]) waiting' (fst ?s)"
        unfolding Take switch_step.simps
        using take_event_inv[OF _ _ ok apart] Cons.prems(1) False w s by simp
      from Cons.IH[OF this _ rest, of fresh] Cons.prems w Take show ?thesis by simp
    qed
  next
    case (Publish_Ended outcome)
    have "switch_inv network handled waiting (fst ?s)"
      using Cons.prems(1) Publish_Ended s by (simp add: switch_inv_def publish_ended_def)
    from Cons.IH[OF this _ rest, of fresh] Cons.prems Publish_Ended show ?thesis by simp
  qed
qed

text \<open>
  C17: from packet to MQTT. Let the decoder's events of any packets on a forward clock reach the
  publisher through the callback, interleaved in any way with its worker, whatever becomes of the
  publishes. Unless the queue overflowed or two of the actions share an identity, the messages
  handed to the client are, in order and once each, the public records of the events of the frame
  history, up to those still waiting in the queue.
\<close>

theorem switch_packets_published:
  assumes "sorted (map fst ps)"
    and "offered as = map (callback_of \<circ> snd) (decode_packets ps (reset seen))"
    and "distinct (map (se_dedup_identity \<circ> snd) (decode_packets ps (reset seen)))"
    and "sp_dropped (fst (switch_run network as (new_switch_publisher, d))) = 0"
  defines "final \<equiv> fst (switch_run network as (new_switch_publisher, d))"
  shows "\<exists>published waiting. map snd (history_events (timed_frames ps) []) = published @ waiting
    \<and> sp_published final = map (switch_payload network) published
    \<and> sp_queue final = map callback_of waiting"
proof -
  let ?es = "map snd (decode_packets ps (reset seen))"
  have start: "switch_inv network [] [] (fst (new_switch_publisher, d))"
    by (simp add: switch_inv_def new_switch_publisher_def)
  have nothing_dropped: "sp_dropped (fst (switch_run network as (new_switch_publisher, d)))
      = sp_dropped (fst (new_switch_publisher, d))"
    using assms(4) by (simp add: new_switch_publisher_def)
  have "map snd (history_events (timed_frames ps) []) = ?es"
    using decode_packets_history[OF assms(1) _ agrees_start, of "Min (fst ` set ps)" "reset seen"]
    by (simp add: reset_def)
  with switch_run_inv[OF start _ nothing_dropped, of ?es] assms(2,3) decode_packets_ok[of ps "reset seen"]
  show ?thesis by (auto simp: switch_inv_def final_def)
qed

definition sample_switch_actions :: "switch_action list" where
  "sample_switch_actions = concat (map (\<lambda>(now, e). [Offer (callback_of e), Take now, Publish_Ended Confirmed])
     (decode_packets (take 2 sample_packets) Map.empty))"

lemma sample_switch_events: "decode_packets (take 2 sample_packets) Map.empty =
    [(0, \<lparr>se_unit_id = 5, se_button = 1, se_event = PRESS, se_dedup_identity = Some (5, 0, 17)\<rparr>),
     (1 / 10, \<lparr>se_unit_id = 5, se_button = 1, se_event = RELEASE, se_dedup_identity = Some (5, 0, 19)\<rparr>)]"
  by code_simp

lemmas switch_run_simps = new_switch_publisher_def offer_event_def take_event_def publish_event_def
  sanitize_switch_event_def callback_of_def SUPPORTED_SWITCH_EVENTS_def pass_dedup_def purge_expired_def
  switch_event_dedup_key_def publish_ended_def Let_def

theorem switch_packets_published_witness:
  "\<exists>published waiting. map snd (history_events (timed_frames (take 2 sample_packets)) []) = published @ waiting
     \<and> sp_published (fst (switch_run ''net'' sample_switch_actions (new_switch_publisher, new_diagnostics)))
         = map (switch_payload ''net'') published
     \<and> waiting = [] \<and> length published = 2"
proof -
  let ?s = "fst (switch_run ''net'' sample_switch_actions (new_switch_publisher, new_diagnostics))"
  have events: "decode_packets (take 2 sample_packets) (reset Map.empty) = decode_packets (take 2 sample_packets) Map.empty"
    by (simp add: reset_def)
  have sorted: "sorted (map fst (take 2 sample_packets))" by (simp add: sample_packets_def)
  have run: "sp_dropped ?s = 0" "sp_queue ?s = []" "length (sp_published ?s) = 2"
    by (simp_all add: sample_switch_actions_def sample_switch_events switch_run_simps)
  have "offered sample_switch_actions = map (callback_of \<circ> snd) (decode_packets (take 2 sample_packets) (reset Map.empty))"
    "distinct (map (se_dedup_identity \<circ> snd) (decode_packets (take 2 sample_packets) (reset Map.empty)))"
    unfolding events sample_switch_actions_def sample_switch_events by simp_all
  from switch_packets_published[OF sorted this run(1)] run(2,3) show ?thesis by fastforce
qed

text \<open>
  The worker measures the window when it takes an event, not when the event arrived. Three
  packets at 0, 1 and 9 seconds are three actions to the decoder, the last two with one origin; when
  the first publish takes 10 s, the worker takes the other two in a row and publishes only one.
\<close>

definition press_packet :: "byte \<Rightarrow> byte list" where
  "press_packet origin = [0, 0, 29, 0, origin, 5, 6, 0, 0]"

lemma late_events: "decode_packets [(0, press_packet 1), (1, press_packet 17), (9, press_packet 17)] Map.empty =
    (let e = (\<lambda>origin. \<lparr>se_unit_id = 5, se_button = 1, se_event = PRESS, se_dedup_identity = Some (5, 0, origin)\<rparr>) in
     [(0, e 1), (1, e 17), (9, e 17)])"
  by code_simp

lemma late_actions_collapse:
  assumes "map snd (decode_packets [(0, press_packet 1), (1, press_packet 17), (9, press_packet 17)] Map.empty) = [e1, e2, e3]"
  shows "length (sp_published (fst (switch_run network
     [Offer (callback_of e1), Take 0, Offer (callback_of e2), Offer (callback_of e3), Publish_Ended Mqtt_Error,
      Take 10, Publish_Ended Confirmed, Take (101 / 10)] (new_switch_publisher, d)))) = 2"
proof -
  from assms have "e1 = \<lparr>se_unit_id = 5, se_button = 1, se_event = PRESS, se_dedup_identity = Some (5, 0, 1)\<rparr>"
    "e2 = \<lparr>se_unit_id = 5, se_button = 1, se_event = PRESS, se_dedup_identity = Some (5, 0, 17)\<rparr>" "e3 = e2"
    unfolding late_events by auto
  then show ?thesis by (simp add: switch_run_simps)
qed

end
