(* ===== verification/Casambi_Units.thy ===== *)
theory Casambi_Units
  imports Bridge_Diagnostics
begin

text \<open>
  The network's units and scenes as \<^verbatim>\<open>src/server.py\<close> sees them through casambi-bt, the
  entities it publishes (\<^verbatim>\<open>entities/entities.py\<close>), the topics it publishes them on, and the
  resolution of a command's target. casambi-bt's objects are records with the attributes the
  bridge reads; a string is its sequence of UTF-8 bytes.
\<close>

section \<open>casambi-bt's objects\<close>

record casa_control =
  cc_default :: int
  cc_length :: int
  cc_offset :: int
  cc_readonly :: bool
  cc_type_name :: string
  cc_type_value :: int

record casa_unit_type =
  ct_id :: int
  ct_manufacturer :: string
  ct_mode :: string
  ct_model :: string
  ct_stateLength :: int
  ct_controls :: "casa_control list"

text \<open>A unit's state: None, an object without a dimmer, or a dimmer value.\<close>

datatype casa_state = No_State | No_Dimmer | Dimmer "int option"

text \<open>The UUID is whatever the attribute holds; the code accepts only non-empty strings.\<close>

record casa_unit =
  cu_address :: string
  cu_deviceId :: int
  cu_is_on :: bool
  cu_name :: string
  cu_online :: bool
  cu_state :: casa_state
  cu_uuid :: json
  cu_unitType :: casa_unit_type

record casa_scene =
  cs_sceneId :: int
  cs_name :: string

record casa_network =
  cn_units :: "casa_unit list"
  cn_scenes :: "casa_scene list"

section \<open>Entities\<close>

record unit_control_type =
  uct_name :: string
  uct_value :: int

record unit_control =
  uc_default :: int
  uc_length :: int
  uc_offset :: int
  uc_readonly :: bool
  uc_type :: unit_control_type

record unit_type =
  ut_id :: int
  ut_manufacturer :: string
  ut_mode :: string
  ut_model :: string
  ut_state_length :: int
  ut_controls :: "unit_control list"

record unit_state =
  us_dimmer :: "int option"

record unit_entity =
  ue_address :: string
  ue_device_id :: int
  ue_is_on :: bool
  ue_name :: string
  ue_online :: bool
  ue_state :: unit_state
  ue_uuid :: json
  ue_unit_type :: unit_type

record scene_entity =
  sc_scene_id :: int
  sc_name :: string

definition to_unit_control_type :: "casa_control \<Rightarrow> unit_control_type" where
  "to_unit_control_type c = \<lparr>uct_name = cc_type_name c, uct_value = cc_type_value c\<rparr>"

definition to_unit_control :: "casa_control \<Rightarrow> unit_control" where
  "to_unit_control c = \<lparr>uc_default = cc_default c, uc_length = cc_length c, uc_offset = cc_offset c,
     uc_readonly = cc_readonly c, uc_type = to_unit_control_type c\<rparr>"

definition to_unit_type :: "casa_unit_type \<Rightarrow> unit_type" where
  "to_unit_type t = \<lparr>ut_id = ct_id t, ut_manufacturer = ct_manufacturer t, ut_mode = ct_mode t,
     ut_model = ct_model t, ut_state_length = ct_stateLength t, ut_controls = map to_unit_control (ct_controls t)\<rparr>"

fun to_unit_state :: "casa_state \<Rightarrow> unit_state" where
  "to_unit_state No_State = \<lparr>us_dimmer = None\<rparr>"
| "to_unit_state No_Dimmer = \<lparr>us_dimmer = None\<rparr>"
| "to_unit_state (Dimmer d) = \<lparr>us_dimmer = d\<rparr>"

definition to_entity :: "casa_unit \<Rightarrow> unit_entity" where
  "to_entity u = \<lparr>ue_address = cu_address u, ue_device_id = cu_deviceId u, ue_is_on = cu_is_on u,
     ue_name = cu_name u, ue_online = cu_online u, ue_state = to_unit_state (cu_state u),
     ue_uuid = cu_uuid u, ue_unit_type = to_unit_type (cu_unitType u)\<rparr>"

definition to_scene :: "casa_scene \<Rightarrow> scene_entity" where
  "to_scene s = \<lparr>sc_scene_id = cs_sceneId s, sc_name = cs_name s\<rparr>"

text \<open>\<^verbatim>\<open>Unit.type\<close>; \<^verbatim>\<open>lower\<close> is given for ASCII letters.\<close>

definition ascii_lower :: "char \<Rightarrow> char" where
  "ascii_lower c = (if in_range (CHR ''A'') (CHR ''Z'') c then char_of (of_char c + 32 :: nat) else c)"

definition entity_type :: "unit_entity \<Rightarrow> string" where
  "entity_type u =
     (if filter (\<lambda>c. uct_name (uc_type c) = ''DIMMER'') (ut_controls (ue_unit_type u)) \<noteq> [] then ''LIGHT''
      else if sublist ''switch'' (map ascii_lower (ut_mode (ue_unit_type u))) then ''SWITCH''
      else ''UNKNOWN'')"

section \<open>Topics\<close>

text \<open>\<^verbatim>\<open>urllib.parse.quote(s, safe="")\<close>: unreserved characters stay, every other byte becomes
  a percent sign and two upper-case hexadecimal digits.\<close>

definition unreserved :: "char \<Rightarrow> bool" where
  "unreserved c \<longleftrightarrow> in_range (CHR ''A'') (CHR ''Z'') c \<or> in_range (CHR ''a'') (CHR ''z'') c
     \<or> in_range (CHR ''0'') (CHR ''9'') c \<or> c \<in> set ''_.-~''"

definition hex_digit :: "nat \<Rightarrow> char" where
  "hex_digit n = ''0123456789ABCDEF'' ! n"

definition quote_char :: "char \<Rightarrow> string" where
  "quote_char c = (if unreserved c then [c]
     else [CHR ''%'', hex_digit (of_char c div 16), hex_digit (of_char c mod 16)])"

definition quote :: "string \<Rightarrow> string" where
  "quote s = concat (map quote_char s)"

definition events_topic :: "string \<Rightarrow> string" where
  "events_topic network = TOPIC_PREFIX @ ''/'' @ network @ ''/events/''"

definition unit_event_topic :: "string \<Rightarrow> casa_unit \<Rightarrow> string option" where
  "unit_event_topic network u =
     (if cu_address u \<noteq> [] then Some (events_topic network @ cu_address u)
      else if \<not> is_str (cu_uuid u) \<or> the_str (cu_uuid u) = [] then None
      else Some (events_topic network @ ''uuid/'' @ quote (the_str (cu_uuid u))))"

text \<open>\<^verbatim>\<open>str\<close> of an int, and the topic of a scene in \<^verbatim>\<open>publish_snapshot\<close>.\<close>

fun str_of_nat :: "nat \<Rightarrow> string" where
  "str_of_nat n = (if n < 10 then [hex_digit n] else str_of_nat (n div 10) @ [hex_digit (n mod 10)])"

declare str_of_nat.simps [simp del]

definition str_of_int :: "int \<Rightarrow> string" where
  "str_of_int i = (if i < 0 then CHR ''-'' # str_of_nat (nat (- i)) else str_of_nat (nat i))"

definition scene_topic :: "string \<Rightarrow> scene_entity \<Rightarrow> string" where
  "scene_topic network s = TOPIC_PREFIX @ ''/'' @ network @ ''/scenes/'' @ str_of_int (sc_scene_id s)"

definition addressless_unit_uuid_is_unique :: "casa_unit list \<Rightarrow> casa_unit \<Rightarrow> bool" where
  "addressless_unit_uuid_is_unique units u =
     (if cu_address u \<noteq> [] \<or> \<not> is_str (cu_uuid u) then False
      else length (filter (\<lambda>candidate. cu_address candidate = [] \<and> cu_uuid candidate = cu_uuid u) units) = 1)"

text \<open>Quoting is injective, so topics of different UUIDs differ.\<close>

lemma hex_digit_less: "n < 16 \<Longrightarrow> m < 16 \<Longrightarrow> hex_digit n = hex_digit m \<longleftrightarrow> n = m"
proof -
  assume "n < 16" "m < 16"
  moreover have "distinct ''0123456789ABCDEF''" by simp
  ultimately show ?thesis unfolding hex_digit_def by (subst nth_eq_iff_index_eq) simp_all
qed

lemma quote_char_prefix_free:
  assumes "quote_char c @ s = quote_char d @ t"
  shows "c = d \<and> s = t"
proof (cases "unreserved c \<or> unreserved d")
  case True
  then have "unreserved c \<longleftrightarrow> unreserved d"
    using assms by (auto simp: quote_char_def unreserved_def in_range_def split: if_splits)
  with True assms show ?thesis by (simp add: quote_char_def)
next
  case False
  have "(of_char c :: nat) < 256" "(of_char d :: nat) < 256"
    by simp_all
  with False assms have "(of_char c :: nat) div 16 = of_char d div 16" "(of_char c :: nat) mod 16 = of_char d mod 16" "s = t"
    by (auto simp: quote_char_def hex_digit_less)
  then have "(of_char c :: nat) = of_char d" by (metis div_mult_mod_eq)
  with \<open>s = t\<close> show ?thesis by simp
qed

lemma quote_inj [simp]: "quote s = quote t \<longleftrightarrow> s = t"
proof
  show "quote s = quote t \<Longrightarrow> s = t"
  proof (induction s arbitrary: t)
    case Nil
    then show ?case by (cases t) (auto simp: quote_def quote_char_def split: if_splits)
  next
    case (Cons c s)
    then obtain d t' where t: "t = d # t'" by (cases t) (auto simp: quote_def quote_char_def split: if_splits)
    with Cons.prems have "quote_char c @ quote s = quote_char d @ quote t'" by (simp add: quote_def)
    from quote_char_prefix_free[OF this] Cons.IH[of t'] t show ?case by simp
  qed
qed simp

text \<open>A unit the witnesses use.\<close>

definition sample_unit :: "string \<Rightarrow> int \<Rightarrow> casa_unit" where
  "sample_unit address level = \<lparr>cu_address = address, cu_deviceId = 1, cu_is_on = True, cu_name = ''Lamp'',
     cu_online = True, cu_state = Dimmer (Some level), cu_uuid = JStr ''u1'',
     cu_unitType = \<lparr>ct_id = 1, ct_manufacturer = ''M'', ct_mode = ''Dim'', ct_model = ''L'',
       ct_stateLength = 1, ct_controls = []\<rparr>\<rparr>"

lemma sample_unit_topic [simp]:
  "cu_address (sample_unit a n) = a"
  "a \<noteq> [] \<Longrightarrow> unit_event_topic network (sample_unit a n) = Some (events_topic network @ a)"
  by (simp_all add: sample_unit_def unit_event_topic_def)

end
