(* ===== verification/Unit_Publisher.thy ===== *)
theory Unit_Publisher
  imports Casambi_Units "HOL-Library.AList"
begin

text \<open>
  \<^verbatim>\<open>src/server.py\<close>, \<^verbatim>\<open>UnitStatePublisher\<close>: live unit states wait in an ordered dict keyed
  by topic, a newer state replaces the older one in its place, and one worker publishes them from
  the front; a failed one goes to the back unless a newer state is already waiting, and the worker
  backs off. A run is a list of actions; \<open>broker\<close> is the broker's retained state per topic. A
  publish that failed may have reached the broker all the same.
\<close>

section \<open>The publisher\<close>

text \<open>Where the worker awaits: its wake-up, a publish, or the end of a back-off.\<close>

datatype unit_worker = Waiting | Publishing string casa_unit | Backing_Off

record unit_publisher =
  up_failed :: int
  up_failure_streak :: int
  up_pending :: "(string \<times> casa_unit) list"
  up_wakeup :: bool
  up_idle :: bool
  up_worker :: unit_worker
  up_sent :: "(string \<times> unit_entity) list"
  up_log :: "string list"

definition new_unit_publisher :: unit_publisher where
  "new_unit_publisher = \<lparr>up_failed = 0, up_failure_streak = 0, up_pending = [], up_wakeup = False,
     up_idle = True, up_worker = Waiting, up_sent = [], up_log = []\<rparr>"

definition is_failing :: "unit_publisher \<Rightarrow> bool" where
  "is_failing p \<longleftrightarrow> up_failure_streak p > 0"

text \<open>\<^verbatim>\<open>publish_unit\<close>: the message it publishes, if any.\<close>

definition unit_message :: "string \<Rightarrow> casa_unit \<Rightarrow> (string \<times> unit_entity) option" where
  "unit_message network u = map_option (\<lambda>topic. (topic, to_entity u)) (unit_event_topic network u)"

definition submit :: "string \<Rightarrow> casa_unit \<Rightarrow> unit_publisher \<times> bridge_diagnostics
    \<Rightarrow> unit_publisher \<times> bridge_diagnostics" where
  "submit network u s =
     (let (p, d) = s in
      case unit_event_topic network u of
        None \<Rightarrow> s
      | Some topic \<Rightarrow>
          (let pending = AList.update topic u (up_pending p);
               depth = int (length pending) in
           (p\<lparr>up_pending := pending, up_idle := False, up_wakeup := True\<rparr>,
            d\<lparr>bd_unit_publish_coalesced := bd_unit_publish_coalesced d
                + (if topic \<in> fst ` set (up_pending p) then 1 else 0),
              bd_unit_queue_depth := depth,
              bd_unit_queue_peak := max (bd_unit_queue_peak d) depth\<rparr>)))"

text \<open>
  The worker's loop from a test of \<^verbatim>\<open>self._pending\<close> to its next await: the publish of the
  oldest entry, or the next wake-up.
\<close>

definition drain :: "string \<Rightarrow> unit_publisher \<times> bridge_diagnostics \<Rightarrow> unit_publisher \<times> bridge_diagnostics" where
  "drain network s =
     (let (p, d) = s in
      case up_pending p of
        [] \<Rightarrow> (p\<lparr>up_idle := True, up_worker := Waiting\<rparr>, d)
      | (topic, u) # pending \<Rightarrow>
          (p\<lparr>up_pending := pending, up_worker := Publishing topic u,
             up_sent := up_sent p @ (case unit_message network u of None \<Rightarrow> [] | Some m \<Rightarrow> [m])\<rparr>,
           d\<lparr>bd_unit_queue_depth := int (length pending),
             bd_unit_publish_attempted := bd_unit_publish_attempted d + 1\<rparr>))"

definition wake :: "string \<Rightarrow> unit_publisher \<times> bridge_diagnostics \<Rightarrow> unit_publisher \<times> bridge_diagnostics" where
  "wake network s =
     (if up_worker (fst s) = Waiting \<and> up_wakeup (fst s)
      then drain network ((fst s)\<lparr>up_wakeup := False\<rparr>, snd s) else s)"

text \<open>The publish in flight ends: the \<open>else\<close> and \<open>except\<close> branches, up to the next await.\<close>

definition publish_confirmed :: "string \<Rightarrow> unit_publisher \<times> bridge_diagnostics
    \<Rightarrow> unit_publisher \<times> bridge_diagnostics" where
  "publish_confirmed network s =
     (let (p, d) = s;
          p' = (if up_failure_streak p > 0
                then p\<lparr>up_failure_streak := 0, up_log := up_log p @ [''Unit state publishing recovered'']\<rparr>
                else p) in
      drain network (p', d\<lparr>bd_unit_publish_confirmed := bd_unit_publish_confirmed d + 1\<rparr>))"

definition publish_failed :: "string \<Rightarrow> casa_unit \<Rightarrow> unit_publisher \<times> bridge_diagnostics
    \<Rightarrow> unit_publisher \<times> bridge_diagnostics" where
  "publish_failed topic u s =
     (let (p, d) = s;
          pending = (if topic \<in> fst ` set (up_pending p) then up_pending p else up_pending p @ [(topic, u)]) in
      (p\<lparr>up_failed := up_failed p + 1, up_failure_streak := up_failure_streak p + 1,
         up_log := (if up_failure_streak p + 1 = 1
                    then up_log p @ [''Unit state publish failed; retrying after a backoff''] else up_log p),
         up_pending := pending, up_worker := Backing_Off\<rparr>,
       d\<lparr>bd_unit_publish_failed := bd_unit_publish_failed d + 1, bd_unit_queue_depth := int (length pending)\<rparr>))"

definition publish_ends :: "string \<Rightarrow> publish_outcome \<Rightarrow> unit_publisher \<times> bridge_diagnostics
    \<Rightarrow> unit_publisher \<times> bridge_diagnostics" where
  "publish_ends network outcome s =
     (case up_worker (fst s) of
        Publishing topic u \<Rightarrow>
          if outcome = Confirmed then publish_confirmed network s else publish_failed topic u s
      | _ \<Rightarrow> s)"

definition backoff_ends :: "unit_publisher \<times> bridge_diagnostics \<Rightarrow> unit_publisher \<times> bridge_diagnostics" where
  "backoff_ends s =
     (let (p, d) = s in
      if up_worker p \<noteq> Backing_Off then s
      else (p\<lparr>up_wakeup := True, up_idle := (if up_pending p = [] then True else up_idle p),
              up_worker := Waiting\<rparr>, d))"

text \<open>\<^verbatim>\<open>unit_callback\<close> of \<^verbatim>\<open>run_connected_bridge\<close>\<close>

definition unit_callback :: "string \<Rightarrow> casa_unit list \<Rightarrow> casa_unit \<Rightarrow> unit_publisher \<times> bridge_diagnostics
    \<Rightarrow> unit_publisher \<times> bridge_diagnostics" where
  "unit_callback network units u s =
     (let (p, d) = s; s' = (p, d\<lparr>bd_unit_callbacks := bd_unit_callbacks d + 1\<rparr>) in
      if cu_address u = [] \<and> \<not> addressless_unit_uuid_is_unique units u then s'
      else submit network u s')"

section \<open>Runs\<close>

text \<open>
  The actions: a callback with the network's units at that time, the worker waking, its publish
  ending (and whether a failed one had reached the broker), its back-off ending.
\<close>

datatype unit_action =
  Unit_Changed "casa_unit list" casa_unit
| Wake
| Publish_Ends publish_outcome bool
| Backoff_Ends

type_synonym unit_world = "(unit_publisher \<times> bridge_diagnostics) \<times> (string \<Rightarrow> unit_entity option)"

definition in_flight :: "unit_publisher \<Rightarrow> (string \<times> casa_unit) option" where
  "in_flight p = (case up_worker p of Publishing topic u \<Rightarrow> Some (topic, u) | _ \<Rightarrow> None)"

fun unit_act :: "string \<Rightarrow> unit_action \<Rightarrow> unit_world \<Rightarrow> unit_world" where
  "unit_act network (Unit_Changed units u) (s, broker) = (unit_callback network units u s, broker)"
| "unit_act network Wake (s, broker) = (wake network s, broker)"
| "unit_act network (Publish_Ends outcome arrived) (s, broker) =
     (publish_ends network outcome s,
      case in_flight (fst s) of
        Some (topic, u) \<Rightarrow> if outcome = Confirmed \<or> arrived then broker(topic \<mapsto> to_entity u) else broker
      | None \<Rightarrow> broker)"
| "unit_act network Backoff_Ends (s, broker) = (backoff_ends s, broker)"

fun unit_run :: "string \<Rightarrow> unit_action list \<Rightarrow> unit_world \<Rightarrow> unit_world" where
  "unit_run network [] w = w"
| "unit_run network (a # as) w = unit_run network as (unit_act network a w)"

text \<open>The newest state of each topic that the callbacks of a run reported.\<close>

fun newest :: "string \<Rightarrow> unit_action list \<Rightarrow> (string \<Rightarrow> casa_unit option) \<Rightarrow> string \<Rightarrow> casa_unit option" where
  "newest network [] known = known"
| "newest network (Unit_Changed units u # as) known =
     newest network as
       (if cu_address u = [] \<and> \<not> addressless_unit_uuid_is_unique units u then known
        else case unit_event_topic network u of None \<Rightarrow> known | Some topic \<Rightarrow> known(topic \<mapsto> u))"
| "newest network (a # as) known = newest network as known"

section \<open>The invariant\<close>

text \<open>
  Of each topic the newest state is waiting, or in flight, or what the broker retains;
  the worker never sleeps over waiting states.
\<close>

definition held :: "(string \<times> casa_unit) list \<Rightarrow> (string \<times> casa_unit) option
    \<Rightarrow> (string \<Rightarrow> unit_entity option) \<Rightarrow> string \<Rightarrow> unit_entity option" where
  "held pending flight broker t =
     (case map_of pending t of
        Some u \<Rightarrow> Some (to_entity u)
      | None \<Rightarrow> (case flight of
          Some (t', u) \<Rightarrow> if t' = t then Some (to_entity u) else broker t
        | None \<Rightarrow> broker t))"

definition newest_held :: "(string \<Rightarrow> casa_unit option) \<Rightarrow> (string \<Rightarrow> unit_entity option) \<Rightarrow> bool" where
  "newest_held known entities \<longleftrightarrow> (\<forall>t u. known t = Some u \<longrightarrow> entities t = Some (to_entity u))"

definition awake :: "unit_publisher \<Rightarrow> bool" where
  "awake p \<longleftrightarrow> (up_worker p = Waiting \<and> up_pending p \<noteq> [] \<longrightarrow> up_wakeup p)
     \<and> (up_worker p = Backing_Off \<longrightarrow> up_pending p \<noteq> [])
     \<and> (up_idle p \<longrightarrow> up_pending p = [] \<and> up_worker p = Waiting)"

definition counted :: "unit_publisher \<Rightarrow> bridge_diagnostics \<Rightarrow> bool" where
  "counted p d \<longleftrightarrow> bd_unit_publish_attempted d = bd_unit_publish_confirmed d + bd_unit_publish_failed d
       + (if in_flight p = None then 0 else 1)
     \<and> bd_unit_publish_failed d = up_failed p \<and> bd_unit_queue_depth d = int (length (up_pending p))"

fun unit_inv :: "(string \<Rightarrow> casa_unit option) \<Rightarrow> unit_world \<Rightarrow> bool" where
  "unit_inv known ((p, d), broker) \<longleftrightarrow> newest_held known (held (up_pending p) (in_flight p) broker)
     \<and> distinct (map fst (up_pending p)) \<and> awake p \<and> counted p d"

lemma in_flight_simps [simp]:
  "up_worker p = Waiting \<Longrightarrow> in_flight p = None"
  "up_worker p = Publishing t u \<Longrightarrow> in_flight p = Some (t, u)"
  "up_worker p = Backing_Off \<Longrightarrow> in_flight p = None"
  by (simp_all add: in_flight_def)

lemma newest_held_update: "newest_held known e \<Longrightarrow> newest_held (known(t \<mapsto> u)) (e(t \<mapsto> to_entity u))"
  by (simp add: newest_held_def)

lemma held_update: "held (AList.update t u pending) flight broker = (held pending flight broker)(t \<mapsto> to_entity u)"
  by (auto simp: held_def update_conv' fun_eq_iff)

lemma held_pop: "t \<notin> fst ` set pending \<Longrightarrow> held ((t, u) # pending) None broker = held pending (Some (t, u)) broker"
  using map_of_eq_None_iff[of pending t] by (auto simp: held_def fun_eq_iff split: option.splits)

lemma held_confirmed: "held pending None (broker(t \<mapsto> to_entity u)) = held pending (Some (t, u)) broker"
  by (auto simp: held_def fun_eq_iff split: option.splits)

lemma held_arrived: "held pending (Some (t, u)) (broker(t \<mapsto> e)) = held pending (Some (t, u)) broker"
  by (auto simp: held_def fun_eq_iff split: option.splits)

lemma held_requeued: "held (if t \<in> fst ` set pending then pending else pending @ [(t, u)]) None broker
    = held pending (Some (t, u)) broker"
proof (cases "t \<in> fst ` set pending")
  case True
  then have "map_of pending t \<noteq> None" by (simp add: map_of_eq_None_iff)
  with True show ?thesis by (auto simp: held_def fun_eq_iff split: option.splits)
next
  case False
  then have "map_of pending t = None" by (simp add: map_of_eq_None_iff)
  with False show ?thesis by (auto simp: held_def fun_eq_iff map_add_def split: option.splits)
qed

lemma drain_inv:
  assumes "newest_held known (held (up_pending p) None broker)" "distinct (map fst (up_pending p))"
    and "bd_unit_publish_attempted d = bd_unit_publish_confirmed d + bd_unit_publish_failed d"
    and "bd_unit_publish_failed d = up_failed p" "bd_unit_queue_depth d = int (length (up_pending p))"
    and "up_idle p \<longrightarrow> up_pending p = []"
  shows "unit_inv known (drain network (p, d), broker)"
  using assms
  by (cases "up_pending p") (auto simp: drain_def awake_def counted_def in_flight_def held_pop)

lemma publish_failed_inv:
  assumes "unit_inv known ((p, d), broker)" "up_worker p = Publishing topic u"
    and "broker' = broker \<or> broker' = broker(topic \<mapsto> to_entity u)"
  shows "unit_inv known (publish_failed topic u (p, d), broker')"
proof -
  let ?pending = "if topic \<in> fst ` set (up_pending p) then up_pending p else up_pending p @ [(topic, u)]"
  have "held ?pending None broker' = held (up_pending p) (in_flight p) broker"
    unfolding held_requeued using assms(2,3) by (auto simp: held_arrived)
  moreover have "distinct (map fst ?pending)" using assms(1) by simp
  moreover have "?pending \<noteq> []" by auto
  ultimately show ?thesis
    using assms(1,2) unfolding publish_failed_def Let_def
    by (simp add: counted_def awake_def in_flight_def)
qed

lemma unit_act_inv:
  assumes "unit_inv known ((p, d), broker)"
  shows "unit_inv (newest network [a] known) (unit_act network a ((p, d), broker))"
proof (cases a)
  case (Unit_Changed units u)
  show ?thesis
  proof (cases "unit_event_topic network u")
    case None
    then show ?thesis using assms Unit_Changed
      by (auto simp: unit_callback_def submit_def counted_def Let_def)
  next
    case (Some topic)
    with assms Unit_Changed show ?thesis
      by (auto simp: unit_callback_def submit_def counted_def awake_def in_flight_def Let_def
          distinct_update held_update newest_held_update)
  qed
next
  case Wake
  show ?thesis
  proof (cases "up_worker p = Waiting \<and> up_wakeup p")
    case True
    with assms Wake show ?thesis
      by (auto simp: wake_def counted_def awake_def intro!: drain_inv)
  qed (use assms Wake in \<open>auto simp: wake_def\<close>)
next
  case (Publish_Ends outcome arrived)
  show ?thesis
  proof (cases "up_worker p")
    case (Publishing topic u)
    show ?thesis
    proof (cases "outcome = Confirmed")
      case True
      with assms Publish_Ends Publishing show ?thesis
        by (auto simp: publish_ends_def publish_confirmed_def counted_def awake_def held_confirmed Let_def
            intro!: drain_inv)
    next
      case False
      have "unit_inv known (publish_failed topic u (p, d), if arrived then broker(topic \<mapsto> to_entity u) else broker)"
        by (rule publish_failed_inv[OF assms Publishing]) simp
      with False Publish_Ends Publishing show ?thesis by (simp add: publish_ends_def)
    qed
  qed (use assms Publish_Ends in \<open>auto simp: publish_ends_def\<close>)
next
  case Backoff_Ends
  with assms show ?thesis
    by (auto simp: backoff_ends_def counted_def awake_def in_flight_def split: unit_worker.splits)
qed

lemma newest_Cons: "newest network (a # as) known = newest network as (newest network [a] known)"
  by (cases a) simp_all

lemma unit_run_inv: "unit_inv known w \<Longrightarrow> unit_inv (newest network as known) (unit_run network as w)"
proof (induction as arbitrary: known w)
  case (Cons a as)
  obtain p d broker where w: "w = ((p, d), broker)" by (metis surj_pair)
  with Cons.prems unit_act_inv have "unit_inv (newest network [a] known) (unit_act network a w)" by simp
  from Cons.IH[OF this] show ?case by (subst newest_Cons) simp
qed simp

section \<open>Fairness\<close>

text \<open>
  How far a waiting topic is from the front. Nothing moves it back: a newer state takes its
  place, a failed one is put behind it.
\<close>

fun position :: "string \<Rightarrow> (string \<times> casa_unit) list \<Rightarrow> nat option" where
  "position t [] = None"
| "position t ((t', u) # pending) = (if t' = t then Some 0 else map_option Suc (position t pending))"

lemma position_update: "position t pending = Some i \<Longrightarrow> position t (AList.update t' u pending) = Some i"
  by (induction pending arbitrary: i) auto

lemma position_append: "position t pending = Some i \<Longrightarrow> position t (pending @ xs) = Some i"
  by (induction t pending arbitrary: i rule: position.induct) auto

definition own_topics :: "string \<Rightarrow> (string \<times> casa_unit) list \<Rightarrow> bool" where
  "own_topics network pending \<longleftrightarrow> (\<forall>(t, u) \<in> set pending. unit_event_topic network u = Some t)"

lemma own_topics_simps [simp]:
  "own_topics network []"
  "own_topics network ((t, u) # pending) \<longleftrightarrow> unit_event_topic network u = Some t \<and> own_topics network pending"
  "own_topics network (xs @ ys) \<longleftrightarrow> own_topics network xs \<and> own_topics network ys"
  by (auto simp: own_topics_def)

definition topics_match :: "string \<Rightarrow> unit_publisher \<Rightarrow> bool" where
  "topics_match network p \<longleftrightarrow> own_topics network (up_pending p)
     \<and> (\<forall>t u. in_flight p = Some (t, u) \<longrightarrow> unit_event_topic network u = Some t)"

lemma own_topics_update: "own_topics network pending \<Longrightarrow> unit_event_topic network u = Some t \<Longrightarrow>
    own_topics network (AList.update t u pending)"
  by (induction pending) auto

text \<open>One action sends nothing and leaves \<open>t\<close> where it is, or sends one and moves \<open>t\<close> up.\<close>

definition stays :: "string \<Rightarrow> string \<Rightarrow> unit_publisher \<Rightarrow> unit_publisher \<Rightarrow> bool" where
  "stays network t p p' \<longleftrightarrow> topics_match network p' \<and> up_sent p' = up_sent p
     \<and> (\<forall>i. position t (up_pending p) = Some i \<longrightarrow> position t (up_pending p') = Some i)"

definition moves_up :: "string \<Rightarrow> string \<Rightarrow> unit_publisher \<Rightarrow> unit_publisher \<Rightarrow> bool" where
  "moves_up network t p p' \<longleftrightarrow> topics_match network p' \<and> (\<exists>m. up_sent p' = up_sent p @ [m]
     \<and> (\<forall>i. position t (up_pending p) = Some i \<longrightarrow>
          (if i = 0 then fst m = t else position t (up_pending p') = Some (i - 1))))"

lemma stays_same: "topics_match network p \<Longrightarrow> up_sent p' = up_sent p \<Longrightarrow> up_pending p' = up_pending p
    \<Longrightarrow> in_flight p' = in_flight p \<or> in_flight p' = None \<Longrightarrow> stays network t p p'"
  by (auto simp: stays_def topics_match_def)

lemma drain_progress:
  assumes "own_topics network (up_pending q)"
    and "up_sent p = up_sent q" "up_pending p = up_pending q"
  shows "stays network t p (fst (drain network (q, d))) \<or> moves_up network t p (fst (drain network (q, d)))"
proof (cases "up_pending q")
  case Nil
  with assms show ?thesis by (simp add: drain_def stays_def topics_match_def)
next
  case (Cons m pending)
  obtain t' u where "m = (t', u)" by force
  with Cons assms show ?thesis
    by (auto simp: drain_def moves_up_def topics_match_def unit_message_def)
qed

lemma submit_progress:
  assumes "topics_match network p"
  shows "stays network t p (fst (submit network u (p, d)))"
proof (cases "unit_event_topic network u")
  case None
  with assms show ?thesis by (simp add: submit_def stays_same)
next
  case (Some topic)
  with assms show ?thesis
    by (simp add: submit_def stays_def topics_match_def in_flight_def Let_def position_update own_topics_update)
qed

lemma unit_act_progress:
  assumes "topics_match network p"
  shows "stays network t p (fst (fst (unit_act network a ((p, d), broker))))
    \<or> moves_up network t p (fst (fst (unit_act network a ((p, d), broker))))"
proof -
  from assms have pending: "own_topics network (up_pending p)"
    by (simp add: topics_match_def)
  show ?thesis
  proof (cases a)
    case (Unit_Changed units u)
    with assms show ?thesis by (simp add: unit_callback_def Let_def stays_same submit_progress)
  next
    case Wake
    show ?thesis
    proof (cases "up_worker p = Waiting \<and> up_wakeup p")
      case True
      with Wake have eq: "fst (fst (unit_act network a ((p, d), broker))) = fst (drain network (p\<lparr>up_wakeup := False\<rparr>, d))"
        by (simp add: wake_def)
      show ?thesis unfolding eq by (rule drain_progress) (simp_all add: pending)
    next
      case False
      with Wake have "fst (fst (unit_act network a ((p, d), broker))) = p" by (auto simp: wake_def)
      with assms show ?thesis by (simp add: stays_same)
    qed
  next
    case (Publish_Ends outcome arrived)
    show ?thesis
    proof (cases "up_worker p")
      case (Publishing topic u)
      show ?thesis
      proof (cases "outcome = Confirmed")
        case True
        let ?q = "if up_failure_streak p > 0 then p\<lparr>up_failure_streak := 0,
          up_log := up_log p @ [''Unit state publishing recovered'']\<rparr> else p"
        let ?d = "d\<lparr>bd_unit_publish_confirmed := bd_unit_publish_confirmed d + 1\<rparr>"
        have eq: "fst (fst (unit_act network a ((p, d), broker))) = fst (drain network (?q, ?d))"
          using True Publish_Ends Publishing by (simp add: publish_ends_def publish_confirmed_def Let_def)
        show ?thesis unfolding eq by (rule drain_progress) (simp_all add: pending)
      next
        case False
        with assms Publish_Ends Publishing show ?thesis
          by (auto simp: publish_ends_def publish_failed_def stays_def topics_match_def in_flight_def Let_def
              intro: position_append)
      qed
    qed (use assms Publish_Ends in \<open>simp_all add: publish_ends_def stays_same\<close>)
  next
    case Backoff_Ends
    with assms show ?thesis by (auto simp: backoff_ends_def intro!: stays_same)
  qed
qed

lemma unit_run_grows:
  assumes "topics_match network (fst (fst w))"
  shows "\<exists>new. up_sent (fst (fst (unit_run network as w))) = up_sent (fst (fst w)) @ new"
  using assms
proof (induction as arbitrary: w)
  case (Cons a as)
  obtain p d broker where w: "w = ((p, d), broker)" by (metis surj_pair)
  from Cons.prems unit_act_progress[of network p "[]" a d broker] Cons.IH[of "unit_act network a w"]
  show ?case unfolding w by (auto simp: stays_def moves_up_def)
qed simp

lemma unit_run_attempts:
  assumes "topics_match network (fst (fst w))" "position t (up_pending (fst (fst w))) = Some i"
  shows "\<exists>new. up_sent (fst (fst (unit_run network as w))) = up_sent (fst (fst w)) @ new
    \<and> (i < length new \<longrightarrow> t \<in> fst ` set (take (Suc i) new))"
  using assms
proof (induction as arbitrary: w i)
  case (Cons a as)
  obtain p d broker where w: "w = ((p, d), broker)" by (metis surj_pair)
  let ?w = "unit_act network a w"
  from unit_act_progress[of network p t a d broker] Cons.prems
  consider "stays network t p (fst (fst ?w))" | "moves_up network t p (fst (fst ?w))" unfolding w by auto
  then show ?case
  proof cases
    case 1
    with Cons.prems Cons.IH[of ?w i] show ?thesis by (simp add: w stays_def)
  next
    case 2
    then obtain m where m: "topics_match network (fst (fst ?w))" "up_sent (fst (fst ?w)) = up_sent p @ [m]"
      "if i = 0 then fst m = t else position t (up_pending (fst (fst ?w))) = Some (i - 1)"
      using Cons.prems(2) unfolding moves_up_def w by auto
    show ?thesis
    proof (cases i)
      case 0
      with m unit_run_grows[OF m(1), of as] show ?thesis by (auto simp: w)
    next
      case (Suc j)
      with m Cons.IH[of ?w j] obtain new where
        "up_sent (fst (fst (unit_run network as ?w))) = (up_sent p @ [m]) @ new"
        "j < length new \<longrightarrow> t \<in> fst ` set (take (Suc j) new)" by auto
      with Suc show ?thesis by (intro exI[of _ "m # new"]) (simp add: w)
    qed
  qed
qed simp

lemma unit_run_topics: "topics_match network (fst (fst w)) \<Longrightarrow> topics_match network (fst (fst (unit_run network as w)))"
proof (induction as arbitrary: w)
  case (Cons a as)
  obtain p d broker where w: "w = ((p, d), broker)" by (metis surj_pair)
  from Cons.prems unit_act_progress[of network p "[]" a d broker]
  have "topics_match network (fst (fst (unit_act network a w)))" unfolding w stays_def moves_up_def by auto
  from Cons.IH[OF this] show ?case by simp
qed simp

lemma unit_run_append: "unit_run network (as @ bs) w = unit_run network bs (unit_run network as w)"
  by (induction as arbitrary: w) simp_all

section \<open>Properties\<close>

abbreviation start_world :: "(string \<Rightarrow> unit_entity option) \<Rightarrow> unit_world" where
  "start_world broker \<equiv> ((new_unit_publisher, new_diagnostics), broker)"

lemma unit_inv_start: "unit_inv Map.empty (start_world broker)"
  by (simp add: newest_held_def awake_def counted_def new_unit_publisher_def new_diagnostics_def)

lemma topics_match_start: "topics_match network new_unit_publisher"
  by (simp add: topics_match_def new_unit_publisher_def)

text \<open>
  C21: no state is lost. However callbacks, failing publishes and back-offs interleave, the newest
  reported state of a topic waits in the dict, is in flight with none newer waiting, or is what the
  broker retains; a worker with waiting states is publishing, backing off or about to wake; and
  once the publisher is idle the broker retains exactly the newest state of every reported topic.
\<close>

theorem newest_state_reaches_broker:
  fixes broker :: "string \<Rightarrow> unit_entity option"
  assumes "newest network as Map.empty t = Some u"
  defines "w \<equiv> unit_run network as (start_world broker)"
  defines "p \<equiv> fst (fst w)"
  shows "held (up_pending p) (in_flight p) (snd w) t = Some (to_entity u)
    \<and> (up_pending p = [] \<or> up_worker p \<noteq> Waiting \<or> up_wakeup p)
    \<and> (up_idle p \<longrightarrow> snd w t = Some (to_entity u))"
proof -
  obtain d broker' where w: "w = ((p, d), broker')" using p_def by (metis prod.collapse)
  have inv: "unit_inv (newest network as Map.empty) ((p, d), broker')"
    using unit_run_inv[OF unit_inv_start, of network as broker] w_def w by simp
  with assms(1) have "held (up_pending p) (in_flight p) broker' t = Some (to_entity u)"
    by (simp add: newest_held_def)
  with inv show ?thesis by (auto simp: w awake_def held_def)
qed

text \<open>
  No unit starves. A state that waits behind \<open>i\<close> others is among the next \<open>i + 1\<close> that the
  worker publishes, whatever is reported and whatever fails meanwhile.
\<close>

theorem waiting_unit_is_next:
  assumes "position t (up_pending (fst (fst (unit_run network as (start_world broker))))) = Some i"
  shows "\<exists>sent. up_sent (fst (fst (unit_run network (as @ bs) (start_world broker))))
      = up_sent (fst (fst (unit_run network as (start_world broker)))) @ sent
    \<and> (i < length sent \<longrightarrow> t \<in> fst ` set (take (Suc i) sent))"
  unfolding unit_run_append
  by (rule unit_run_attempts[OF unit_run_topics assms]) (simp add: topics_match_start)

text \<open>A state, a newer one while the first fails, the back-off, and the retry; a second unit waits behind.\<close>

definition sample_unit_actions :: "unit_action list" where
  "sample_unit_actions = [Unit_Changed [] (sample_unit ''a'' 10), Wake, Unit_Changed [] (sample_unit ''b'' 5),
     Unit_Changed [] (sample_unit ''a'' 20), Publish_Ends Mqtt_Error False, Backoff_Ends]"

lemmas unit_run_simps = sample_unit_actions_def unit_callback_def submit_def wake_def drain_def publish_ends_def
  publish_confirmed_def publish_failed_def backoff_ends_def new_unit_publisher_def unit_message_def
  in_flight_def Let_def

theorem newest_state_reaches_broker_witness:
  "snd (unit_run ''net'' (sample_unit_actions @ [Wake, Publish_Ends Confirmed True, Publish_Ends Confirmed True])
      (start_world Map.empty)) ''casambi/net/events/a'' = Some (to_entity (sample_unit ''a'' 20))"
proof -
  let ?as = "sample_unit_actions @ [Wake, Publish_Ends Confirmed True, Publish_Ends Confirmed True]"
  have "newest ''net'' ?as Map.empty ''casambi/net/events/a'' = Some (sample_unit ''a'' 20)"
    by (simp add: sample_unit_actions_def events_topic_def)
  moreover have "up_idle (fst (fst (unit_run ''net'' ?as (start_world Map.empty))))"
    by (simp add: unit_run_simps)
  ultimately show ?thesis using newest_state_reaches_broker[of "''net''" ?as] by blast
qed

theorem waiting_unit_is_next_witness:
  "\<exists>sent. up_sent (fst (fst (unit_run ''net'' (sample_unit_actions @ [Wake, Publish_Ends Other_Error False, Backoff_Ends, Wake])
        (start_world Map.empty))))
      = up_sent (fst (fst (unit_run ''net'' sample_unit_actions (start_world Map.empty)))) @ sent
    \<and> ''casambi/net/events/a'' \<in> fst ` set (take 2 sent)"
proof -
  have "position ''casambi/net/events/a'' (up_pending (fst (fst (unit_run ''net'' sample_unit_actions
      (start_world Map.empty))))) = Some 1"
    by (simp add: unit_run_simps) (simp add: events_topic_def)
  from waiting_unit_is_next[OF this, of "[Wake, Publish_Ends Other_Error False, Backoff_Ends, Wake]"] obtain sent where
    sent: "up_sent (fst (fst (unit_run ''net'' (sample_unit_actions @ [Wake, Publish_Ends Other_Error False, Backoff_Ends, Wake])
        (start_world Map.empty))))
      = up_sent (fst (fst (unit_run ''net'' sample_unit_actions (start_world Map.empty)))) @ sent"
    and second: "1 < length sent \<longrightarrow> ''casambi/net/events/a'' \<in> fst ` set (take 2 sent)"
    by (metis Suc_1)
  have "length (up_sent (fst (fst (unit_run ''net'' (sample_unit_actions
        @ [Wake, Publish_Ends Other_Error False, Backoff_Ends, Wake]) (start_world Map.empty)))))
      = length (up_sent (fst (fst (unit_run ''net'' sample_unit_actions (start_world Map.empty))))) + 2"
    by (simp add: unit_run_simps)
  with sent have "length sent = 2" by simp
  with sent second show ?thesis by (intro exI[of _ sent]) simp
qed

end
