(* ===== verification/Bridge_Health.thy ===== *)
theory Bridge_Health
  imports Protocol Contracts Bridge_Diagnostics
begin

text \<open>
  \<^verbatim>\<open>src/server.py\<close>, \<^verbatim>\<open>BridgeHealth\<close> and \<^verbatim>\<open>HealthRecord\<close>: the process-lifetime
  health state behind the v1 status messages, the local record a supervisor reads, and the limits
  on health requests. \<open>now\<close> is the monotonic clock's reading within one operation; \<open>failing\<close> is what
  the callable \<^verbatim>\<open>state_publish_failing\<close> answers; \<open>writable\<close> says whether the record's file
  operations succeed (the replacement of the file is atomic).
\<close>

section \<open>State\<close>

abbreviation "HEALTH_RECORD_VERSION \<equiv> 1 :: int"
abbreviation "HEALTH_REPLY_MIN_INTERVAL \<equiv> 1 :: time"
abbreviation "SNAPSHOT_REQUEST_MIN_INTERVAL \<equiv> 30 :: time"

text \<open>\<^verbatim>\<open>HealthRecord\<close>: who writes, whether the last write failed, and the file's contents.\<close>

record local_record =
  lr_pid :: int
  lr_start_ticks :: "int option"
  lr_boot_id :: "string option"
  lr_failed :: bool
  lr_file :: "json option"

record snapshot_result =
  sn_units :: int
  sn_scenes :: int
  sn_failed :: int

definition snapshot_result_ok :: "snapshot_result \<Rightarrow> bool" where
  "snapshot_result_ok r \<longleftrightarrow> sn_failed r = 0"

record bridge_health =
  bh_instance_id :: string
  bh_record :: "local_record option"
  bh_ever_ready :: bool
  bh_mqtt_reconnects :: int
  bh_ready_since :: "time option"
  bh_started :: time
  bh_sequence :: int
  bh_phase :: string
  bh_ble :: string
  bh_mqtt :: string
  bh_error :: string
  bh_snapshot :: snapshot_summary
  bh_snapshot_completed_at :: "time option"
  bh_last_reply_at :: "string \<Rightarrow> time option"
  bh_last_snapshot_request_at :: "time option"
  bh_status_failure_streak :: int

definition new_health :: "string \<Rightarrow> local_record option \<Rightarrow> time \<Rightarrow> bridge_health" where
  "new_health instance_id r now = \<lparr>bh_instance_id = instance_id, bh_record = r, bh_ever_ready = False,
     bh_mqtt_reconnects = 0, bh_ready_since = None, bh_started = now, bh_sequence = 0,
     bh_phase = PHASE_STARTING, bh_ble = LINK_UNKNOWN, bh_mqtt = LINK_UNKNOWN, bh_error = ERROR_NONE,
     bh_snapshot = empty_snapshot_summary, bh_snapshot_completed_at = None,
     bh_last_reply_at = Map.empty, bh_last_snapshot_request_at = None, bh_status_failure_streak = 0\<rparr>"

section \<open>The local record\<close>

definition json_of_opt_time :: "time option \<Rightarrow> json" where
  "json_of_opt_time t = (case t of None \<Rightarrow> JNull | Some x \<Rightarrow> JFloat x)"

definition health_record_json :: "time \<Rightarrow> bridge_health \<Rightarrow> local_record \<Rightarrow> json" where
  "health_record_json now h r = JObj
     [(''record_version'', JInt HEALTH_RECORD_VERSION),
      (''instance_id'', JStr (bh_instance_id h)),
      (''pid'', JInt (lr_pid r)),
      (''start_ticks'', json_of_opt_int (lr_start_ticks r)),
      (''boot_id'', json_of_opt_str (lr_boot_id r)),
      (''phase'', JStr (bh_phase h)),
      (''error'', JStr (bh_error h)),
      (''ble'', JStr (bh_ble h)),
      (''mqtt'', JStr (bh_mqtt h)),
      (''ever_ready'', JBool (bh_ever_ready h)),
      (''mqtt_reconnects'', JInt (bh_mqtt_reconnects h)),
      (''ready_since_monotonic'', json_of_opt_time (bh_ready_since h)),
      (''updated_monotonic'', JFloat now)]"

definition write_record :: "bool \<Rightarrow> time \<Rightarrow> bridge_health \<Rightarrow> local_record \<Rightarrow> local_record" where
  "write_record writable now h r =
     (if writable then r\<lparr>lr_file := Some (health_record_json now h r), lr_failed := False\<rparr>
      else r\<lparr>lr_failed := True\<rparr>)"

definition persist :: "bool \<Rightarrow> time \<Rightarrow> bridge_health \<Rightarrow> bridge_health" where
  "persist writable now h =
     (case bh_record h of None \<Rightarrow> h
      | Some r \<Rightarrow> h\<lparr>bh_record := Some (write_record writable now h r)\<rparr>)"

section \<open>Phases and snapshots\<close>

definition set_phase :: "bool \<Rightarrow> time \<Rightarrow> string \<Rightarrow> string \<Rightarrow> bridge_health \<Rightarrow> bridge_health" where
  "set_phase writable now phase error h =
     persist writable now
       ((if phase = PHASE_READY
         then h\<lparr>bh_ready_since := (if bh_phase h \<noteq> PHASE_READY then Some now else bh_ready_since h),
                bh_ever_ready := True\<rparr>
         else h\<lparr>bh_ready_since := None\<rparr>)
        \<lparr>bh_phase := phase, bh_error := error\<rparr>)"

definition session_started :: "bool \<Rightarrow> time \<Rightarrow> bridge_health \<Rightarrow> bridge_health" where
  "session_started writable now h =
     set_phase writable now PHASE_STARTING ERROR_NONE (h\<lparr>bh_ble := LINK_CONNECTED, bh_mqtt := LINK_CONNECTED\<rparr>)"

definition record_snapshot :: "bool \<Rightarrow> time \<Rightarrow> snapshot_result \<Rightarrow> bridge_health \<Rightarrow> int \<times> bridge_health" where
  "record_snapshot writable now r h =
     (let generation = ss_generation (bh_snapshot h) + 1;
          h' = h\<lparr>bh_snapshot := \<lparr>ss_generation = generation, ss_units = sn_units r, ss_scenes = sn_scenes r,
                   ss_failed = sn_failed r, ss_age_s = None\<rparr>,
                 bh_snapshot_completed_at := Some now\<rparr> in
      (generation,
       if snapshot_result_ok r then set_phase writable now PHASE_READY ERROR_NONE h'
       else set_phase writable now PHASE_DEGRADED ERROR_SNAPSHOT_PUBLISH_FAILED h'))"

section \<open>Statuses\<close>

definition effective_phase :: "bool \<Rightarrow> bridge_health \<Rightarrow> string \<times> string" where
  "effective_phase failing h =
     (if bh_phase h = PHASE_READY \<and> failing then (PHASE_DEGRADED, ERROR_STATE_PUBLISH_FAILED)
      else (bh_phase h, bh_error h))"

text \<open>\<open>stamp\<close> is the wall clock's UTC time as text.\<close>

definition build_status :: "bool \<Rightarrow> time \<Rightarrow> string \<Rightarrow> bridge_health \<Rightarrow> bridge_status \<times> bridge_health" where
  "build_status failing now stamp h =
     (let h' = h\<lparr>bh_sequence := bh_sequence h + 1\<rparr>;
          age = (case bh_snapshot_completed_at h' of None \<Rightarrow> None | Some t \<Rightarrow> Some (py_trunc (now - t)));
          (phase, error) = effective_phase failing h' in
      (\<lparr>bs_instance_id = bh_instance_id h', bs_sequence = Some (bh_sequence h'), bs_phase = phase,
        bs_ble = bh_ble h', bs_mqtt = bh_mqtt h', bs_uptime_s = Some (py_trunc (now - bh_started h')),
        bs_snapshot = \<lparr>ss_generation = ss_generation (bh_snapshot h'), ss_units = ss_units (bh_snapshot h'),
          ss_scenes = ss_scenes (bh_snapshot h'), ss_failed = ss_failed (bh_snapshot h'), ss_age_s = age\<rparr>,
        bs_error = error, bs_time = Some stamp, bs_protocol_version = PROTOCOL_VERSION\<rparr>,
       h'))"

definition will_status :: "bridge_health \<Rightarrow> bridge_status" where
  "will_status h =
     \<lparr>bs_instance_id = bh_instance_id h, bs_sequence = None, bs_phase = PHASE_OFFLINE, bs_ble = LINK_UNKNOWN,
      bs_mqtt = LINK_DISCONNECTED, bs_uptime_s = None, bs_snapshot = empty_snapshot_summary,
      bs_error = ERROR_CONNECTION_LOST, bs_time = None, bs_protocol_version = PROTOCOL_VERSION\<rparr>"

text \<open>
  \<^verbatim>\<open>publish_status\<close> up to the await of the client's publish (a retained QoS 1 message of the status on
  the status topic), and after it; a timeout is an error here.
\<close>

definition publish_status :: "bool \<Rightarrow> bool \<Rightarrow> time \<Rightarrow> string \<Rightarrow> bridge_health \<Rightarrow> bridge_status \<times> bridge_health" where
  "publish_status writable failing now stamp h = build_status failing now stamp (persist writable now h)"

definition status_published :: "bool \<Rightarrow> bridge_health \<times> bridge_diagnostics \<Rightarrow> bridge_health \<times> bridge_diagnostics" where
  "status_published confirmed s =
     (let (h, d) = s in
      if confirmed
      then (h\<lparr>bh_status_failure_streak := 0\<rparr>, d\<lparr>bd_health_status_published := bd_health_status_published d + 1\<rparr>)
      else (h\<lparr>bh_status_failure_streak := bh_status_failure_streak h + 1\<rparr>,
            d\<lparr>bd_health_status_failed := bd_health_status_failed d + 1\<rparr>))"

section \<open>Health requests\<close>

definition reply_allowed :: "string \<Rightarrow> time \<Rightarrow> bridge_health \<Rightarrow> bool \<times> bridge_health" where
  "reply_allowed kind now h =
     (case bh_last_reply_at h kind of
        Some last_reply \<Rightarrow>
          if now - last_reply < HEALTH_REPLY_MIN_INTERVAL then (False, h)
          else (True, h\<lparr>bh_last_reply_at := (bh_last_reply_at h)(kind \<mapsto> now)\<rparr>)
      | None \<Rightarrow> (True, h\<lparr>bh_last_reply_at := (bh_last_reply_at h)(kind \<mapsto> now)\<rparr>))"

definition snapshot_request_allowed :: "time \<Rightarrow> bridge_health \<Rightarrow> bool \<times> bridge_health" where
  "snapshot_request_allowed now h =
     (case bh_last_snapshot_request_at h of
        Some last_request \<Rightarrow>
          if now - last_request < SNAPSHOT_REQUEST_MIN_INTERVAL then (False, h)
          else (True, h\<lparr>bh_last_snapshot_request_at := Some now\<rparr>)
      | None \<Rightarrow> (True, h\<lparr>bh_last_snapshot_request_at := Some now\<rparr>))"

text \<open>\<^verbatim>\<open>publish_reply\<close>: the reply it publishes, and the state after building its status.\<close>

definition publish_reply :: "bool \<Rightarrow> time \<Rightarrow> string \<Rightarrow> string \<Rightarrow> string
    \<Rightarrow> (snapshot_result \<times> int) option \<Rightarrow> bridge_health \<Rightarrow> health_reply \<times> bridge_health" where
  "publish_reply failing now stamp request_id result snapshot h =
     (let (status, h') = build_status failing now stamp h in
      (case snapshot of
         None \<Rightarrow> \<lparr>hr_type = REPLY_STATUS, hr_request_id = request_id, hr_instance_id = bh_instance_id h',
           hr_result = result, hr_status = status, hr_units = None, hr_scenes = None, hr_failed = None,
           hr_generation = None\<rparr>
       | Some (r, generation) \<Rightarrow> \<lparr>hr_type = REPLY_SNAPSHOT, hr_request_id = request_id,
           hr_instance_id = bh_instance_id h', hr_result = result, hr_status = status,
           hr_units = Some (sn_units r), hr_scenes = Some (sn_scenes r), hr_failed = Some (sn_failed r),
           hr_generation = Some generation\<rparr>,
       h'))"

interpretation reply_gate: window_gate reply_allowed bh_last_reply_at HEALTH_REPLY_MIN_INTERVAL
  by unfold_locales (auto simp: reply_allowed_def split: option.splits if_splits)

interpretation snapshot_gate: window_gate "\<lambda>(_ :: unit). snapshot_request_allowed"
    "\<lambda>h _. bh_last_snapshot_request_at h" SNAPSHOT_REQUEST_MIN_INTERVAL
  by unfold_locales (auto simp: snapshot_request_allowed_def split: option.splits if_splits)

end
