(* ===== verification/Bridge_Statuses.thy ===== *)
theory Bridge_Statuses
  imports Bridge_Health Bridge_Tracker
begin

text \<open>
  Histories of the bridge's health state, and what their statuses mean to Home Assistant: every
  status the bridge publishes is a valid v1 message, the statuses of one process are accepted by the
  consumer's tracker in the order of their publication, whichever of them the broker
  loses, and a status of phase ready is justified by a fully confirmed snapshot.
\<close>

section \<open>Histories\<close>

text \<open>
  What the process does to its health state. \<open>Phase\<close>, \<open>Ble_Link\<close> and \<open>Mqtt_Link\<close> are the assignments of
  \<^verbatim>\<open>main\<close>, the startup stages and the final status; \<open>Status\<close> is \<^verbatim>\<open>publish_status\<close>,
  \<open>Reply\<close> the status built for a reply.
\<close>

datatype health_action =
  Phase string string
| Ble_Link string
| Mqtt_Link string
| Reconnected
| Session
| Snapshot snapshot_result
| Status
| Reply

record health_moment =
  hm_now :: time
  hm_writable :: bool
  hm_failing :: bool
  hm_stamp :: string

definition health_act :: "health_moment \<Rightarrow> health_action \<Rightarrow> bridge_health \<Rightarrow> bridge_status option \<times> bridge_health" where
  "health_act t a h =
     (case a of
        Phase phase error \<Rightarrow> (None, set_phase (hm_writable t) (hm_now t) phase error h)
      | Ble_Link ble \<Rightarrow> (None, h\<lparr>bh_ble := ble\<rparr>)
      | Mqtt_Link mqtt \<Rightarrow> (None, h\<lparr>bh_mqtt := mqtt\<rparr>)
      | Reconnected \<Rightarrow> (None, h\<lparr>bh_mqtt_reconnects := bh_mqtt_reconnects h + 1\<rparr>)
      | Session \<Rightarrow> (None, session_started (hm_writable t) (hm_now t) h)
      | Snapshot r \<Rightarrow> (None, snd (record_snapshot (hm_writable t) (hm_now t) r h))
      | Status \<Rightarrow> (let (status, h') = publish_status (hm_writable t) (hm_failing t) (hm_now t) (hm_stamp t) h in
                   (Some status, h'))
      | Reply \<Rightarrow> (None, snd (build_status (hm_failing t) (hm_now t) (hm_stamp t) h)))"

fun health_history :: "(health_moment \<times> health_action) list \<Rightarrow> bridge_health \<Rightarrow> bridge_status list \<times> bridge_health" where
  "health_history [] h = ([], h)"
| "health_history ((t, a) # as) h =
     (let (status, h') = health_act t a h; (statuses, h'') = health_history as h' in
      (case status of None \<Rightarrow> statuses | Some s \<Rightarrow> s # statuses, h''))"

text \<open>What the process's own calls respect: only a snapshot makes it ready; enums are the protocol's.\<close>

definition result_counts_ok :: "snapshot_result \<Rightarrow> bool" where
  "result_counts_ok r \<longleftrightarrow> counter_ok (sn_units r) \<and> counter_ok (sn_scenes r) \<and> counter_ok (sn_failed r)"

fun action_ok :: "health_action \<Rightarrow> bool" where
  "action_ok (Phase phase error) \<longleftrightarrow> phase \<in> set PHASES \<and> phase \<noteq> PHASE_READY \<and> error \<in> set ERROR_CATEGORIES"
| "action_ok (Ble_Link ble) \<longleftrightarrow> ble \<in> set LINK_STATES"
| "action_ok (Mqtt_Link mqtt) \<longleftrightarrow> mqtt \<in> set LINK_STATES"
| "action_ok (Snapshot r) \<longleftrightarrow> result_counts_ok r"
| "action_ok _ \<longleftrightarrow> True"

definition moment_ok :: "time \<Rightarrow> health_moment \<Rightarrow> bool" where
  "moment_ok start t \<longleftrightarrow> start \<le> hm_now t \<and> hm_now t - start < 2 ^ 53 \<and> length (hm_stamp t) \<le> 40"

section \<open>The invariant\<close>

text \<open>\<open>n\<close> bounds the operations so far, \<open>last_now\<close> is the last clock reading.\<close>

definition health_inv :: "string \<Rightarrow> time \<Rightarrow> nat \<Rightarrow> time \<Rightarrow> bridge_health \<Rightarrow> bool" where
  "health_inv i start n last_now h \<longleftrightarrow>
     bh_instance_id h = i \<and> bh_started h = start
     \<and> 0 \<le> bh_sequence h \<and> bh_sequence h \<le> int n
     \<and> bh_phase h \<in> set PHASES \<and> bh_ble h \<in> set LINK_STATES \<and> bh_mqtt h \<in> set LINK_STATES
     \<and> bh_error h \<in> set ERROR_CATEGORIES
     \<and> 0 \<le> ss_generation (bh_snapshot h) \<and> ss_generation (bh_snapshot h) \<le> int n
     \<and> counter_ok (ss_units (bh_snapshot h)) \<and> counter_ok (ss_scenes (bh_snapshot h))
     \<and> counter_ok (ss_failed (bh_snapshot h))
     \<and> (\<forall>t. bh_snapshot_completed_at h = Some t \<longrightarrow> start \<le> t \<and> t \<le> last_now)
     \<and> (bh_phase h = PHASE_READY \<longrightarrow> bh_error h = ERROR_NONE \<and> bh_ever_ready h \<and> bh_ready_since h \<noteq> None
          \<and> ss_failed (bh_snapshot h) = 0 \<and> bh_snapshot_completed_at h \<noteq> None)
     \<and> (bh_phase h \<noteq> PHASE_READY \<longrightarrow> bh_ready_since h = None)"

lemma enum_members:
  "PHASE_STARTING \<in> set PHASES" "PHASE_READY \<in> set PHASES" "PHASE_DEGRADED \<in> set PHASES"
  "LINK_CONNECTED \<in> set LINK_STATES" "LINK_UNKNOWN \<in> set LINK_STATES"
  "ERROR_NONE \<in> set ERROR_CATEGORIES" "ERROR_SNAPSHOT_PUBLISH_FAILED \<in> set ERROR_CATEGORIES"
  "ERROR_STATE_PUBLISH_FAILED \<in> set ERROR_CATEGORIES"
  by (simp_all add: protocol_sets)

lemma persist_fields [simp]:
  "bh_instance_id (persist w now h) = bh_instance_id h" "bh_started (persist w now h) = bh_started h"
  "bh_sequence (persist w now h) = bh_sequence h" "bh_phase (persist w now h) = bh_phase h"
  "bh_ble (persist w now h) = bh_ble h" "bh_mqtt (persist w now h) = bh_mqtt h"
  "bh_error (persist w now h) = bh_error h" "bh_snapshot (persist w now h) = bh_snapshot h"
  "bh_snapshot_completed_at (persist w now h) = bh_snapshot_completed_at h"
  "bh_ever_ready (persist w now h) = bh_ever_ready h" "bh_ready_since (persist w now h) = bh_ready_since h"
  "bh_mqtt_reconnects (persist w now h) = bh_mqtt_reconnects h"
  by (simp_all add: persist_def split: option.splits)

lemma health_inv_later: "health_inv i start n t h \<Longrightarrow> n \<le> m \<Longrightarrow> t \<le> t' \<Longrightarrow> health_inv i start m t' h"
  by (auto simp: health_inv_def)

lemma health_inv_new: "health_inv i start 0 start (new_health i r start)"
  by (simp add: health_inv_def new_health_def enum_members empty_snapshot_summary_def counter_ok_def)

lemma build_status_state [simp]: "snd (build_status failing now stamp h) = h\<lparr>bh_sequence := bh_sequence h + 1\<rparr>"
  by (simp add: build_status_def Let_def split: prod.splits)

lemma health_inv_sequence: "health_inv i start n t h \<Longrightarrow> health_inv i start (Suc n) t (h\<lparr>bh_sequence := bh_sequence h + 1\<rparr>)"
  by (simp add: health_inv_def)

lemma health_inv_persist [simp]: "health_inv i start n t (persist w now h) \<longleftrightarrow> health_inv i start n t h"
  by (simp add: health_inv_def)

lemma health_act_simps:
  "health_act t Status h = (Some (fst (build_status (hm_failing t) (hm_now t) (hm_stamp t) (persist (hm_writable t) (hm_now t) h))),
     (persist (hm_writable t) (hm_now t) h)\<lparr>bh_sequence := bh_sequence h + 1\<rparr>)"
  "health_act t Reply h = (None, h\<lparr>bh_sequence := bh_sequence h + 1\<rparr>)"
  by (simp_all add: health_act_def publish_status_def prod.case_eq_if)

lemma health_inv_act:
  assumes "health_inv i start n (hm_now t) h" "action_ok a" "moment_ok start t"
  shows "health_inv i start (Suc n) (hm_now t) (snd (health_act t a h))"
proof (cases a)
  case (Phase phase error)
  with assms show ?thesis by (auto simp: health_act_def set_phase_def health_inv_def)
next
  case (Ble_Link ble)
  with assms show ?thesis by (auto simp: health_act_def health_inv_def)
next
  case (Mqtt_Link mqtt)
  with assms show ?thesis by (auto simp: health_act_def health_inv_def)
next
  case Reconnected
  with assms show ?thesis by (auto simp: health_act_def health_inv_def)
next
  case Session
  with assms show ?thesis
    by (simp add: health_act_def session_started_def set_phase_def health_inv_def enum_members)
next
  case (Snapshot r)
  with assms show ?thesis
    by (cases "snapshot_result_ok r")
      (simp_all add: health_act_def record_snapshot_def set_phase_def health_inv_def enum_members Let_def
        snapshot_result_ok_def result_counts_ok_def moment_ok_def)
next
  case Status
  with assms(1) show ?thesis
    using health_inv_sequence[of i start n "hm_now t" "persist (hm_writable t) (hm_now t) h"]
    by (simp add: health_act_simps)
next
  case Reply
  with assms show ?thesis by (simp add: health_act_def health_inv_sequence)
qed

section \<open>Statuses are valid and ordered\<close>

lemma build_status_ok:
  assumes "health_inv i start n now h" "instance_id_ok i" "int n < MAX_COUNTER"
    and "start \<le> now" "now - start < 2 ^ 53" "length stamp \<le> 40"
  shows "status_ok (fst (build_status failing now stamp h))"
proof -
  have uptime: "counter_ok (py_trunc (now - start))"
    using assms(4,5) py_trunc_nonneg[of "now - start"] py_trunc_lt[of "now - start" "2 ^ 53"]
    by (simp add: counter_ok_def)
  have age: "counter_ok (py_trunc (now - t))" if "bh_snapshot_completed_at h = Some t" for t
  proof -
    from that assms(1) have "start \<le> t" "t \<le> now" by (simp_all add: health_inv_def)
    with assms(5) show ?thesis
      using py_trunc_nonneg[of "now - t"] py_trunc_lt[of "now - t" "2 ^ 53"] by (simp add: counter_ok_def)
  qed
  show ?thesis
    using assms uptime age
    by (auto simp: enum_members build_status_def effective_phase_def status_ok_def snapshot_ok_def health_inv_def
        counter_ok_def Let_def split: option.splits)
qed

lemma build_status_fields:
  "bs_instance_id (fst (build_status failing now stamp h)) = bh_instance_id h"
  "bs_sequence (fst (build_status failing now stamp h)) = Some (bh_sequence h + 1)"
  "bs_phase (fst (build_status failing now stamp h)) = fst (effective_phase failing h)"
  by (simp_all add: build_status_def effective_phase_def Let_def)

lemma health_act_status:
  assumes "health_inv i start n (hm_now t) h" "moment_ok start t" "instance_id_ok i" "int n < MAX_COUNTER"
    and "health_act t a h = (Some s, h')"
  shows "a = Status \<and> status_ok s \<and> bs_instance_id s = i \<and> bs_sequence s = Some (bh_sequence h + 1)
    \<and> bs_phase s = fst (effective_phase (hm_failing t) h) \<and> bh_sequence h' = bh_sequence h + 1"
proof -
  let ?h = "persist (hm_writable t) (hm_now t) h"
  from assms(5) have a: "a = Status"
    by (auto simp: health_act_def split: health_action.splits)
  with assms(5) have s: "s = fst (build_status (hm_failing t) (hm_now t) (hm_stamp t) ?h)"
    and h': "bh_sequence h' = bh_sequence h + 1"
    by (auto simp: health_act_simps)
  moreover have "status_ok s"
    unfolding s by (rule build_status_ok[of i start n]) (use assms in \<open>auto simp: moment_ok_def\<close>)
  moreover have "bh_instance_id h = i" using assms(1) by (simp add: health_inv_def)
  ultimately show ?thesis using a by (simp add: build_status_fields effective_phase_def)
qed

lemma health_act_sequence: "bh_sequence h \<le> bh_sequence (snd (health_act t a h))"
  by (cases a) (simp_all add: health_act_simps, simp_all add: health_act_def set_phase_def session_started_def
      record_snapshot_def Let_def)

text \<open>The actions of a history, and the clock within it.\<close>

definition history_ok :: "time \<Rightarrow> (health_moment \<times> health_action) list \<Rightarrow> bool" where
  "history_ok start as \<longleftrightarrow> list_all (\<lambda>(t, a). moment_ok start t \<and> action_ok a) as
     \<and> sorted (map (hm_now \<circ> fst) as) \<and> int (length as) < MAX_COUNTER"

text \<open>Statuses of one process: valid, of its instance, with growing sequences above \<open>m\<close>.\<close>

definition ordered_statuses :: "string \<Rightarrow> int \<Rightarrow> bridge_status list \<Rightarrow> bool" where
  "ordered_statuses i m ss \<longleftrightarrow> list_all (\<lambda>s. status_ok s \<and> bs_instance_id s = i \<and> bs_sequence s \<noteq> None) ss
     \<and> sorted_wrt (<) (m # map (the \<circ> bs_sequence) ss)"

lemma health_history_ordered:
  assumes "health_inv i start n last_now h" "instance_id_ok i"
    and "list_all (\<lambda>(t, a). moment_ok start t \<and> action_ok a) as" "sorted (last_now # map (hm_now \<circ> fst) as)"
    and "int (n + length as) < MAX_COUNTER"
  shows "ordered_statuses i (bh_sequence h) (fst (health_history as h))"
  using assms
proof (induction as arbitrary: n last_now h)
  case Nil
  then show ?case by (simp add: ordered_statuses_def)
next
  case (Cons x as)
  obtain t a where x: "x = (t, a)" by force
  obtain status h' where act: "health_act t a h = (status, h')" by force
  have ok: "moment_ok start t" "action_ok a" "last_now \<le> hm_now t" using Cons.prems x by auto
  have inv: "health_inv i start n (hm_now t) h" using Cons.prems(1) ok(3) by (auto intro: health_inv_later)
  from health_inv_act[OF inv ok(2,1)] act have "health_inv i start (Suc n) (hm_now t) h'" by simp
  from Cons.IH[OF this] Cons.prems x
  have IH: "ordered_statuses i (bh_sequence h') (fst (health_history as h'))" by simp
  show ?case
  proof (cases status)
    case None
    with act health_act_sequence[of h t a] IH x show ?thesis
      by (fastforce simp: ordered_statuses_def split: prod.splits)
  next
    case (Some s)
    with health_act_status[OF inv ok(1) Cons.prems(2), of a s h'] act Cons.prems(5)
    have s: "status_ok s" "bs_instance_id s = i" "bs_sequence s = Some (bh_sequence h + 1)"
      "bh_sequence h' = bh_sequence h + 1" by auto
    with IH act Some x show ?thesis
      by (fastforce simp: ordered_statuses_def split: prod.splits)
  qed
qed

lemma ordered_subseq: "subseq us ss \<Longrightarrow> ordered_statuses i m ss \<Longrightarrow> ordered_statuses i m us"
proof -
  assume sub: "subseq us ss" and ord: "ordered_statuses i m ss"
  from sub have "subseq (m # map (the \<circ> bs_sequence) us) (m # map (the \<circ> bs_sequence) ss)"
    by (simp add: subseq_map)
  with ord have "sorted_wrt (<) (m # map (the \<circ> bs_sequence) us)"
    unfolding ordered_statuses_def by (blast intro: sorted_wrt_subseq)
  moreover have "set us \<subseteq> set ss" using sub by (rule set_subseq)
  ultimately show ?thesis using ord by (auto simp: ordered_statuses_def list_all_iff)
qed

section \<open>Home Assistant accepts them\<close>

definition delivered_as :: "bridge_status list \<Rightarrow> time list \<Rightarrow> (payload \<times> bool \<times> time) list" where
  "delivered_as ss rcvs = map (\<lambda>(s, rcv). (Some (status_dict s), False, rcv)) (zip ss rcvs)"

lemma on_message_ordered:
  assumes "status_ok s" "bs_instance_id s = i" "bs_sequence s = Some n" "i \<notin> set (tr_retired t)"
    and "\<And>k. tracker_instance_id t = Some i \<Longrightarrow> tr_max_sequence t = Some k \<Longrightarrow> k < n"
  shows "\<exists>t'. on_message (Some (status_dict s)) False rcv t = (True, t') \<and> tr_status t' = Some s
    \<and> tr_received_at t' = Some rcv \<and> tr_max_sequence t' = Some n \<and> i \<notin> set (tr_retired t')
    \<and> tr_settings t' = tr_settings t"
proof -
  have version: "protocol_version_of (Some (status_dict s)) = Some PROTOCOL_VERSION"
    using assms(1) by (simp add: protocol_version_of_status status_ok_def counter_ok_def)
  show ?thesis
  proof (cases "tracker_instance_id t = Some i")
    case True
    with assms(5) have "\<not> not_increasing (Some n) (tr_max_sequence t)"
      by (cases "tr_max_sequence t") (auto simp: not_le)
    with True assms version show ?thesis
      by (simp add: on_message_def parse_status_enc accept_status_def)
  next
    case False
    then have "i \<notin> set (tr_retired (retire_current t))"
      using assms(4) set_last_n[of RETIRED_INSTANCE_MEMORY "tr_retired t @ [bs_instance_id s']" for s']
      by (auto simp: retire_current_def tracker_instance_id_def split: option.splits)
    with False assms version show ?thesis
      by (simp add: on_message_def parse_status_enc accept_status_def) (simp add: retire_current_def)
  qed
qed

lemma track_ordered:
  assumes "ordered_statuses i m ss" "length rcvs = length ss" "i \<notin> set (tr_retired t)"
    and "tracker_instance_id t = Some i \<longrightarrow> tr_max_sequence t = Some m"
  shows "fst (track (delivered_as ss rcvs) t) = zip ss rcvs"
  using assms
proof (induction ss arbitrary: m rcvs t)
  case Nil
  then show ?case by (simp add: delivered_as_def)
next
  case (Cons s ss)
  obtain rcv rcvs' where rcvs: "rcvs = rcv # rcvs'" using Cons.prems(2) by (cases rcvs) auto
  from Cons.prems(1) obtain n where n: "bs_sequence s = Some n" "m < n" "status_ok s" "bs_instance_id s = i"
    and rest: "ordered_statuses i n ss" by (auto simp: ordered_statuses_def)
  with on_message_ordered[of s i n t rcv] Cons.prems(3,4) obtain t' where
    t': "on_message (Some (status_dict s)) False rcv t = (True, t')" "tr_status t' = Some s"
      "tr_max_sequence t' = Some n" "i \<notin> set (tr_retired t')" by auto
  from Cons.IH[OF rest _ t'(4), of rcvs'] t' rcvs Cons.prems(2)
  have "fst (track (delivered_as ss rcvs') t') = zip ss rcvs'" by simp
  with t' rcvs n show ?case
    by (auto simp: delivered_as_def parse_status_enc split: prod.splits)
qed

section \<open>Properties\<close>

text \<open>
  C6: the statuses of one bridge process, across any sequence of phases, sessions, snapshots and
  requests, are valid v1 messages with growing sequences: a consumer's tracker that has not retired the
  instance accepts every one it receives, in order, even when the broker loses some, and is then healthy
  exactly as long as the last one received says ready and is fresh.
\<close>

theorem published_statuses_accepted:
  assumes "instance_id_ok i" "history_ok start as"
    and "subseq delivered (fst (health_history as (new_health i r start)))" "length rcvs = length delivered"
    and "i \<notin> set (tr_retired t)" "tracker_instance_id t \<noteq> Some i"
  shows "fst (track (delivered_as delivered rcvs) t) = zip delivered rcvs
    \<and> (delivered \<noteq> [] \<longrightarrow> (evaluate now (snd (track (delivered_as delivered rcvs) t)) = HEALTHY
         \<longleftrightarrow> bs_phase (last delivered) = PHASE_READY \<and> now - last rcvs \<le> of_int (stale_seconds (tr_settings t))))"
proof -
  have "health_inv i start 0 start (new_health i r start)" by (rule health_inv_new)
  moreover from assms(2) have "sorted (start # map (hm_now \<circ> fst) as)"
    by (auto simp: history_ok_def list_all_iff moment_ok_def)
  ultimately have "ordered_statuses i 0 (fst (health_history as (new_health i r start)))"
    using health_history_ordered[of i start 0 start "new_health i r start" as] assms(1,2)
    by (simp add: history_ok_def new_health_def)
  from track_ordered[OF ordered_subseq[OF assms(3) this] assms(4,5)] assms(6)
  have accepted: "fst (track (delivered_as delivered rcvs) t) = zip delivered rcvs" by simp
  moreover have "evaluate now (snd (track (delivered_as delivered rcvs) t)) = HEALTHY
      \<longleftrightarrow> bs_phase (last delivered) = PHASE_READY \<and> now - last rcvs \<le> of_int (stale_seconds (tr_settings t))"
    if "delivered \<noteq> []"
  proof -
    from that assms(4) have ne: "zip delivered rcvs \<noteq> []" by (cases delivered; cases rcvs) auto
    with that assms(4) have "last (zip delivered rcvs) = (last delivered, last rcvs)" by (metis last_zip length_0_conv)
    with track_last(1)[of "delivered_as delivered rcvs" t] accepted ne
      track_constant[of "delivered_as delivered rcvs" t]
    show ?thesis by (auto simp: evaluate_def)
  qed
  ultimately show ?thesis by blast
qed

text \<open>A session, its snapshot of two units, and the status after it, one second later.\<close>

definition sample_moment :: "time \<Rightarrow> health_moment" where
  "sample_moment now = \<lparr>hm_now = now, hm_writable = True, hm_failing = False, hm_stamp = ''2026-01-01T00:00:00Z''\<rparr>"

definition sample_history :: "(health_moment \<times> health_action) list" where
  "sample_history = [(sample_moment 1, Session), (sample_moment 2, Status),
     (sample_moment 3, Snapshot \<lparr>sn_units = 2, sn_scenes = 0, sn_failed = 0\<rparr>), (sample_moment 4, Status)]"

abbreviation "sample_instance \<equiv> replicate 32 (CHR ''a'')"

lemma sample_history_ok: "history_ok 0 sample_history" "instance_id_ok sample_instance"
  by (simp_all add: history_ok_def sample_history_def sample_moment_def moment_ok_def result_counts_ok_def counter_ok_def
      instance_id_ok_def full_match_def list_all_replicate)

lemma sample_statuses: "map bs_phase (fst (health_history sample_history (new_health sample_instance None 0))) =
    [PHASE_STARTING, PHASE_READY]"
  by (simp add: sample_history_def health_act_simps)
    (simp add: health_act_def session_started_def record_snapshot_def set_phase_def sample_moment_def
      snapshot_result_ok_def Let_def build_status_fields effective_phase_def)

theorem published_statuses_accepted_witness:
  "evaluate 60 (snd (track (delivered_as (fst (health_history sample_history (new_health sample_instance None 0))) [5, 6])
     (new_tracker default_settings 0))) = HEALTHY"
proof -
  let ?ss = "fst (health_history sample_history (new_health sample_instance None 0))"
  have "length ?ss = length [5, 6 :: time]" using arg_cong[OF sample_statuses, of length] by simp
  then obtain s1 s2 where ss: "?ss = [s1, s2]" by (auto simp: length_Suc_conv)
  have "stale_seconds default_settings \<ge> 54"
    by (simp add: default_settings_def from_options_def option_value_def SETTING_RANGES_def)
  with published_statuses_accepted[of sample_instance 0 sample_history ?ss None "[5, 6]"
      "new_tracker default_settings 0" 60] sample_history_ok sample_statuses ss
  show ?thesis by (simp add: new_tracker_def tracker_instance_id_def)
qed

section \<open>What ready means\<close>

text \<open>Actions that leave phase and snapshot alone.\<close>

fun quiet_action :: "health_action \<Rightarrow> bool" where
  "quiet_action (Phase _ _) = False"
| "quiet_action Session = False"
| "quiet_action (Snapshot _) = False"
| "quiet_action _ = True"

lemma quiet_action_phase: "quiet_action a \<Longrightarrow> bh_phase (snd (health_act t a h)) = bh_phase h"
  by (cases a) (simp_all add: health_act_simps, simp_all add: health_act_def)

lemma loud_action_ready: "\<not> quiet_action a \<Longrightarrow> action_ok a \<Longrightarrow> bh_phase (snd (health_act t a h)) = PHASE_READY \<Longrightarrow>
    \<exists>r. a = Snapshot r \<and> sn_failed r = 0"
  by (cases a) (auto simp: health_act_def set_phase_def session_started_def record_snapshot_def
      snapshot_result_ok_def Let_def split: if_splits)

lemma health_history_state: "snd (health_history (x # as) h) = snd (health_history as (snd (health_act (fst x) (snd x) h)))"
  by (cases x) (simp add: prod.case_eq_if)

lemma health_history_append: "snd (health_history (as @ bs) h) = snd (health_history bs (snd (health_history as h)))"
proof (induction as arbitrary: h)
  case (Cons x as)
  then show ?case by (simp only: append_Cons health_history_state)
qed simp

lemma ready_after_snapshot:
  assumes "bh_phase (snd (health_history as h)) = PHASE_READY" "bh_phase h \<noteq> PHASE_READY"
    and "list_all (action_ok \<circ> snd) as"
  shows "\<exists>before t r between. as = before @ (t, Snapshot r) # between \<and> sn_failed r = 0
    \<and> list_all (quiet_action \<circ> snd) between"
  using assms
proof (induction as rule: rev_induct)
  case (snoc x as)
  obtain t a where x: "x = (t, a)" by force
  have step: "snd (health_history (as @ [x]) h) = snd (health_act t a (snd (health_history as h)))"
    by (simp add: health_history_append x split: prod.splits)
  show ?case
  proof (cases "quiet_action a")
    case True
    with snoc.prems step have "bh_phase (snd (health_history as h)) = PHASE_READY" by (simp add: quiet_action_phase)
    moreover have "list_all (action_ok \<circ> snd) as" using snoc.prems(3) by (simp add: comp_def)
    ultimately obtain before t' r between where
      "as = before @ (t', Snapshot r) # between" "sn_failed r = 0" "list_all (quiet_action \<circ> snd) between"
      using snoc.IH snoc.prems(2) by blast
    with True x show ?thesis by (metis append_Cons append_assoc comp_apply list_all_append list.pred_inject snd_conv)
  next
    case False
    with snoc.prems step loud_action_ready[of a t "snd (health_history as h)"] x obtain r where
      "a = Snapshot r" "sn_failed r = 0" by auto
    with x show ?thesis by (intro exI[of _ as] exI[of _ t] exI[of _ r] exI[of _ "[]"]) simp
  qed
qed simp

lemma history_status:
  assumes "s \<in> set (fst (health_history as h))"
  shows "\<exists>before t after. as = before @ (t, Status) # after
    \<and> bs_phase s = fst (effective_phase (hm_failing t) (snd (health_history before h)))"
  using assms
proof (induction as arbitrary: h)
  case (Cons x as)
  obtain t a where x: "x = (t, a)" by force
  obtain status h' where act: "health_act t a h = (status, h')" by force
  show ?case
  proof (cases "s \<in> set (fst (health_history as h'))")
    case True
    from Cons.IH[OF True] obtain before t' after where
      "as = before @ (t', Status) # after"
      "bs_phase s = fst (effective_phase (hm_failing t') (snd (health_history before h')))" by blast
    with x act show ?thesis
      by (intro exI[of _ "x # before"] exI[of _ t'] exI[of _ after]) (auto split: prod.splits)
  next
    case False
    with Cons.prems x act have "status = Some s" by (auto split: prod.splits option.splits)
    with act have "a = Status" "s = fst (build_status (hm_failing t) (hm_now t) (hm_stamp t) (persist (hm_writable t) (hm_now t) h))"
      by (auto simp: health_act_def publish_status_def prod.case_eq_if split: health_action.splits)
    with x show ?thesis
      by (intro exI[of _ "[]"] exI[of _ t] exI[of _ as]) (simp add: build_status_fields effective_phase_def)
  qed
qed simp

text \<open>
  C7: a status says ready only with evidence: before it the process recorded a snapshot without a single failed
  publish, since then no session began, no other snapshot was recorded and no phase was set, and
  the live unit publisher was not failing when the status was built.
\<close>

theorem ready_status_is_justified:
  assumes "s \<in> set (fst (health_history as (new_health i r start)))" "bs_phase s = PHASE_READY"
    and "list_all (action_ok \<circ> snd) as"
  shows "\<exists>before t result between t' after. as = before @ (t, Snapshot result) # between @ (t', Status) # after
    \<and> sn_failed result = 0 \<and> list_all (quiet_action \<circ> snd) between \<and> \<not> hm_failing t'"
proof -
  from history_status[OF assms(1)] obtain pre t' after where
    as: "as = pre @ (t', Status) # after"
    and phase: "bs_phase s = fst (effective_phase (hm_failing t') (snd (health_history pre (new_health i r start))))"
    by blast
  with assms(2) have "bh_phase (snd (health_history pre (new_health i r start))) = PHASE_READY" "\<not> hm_failing t'"
    by (auto simp: effective_phase_def split: if_splits)
  with ready_after_snapshot[of pre "new_health i r start"] assms(3) as show ?thesis
    by (fastforce simp: new_health_def)
qed

theorem ready_status_is_justified_witness:
  "\<exists>before t result between t' after. sample_history = before @ (t, Snapshot result) # between @ (t', Status) # after
     \<and> sn_failed result = 0 \<and> \<not> hm_failing t'"
proof -
  let ?ss = "fst (health_history sample_history (new_health sample_instance None 0))"
  have "PHASE_READY \<in> set (map bs_phase ?ss)" unfolding sample_statuses by simp
  then obtain s where "s \<in> set ?ss" "bs_phase s = PHASE_READY" by auto
  moreover have "list_all (action_ok \<circ> snd) sample_history"
    by (simp add: sample_history_def result_counts_ok_def counter_ok_def)
  ultimately show ?thesis using ready_status_is_justified by blast
qed

end
