(* ===== verification/Bridge_Record.thy ===== *)
theory Bridge_Record
  imports Bridge_Statuses Supervisor_Decide
begin

text \<open>
  The local health record between its two programs: what \<^verbatim>\<open>HealthRecord.write\<close> of the bridge leaves
  in the file is what \<^verbatim>\<open>parse_record\<close> of the supervisor reads, although each has its own copy of
  the vocabularies.
\<close>

lemma same_vocabularies: "SUPERVISOR_PHASES = PHASES" "SUPERVISOR_ERRORS = ERROR_CATEGORIES" "SUPERVISOR_LINKS = LINK_STATES"
  by (simp_all add: SUPERVISOR_PHASES_def SUPERVISOR_ERRORS_def SUPERVISOR_LINKS_def protocol_sets)

text \<open>A writer the supervisor can identify.\<close>

definition writer_ok :: "local_record \<Rightarrow> bool" where
  "writer_ok r \<longleftrightarrow> 1 \<le> lr_pid r \<and> (\<exists>n. lr_start_ticks r = Some n \<and> 0 \<le> n)
     \<and> (\<exists>b. lr_boot_id r = Some b \<and> boot_id_ok b)"

text \<open>The supervisor's view of a health state written at \<open>now\<close>.\<close>

definition view_of :: "local_record \<Rightarrow> (int \<Rightarrow> int option) \<Rightarrow> time \<Rightarrow> bridge_health \<Rightarrow> record_view" where
  "view_of r start_ticks_of now h =
     \<lparr>rv_instance_id = bh_instance_id h, rv_pid = lr_pid r, rv_phase = bh_phase h, rv_error = bh_error h,
      rv_ever_ready = bh_ever_ready h, rv_ready_since = bh_ready_since h, rv_updated = now,
      rv_alive = (start_ticks_of (lr_pid r) = lr_start_ticks r), rv_mqtt_reconnects = bh_mqtt_reconnects h\<rparr>"

lemma json_of_opt_time_simps [simp]:
  "json_of_opt_time None = JNull" "json_of_opt_time (Some t) = JFloat t"
  by (simp_all add: json_of_opt_time_def)

text \<open>The part of the invariant the record needs.\<close>

definition recordable :: "time \<Rightarrow> bridge_health \<Rightarrow> bool" where
  "recordable now h \<longleftrightarrow> instance_id_ok (bh_instance_id h) \<and> bh_phase h \<in> set PHASES \<and> bh_error h \<in> set ERROR_CATEGORIES
     \<and> bh_ble h \<in> set LINK_STATES \<and> bh_mqtt h \<in> set LINK_STATES \<and> 0 \<le> bh_mqtt_reconnects h \<and> 0 \<le> now
     \<and> (\<forall>t. bh_ready_since h = Some t \<longrightarrow> 0 \<le> t)"

lemma parse_written_record:
  assumes "recordable now h" "writer_ok r" "nbytes \<le> MAX_RECORD_BYTES"
  shows "parse_record nbytes (Value (health_record_json now h r)) (lr_boot_id r) start_ticks_of
    = Inr (Some (view_of r start_ticks_of now h))"
proof -
  obtain n b where r: "lr_start_ticks r = Some n" "0 \<le> n" "lr_boot_id r = Some b" "boot_id_ok b" "1 \<le> lr_pid r"
    using assms(2) by (auto simp: writer_ok_def)
  then show ?thesis
    using assms(1,3)
    by (cases "bh_ready_since h")
      (auto simp: parse_record_def health_record_json_def record_rejected_def recordable_def same_vocabularies not_in_def
        is_int_from_def is_number_def view_of_def json_of_opt_int_def json_of_opt_str_def number_of_def)
qed

section \<open>The file over a history\<close>

text \<open>The actions that write the record when the file system lets them.\<close>

fun persists :: "health_action \<Rightarrow> bool" where
  "persists (Ble_Link _) = False"
| "persists (Mqtt_Link _) = False"
| "persists Reconnected = False"
| "persists Reply = False"
| "persists _ = True"

definition writes :: "health_moment \<times> health_action \<Rightarrow> bool" where
  "writes x \<longleftrightarrow> hm_writable (fst x) \<and> persists (snd x)"

definition same_writer :: "local_record \<Rightarrow> local_record \<Rightarrow> bool" where
  "same_writer r r' \<longleftrightarrow> lr_pid r' = lr_pid r \<and> lr_start_ticks r' = lr_start_ticks r \<and> lr_boot_id r' = lr_boot_id r"

lemma record_json_same:
  assumes "same_writer r r'"
    and "bh_instance_id h' = bh_instance_id h \<and> bh_phase h' = bh_phase h \<and> bh_error h' = bh_error h
      \<and> bh_ble h' = bh_ble h \<and> bh_mqtt h' = bh_mqtt h \<and> bh_ever_ready h' = bh_ever_ready h
      \<and> bh_mqtt_reconnects h' = bh_mqtt_reconnects h \<and> bh_ready_since h' = bh_ready_since h"
  shows "health_record_json now h' r' = health_record_json now h r"
  using assms by (simp add: health_record_json_def same_writer_def)

lemma persist_record:
  assumes "bh_record h = Some r"
  shows "bh_record (persist writable now h) = Some (write_record writable now h r)"
  using assms by (simp add: persist_def)

lemma set_phase_record:
  assumes "bh_record h = Some r"
  shows "\<exists>r'. bh_record (set_phase writable now phase error h) = Some r' \<and> same_writer r r'
    \<and> lr_file r' = (if writable then Some (health_record_json now (set_phase writable now phase error h) r) else lr_file r)"
  using assms
  by (auto simp: set_phase_def persist_def write_record_def same_writer_def intro!: record_json_same)

lemma phase_action_record:
  assumes "snd (health_act t a h) = set_phase (hm_writable t) (hm_now t) phase error h'" "bh_record h' = Some r" "persists a"
  shows "\<exists>r'. bh_record (snd (health_act t a h)) = Some r' \<and> same_writer r r'
    \<and> lr_file r' = (if writes (t, a) then Some (health_record_json (hm_now t) (snd (health_act t a h)) r) else lr_file r)"
  using set_phase_record[OF assms(2), of "hm_writable t" "hm_now t" phase error] assms(3)
  unfolding assms(1)[symmetric] by (simp only: writes_def fst_conv snd_conv simp_thms)

lemma health_act_record:
  assumes "bh_record h = Some r"
  shows "\<exists>r'. bh_record (snd (health_act t a h)) = Some r' \<and> same_writer r r'
    \<and> lr_file r' = (if writes (t, a) then Some (health_record_json (hm_now t) (snd (health_act t a h)) r) else lr_file r)"
proof (cases a)
  case (Phase phase error)
  then show ?thesis using assms by (intro phase_action_record) (simp_all add: health_act_def)
next
  case Session
  then show ?thesis using assms
    by (intro phase_action_record[where h' = "h\<lparr>bh_ble := LINK_CONNECTED, bh_mqtt := LINK_CONNECTED\<rparr>"])
      (simp_all add: health_act_def session_started_def)
next
  case (Snapshot result)
  let ?p = "if snapshot_result_ok result then PHASE_READY else PHASE_DEGRADED"
  let ?e = "if snapshot_result_ok result then ERROR_NONE else ERROR_SNAPSHOT_PUBLISH_FAILED"
  let ?h = "h\<lparr>bh_snapshot := \<lparr>ss_generation = ss_generation (bh_snapshot h) + 1, ss_units = sn_units result,
      ss_scenes = sn_scenes result, ss_failed = sn_failed result, ss_age_s = None\<rparr>,
    bh_snapshot_completed_at := Some (hm_now t)\<rparr>"
  have "snd (health_act t a h) = set_phase (hm_writable t) (hm_now t) ?p ?e ?h"
    using Snapshot by (simp add: health_act_def record_snapshot_def Let_def)
  then show ?thesis by (rule phase_action_record) (simp_all add: assms Snapshot)
next
  case Status
  with assms show ?thesis
    by (auto simp: health_act_simps persist_def write_record_def same_writer_def writes_def intro!: record_json_same)
qed (use assms in \<open>auto simp: health_act_def writes_def same_writer_def\<close>)

text \<open>The file holds the state right after the last write, if there was one.\<close>

definition file_shows :: "bridge_health \<Rightarrow> local_record \<Rightarrow> (health_moment \<times> health_action) list \<Rightarrow> json option \<Rightarrow> bool" where
  "file_shows h0 r as file \<longleftrightarrow>
     (case file of
        None \<Rightarrow> list_all (\<lambda>x. \<not> writes x) as
      | Some v \<Rightarrow> \<exists>before x after. as = before @ x # after \<and> writes x \<and> list_all (\<lambda>x. \<not> writes x) after
          \<and> v = health_record_json (hm_now (fst x)) (snd (health_history (before @ [x]) h0)) r)"

lemma health_history_file:
  assumes "bh_record h0 = Some r" "lr_file r = None"
  shows "\<exists>r'. bh_record (snd (health_history as h0)) = Some r' \<and> same_writer r r' \<and> file_shows h0 r as (lr_file r')"
proof (induction as rule: rev_induct)
  case Nil
  with assms show ?case by (simp add: file_shows_def same_writer_def)
next
  case (snoc x as)
  then obtain r1 where r1: "bh_record (snd (health_history as h0)) = Some r1" "same_writer r r1"
    "file_shows h0 r as (lr_file r1)" by blast
  have step: "snd (health_history (as @ [x]) h0) = snd (health_act (fst x) (snd x) (snd (health_history as h0)))"
    unfolding health_history_append by (cases x) (simp split: prod.splits)
  from health_act_record[OF r1(1), of "fst x" "snd x"] obtain r2 where r2:
    "bh_record (snd (health_history (as @ [x]) h0)) = Some r2" "same_writer r1 r2"
    "lr_file r2 = (if writes x then Some (health_record_json (hm_now (fst x)) (snd (health_history (as @ [x]) h0)) r1)
       else lr_file r1)" unfolding step by auto
  have json: "health_record_json now h r1 = health_record_json now h r" for now h
    using r1(2) by (intro record_json_same) auto
  have "file_shows h0 r (as @ [x]) (lr_file r2)"
  proof (cases "writes x")
    case True
    with r2(3) json have written: "lr_file r2 = Some (health_record_json (hm_now (fst x)) (snd (health_history (as @ [x]) h0)) r)"
      by simp
    show ?thesis unfolding file_shows_def written option.case
      by (rule exI[of _ as], rule exI[of _ x], rule exI[of _ "[]"]) (simp add: True)
  next
    case False
    show ?thesis
    proof (cases "lr_file r1")
      case None
      with False r1(3) r2(3) show ?thesis by (simp add: file_shows_def)
    next
      case (Some v)
      with r1(3) obtain before y after where "as = before @ y # after" "writes y" "list_all (\<lambda>x. \<not> writes x) after"
        "v = health_record_json (hm_now (fst y)) (snd (health_history (before @ [y]) h0)) r"
        by (auto simp: file_shows_def)
      moreover from False Some r2(3) have written: "lr_file r2 = Some v" by simp
      ultimately show ?thesis unfolding file_shows_def written option.case using False
        by (intro exI[of _ before], intro exI[of _ y], intro exI[of _ "after @ [x]"], simp)
    qed
  qed
  with r1(2) r2(1,2) show ?case by (auto simp: same_writer_def)
qed

lemma health_act_kept:
  "bh_mqtt_reconnects h \<le> bh_mqtt_reconnects (snd (health_act t a h))"
  "bh_ready_since (snd (health_act t a h)) \<in> {bh_ready_since h, None, Some (hm_now t)}"
  by (cases a; simp add: health_act_simps; simp add: health_act_def set_phase_def session_started_def
      record_snapshot_def Let_def)+

lemma health_history_recordable:
  assumes "health_inv i start n last_now h" "0 \<le> bh_mqtt_reconnects h" "\<forall>t. bh_ready_since h = Some t \<longrightarrow> 0 \<le> t" "0 \<le> start"
    and "list_all (\<lambda>(t, a). moment_ok start t \<and> action_ok a) as" "sorted (last_now # map (hm_now \<circ> fst) as)"
    and "instance_id_ok i"
  shows "health_inv i start (n + length as) (last (last_now # map (hm_now \<circ> fst) as)) (snd (health_history as h))
    \<and> 0 \<le> bh_mqtt_reconnects (snd (health_history as h))
    \<and> (\<forall>t. bh_ready_since (snd (health_history as h)) = Some t \<longrightarrow> 0 \<le> t)"
  using assms
proof (induction as arbitrary: n last_now h)
  case (Cons x as)
  obtain t a where x: "x = (t, a)" by force
  have ok: "moment_ok start t" "action_ok a" "last_now \<le> hm_now t" using Cons.prems x by auto
  let ?h = "snd (health_act t a h)"
  have "health_inv i start (Suc n) (hm_now t) ?h"
    using Cons.prems(1) ok by (intro health_inv_act) (auto intro: health_inv_later)
  moreover have "0 \<le> bh_mqtt_reconnects ?h" "\<forall>t. bh_ready_since ?h = Some t \<longrightarrow> 0 \<le> t"
    using Cons.prems(2-4) ok(1) health_act_kept(1)[of h t a] health_act_kept(2)[where h = h and t = t and a = a] by (auto simp: moment_ok_def)
  moreover have "list_all (\<lambda>(t, a). moment_ok start t \<and> action_ok a) as" "sorted (hm_now t # map (hm_now \<circ> fst) as)"
    using Cons.prems(5,6) x by (simp_all add: comp_def)
  ultimately have "health_inv i start (Suc n + length as) (last (hm_now t # map (hm_now \<circ> fst) as)) (snd (health_history as ?h))
    \<and> 0 \<le> bh_mqtt_reconnects (snd (health_history as ?h))
    \<and> (\<forall>t. bh_ready_since (snd (health_history as ?h)) = Some t \<longrightarrow> 0 \<le> t)"
    using Cons.IH Cons.prems(4,7) by blast
  then show ?case unfolding health_history_state x fst_conv snd_conv
    by (cases as) (simp_all add: comp_def)
qed simp

section \<open>Property\<close>

text \<open>
  C10: the supervisor reads what the bridge last wrote. Over any history of the health state, with writes
  failing at any time, a record in the file is accepted by the supervisor on the same boot and shows exactly the
  instance, phase, error, links and counters the health state had at the last successful write, at that
  write's time; it counts as alive only if the kernel knows a process with the writer's start time.
\<close>

theorem supervisor_reads_last_write:
  assumes "instance_id_ok i" "history_ok start as" "0 \<le> start" "writer_ok r" "lr_file r = None"
    and "bh_record (snd (health_history as (new_health i (Some r) start))) = Some r'" "lr_file r' = Some v"
    and "nbytes \<le> MAX_RECORD_BYTES"
  shows "\<exists>before x after. as = before @ x # after \<and> writes x \<and> list_all (\<lambda>x. \<not> writes x) after
    \<and> parse_record nbytes (Value v) (lr_boot_id r) start_ticks_of
        = Inr (Some (view_of r start_ticks_of (hm_now (fst x)) (snd (health_history (before @ [x]) (new_health i (Some r) start)))))"
proof -
  let ?h0 = "new_health i (Some r) start"
  have h0: "bh_record ?h0 = Some r" by (simp add: new_health_def)
  from health_history_file[OF h0 assms(5), of as] assms(6,7) have "file_shows ?h0 r as (Some v)" by auto
  then obtain before x after where as: "as = before @ x # after" "writes x" "list_all (\<lambda>x. \<not> writes x) after"
    and v: "v = health_record_json (hm_now (fst x)) (snd (health_history (before @ [x]) ?h0)) r"
    by (auto simp: file_shows_def)
  let ?h = "snd (health_history (before @ [x]) ?h0)"
  have ok: "list_all (\<lambda>(t, a). moment_ok start t \<and> action_ok a) (before @ [x])" "sorted (map (hm_now \<circ> fst) (before @ [x]))"
    using assms(2) as(1) by (auto simp: history_ok_def sorted_append)
  then have "sorted (start # map (hm_now \<circ> fst) (before @ [x]))"
    by (auto simp: list_all_iff moment_ok_def)
  with health_history_recordable[OF health_inv_new[of i start "Some r"], where as = "before @ [x]"] ok assms(1,3)
  have "\<exists>n now. health_inv i start n now ?h" "0 \<le> bh_mqtt_reconnects ?h" "\<forall>t. bh_ready_since ?h = Some t \<longrightarrow> 0 \<le> t"
    by (auto simp: new_health_def)
  moreover have "0 \<le> hm_now (fst x)" using ok(1) assms(3) by (auto simp: moment_ok_def split: prod.splits)
  ultimately have "recordable (hm_now (fst x)) ?h" using assms(1) by (auto simp: recordable_def health_inv_def)
  from parse_written_record[OF this assms(4,8)] as v show ?thesis by blast
qed

definition sample_writer :: local_record where
  "sample_writer = \<lparr>lr_pid = 42, lr_start_ticks = Some 7, lr_boot_id = Some (replicate 36 (CHR ''a'')), lr_failed = False,
     lr_file = None\<rparr>"

theorem supervisor_reads_last_write_witness:
  "\<exists>r' v view. bh_record (snd (health_history sample_history (new_health sample_instance (Some sample_writer) 0))) = Some r'
     \<and> lr_file r' = Some v
     \<and> parse_record 400 (Value v) (lr_boot_id sample_writer) (\<lambda>_. Some 7) = Inr (Some view) \<and> rv_alive view"
proof -
  let ?h0 = "new_health sample_instance (Some sample_writer) 0"
  have h0: "bh_record ?h0 = Some sample_writer" by (simp add: new_health_def)
  have "lr_file sample_writer = None" "writer_ok sample_writer"
    by (simp_all add: sample_writer_def writer_ok_def boot_id_ok_def full_match_def list_all_replicate)
  moreover obtain r' where r': "bh_record (snd (health_history sample_history ?h0)) = Some r'"
    "file_shows ?h0 sample_writer sample_history (lr_file r')"
    using health_history_file[OF h0 \<open>lr_file sample_writer = None\<close>] by blast
  moreover have "\<not> list_all (\<lambda>x. \<not> writes x) sample_history"
    by (simp add: sample_history_def writes_def sample_moment_def)
  ultimately obtain v where "lr_file r' = Some v" by (auto simp: file_shows_def split: option.splits)
  with supervisor_reads_last_write[of sample_instance 0 sample_history sample_writer r' v 400 "\<lambda>_. Some 7"]
    \<open>lr_file sample_writer = None\<close> \<open>writer_ok sample_writer\<close> r'(1) sample_history_ok
  obtain h now where "parse_record 400 (Value v) (lr_boot_id sample_writer) (\<lambda>_. Some 7)
      = Inr (Some (view_of sample_writer (\<lambda>_. Some 7) now h))" by auto
  with r'(1) \<open>lr_file r' = Some v\<close> show ?thesis
    by (simp add: view_of_def sample_writer_def)
qed

end
