(* ===== verification/Bridge_Startup.thy ===== *)
theory Bridge_Startup
  imports Bridge_Statuses Supervisor_Decide
begin

text \<open>
  \<^verbatim>\<open>src/server.py\<close>, the startup of the bridge: classification of BLE errors, back-off, BLE operations
  bounded in time, and the stages of discovery and connection with their retries. A process
  carries its clock, its actions on the health state, whether a stop was requested (SIGTERM) and whether it
  left an operation behind that never ends.
\<close>

section \<open>Errors\<close>

abbreviation "BLUEZ_IN_PROGRESS \<equiv> ''org.bluez.Error.InProgress''"
abbreviation "MAX_EXCEPTION_CHAIN \<equiv> 8 :: nat"

text \<open>
  An exception: the class names of its type, whether it is an instance of TimeoutError or of
  \<^verbatim>\<open>_NetworkNotFoundError\<close>, its attribute \<^verbatim>\<open>dbus_error\<close> (None when missing) and its arguments. An error is the list of
  distinct exceptions reached from it through \<^verbatim>\<open>__cause__ or __context__\<close>, itself first.
\<close>

record exn_node =
  xn_mro :: "string list"
  xn_timeout :: bool
  xn_not_found :: bool
  xn_dbus_error :: json
  xn_args :: "json list"

type_synonym exn = "exn_node list"

definition exception_chain :: "exn \<Rightarrow> exn_node list" where
  "exception_chain e = take MAX_EXCEPTION_CHAIN e"

definition starts_with :: "string \<Rightarrow> string \<Rightarrow> bool" where
  "starts_with p s \<longleftrightarrow> take (length p) s = p"

definition node_code :: "exn_node \<Rightarrow> string option" where
  "node_code n =
     (if is_str (xn_dbus_error n) \<and> starts_with ''org.'' (the_str (xn_dbus_error n)) then Some (the_str (xn_dbus_error n))
      else case xn_args n of
        JStr s # _ \<Rightarrow> if starts_with ''org.bluez.'' s then Some s else None
      | _ \<Rightarrow> None)"

fun first_code :: "exn_node list \<Rightarrow> string option" where
  "first_code [] = None"
| "first_code (n # ns) = (case node_code n of Some code \<Rightarrow> Some code | None \<Rightarrow> first_code ns)"

definition bluez_error_code :: "exn \<Rightarrow> string option" where
  "bluez_error_code e = first_code (exception_chain e)"

definition classify_startup_error :: "exn \<Rightarrow> string \<Rightarrow> string" where
  "classify_startup_error e stage =
     (if bluez_error_code e = Some BLUEZ_IN_PROGRESS then ERROR_BLE_DISCOVERY_IN_PROGRESS
      else
        (let names = concat (map xn_mro (exception_chain e)); error = hd e in
         if xn_not_found error \<or> ''NetworkNotFoundError'' \<in> set names then ERROR_NETWORK_NOT_FOUND
         else if set names \<inter> {''AuthenticationError'', ''UnsupportedProtocolVersion'', ''BridgeConfigurationError''} \<noteq> {}
         then ERROR_CONFIGURATION
         else if xn_timeout error \<or> set names \<inter> {''BluetoothError'', ''BleakError''} \<noteq> {}
         then (if stage = PHASE_DISCOVERING then ERROR_BLE_DISCOVERY_FAILED else ERROR_BLE_CONNECT_FAILED)
         else ERROR_UNKNOWN))"

text \<open>The two exceptions the bridge raises itself, without cause or context.\<close>

definition timeout_error :: exn where
  "timeout_error = [\<lparr>xn_mro = [''TimeoutError'', ''OSError'', ''Exception'', ''BaseException'', ''object''], xn_timeout = True,
     xn_not_found = False, xn_dbus_error = JNull, xn_args = []\<rparr>]"

definition network_not_found :: exn where
  "network_not_found = [\<lparr>xn_mro = [''_NetworkNotFoundError'', ''Exception'', ''BaseException'', ''object''], xn_timeout = False,
     xn_not_found = True, xn_dbus_error = JNull, xn_args = []\<rparr>]"

definition BLE_STARTUP_FAILURES :: "string list" where
  "BLE_STARTUP_FAILURES = [ERROR_BLE_DISCOVERY_IN_PROGRESS, ERROR_BLE_DISCOVERY_FAILED, ERROR_BLE_CONNECT_FAILED]"

definition TRANSIENT_STARTUP_ERRORS :: "string list" where
  "TRANSIENT_STARTUP_ERRORS =
     [ERROR_BLE_DISCOVERY_IN_PROGRESS, ERROR_BLE_DISCOVERY_FAILED, ERROR_BLE_CONNECT_FAILED, ERROR_NETWORK_NOT_FOUND]"

section \<open>Back-off\<close>

abbreviation "STARTUP_ATTEMPTS \<equiv> 6 :: nat"
abbreviation "STARTUP_BACKOFF_CAP_SECONDS \<equiv> 30 :: time"
abbreviation "STARTUP_BACKOFF_JITTER \<equiv> 1 / 5 :: time"

definition STARTUP_BACKOFF_SECONDS :: "time list" where
  "STARTUP_BACKOFF_SECONDS = [1, 2, 4, 8, 16]"

definition startup_backoff :: "nat \<Rightarrow> time \<Rightarrow> time" where
  "startup_backoff attempt random =
     (let base = (if attempt < length STARTUP_BACKOFF_SECONDS then STARTUP_BACKOFF_SECONDS ! attempt
                  else STARTUP_BACKOFF_CAP_SECONDS)
      in min base STARTUP_BACKOFF_CAP_SECONDS * (1 + STARTUP_BACKOFF_JITTER * random))"

section \<open>Bounded operations\<close>

abbreviation "BLE_CANCEL_GRACE \<equiv> 10 :: time"
abbreviation "BLE_CLEANUP_TIMEOUT \<equiv> 10 :: time"

text \<open>
  An operation left alone ends after \<open>op_done\<close> with a result, or never; cancelled, it unwinds after
  \<open>op_unwind\<close>, or never; and the caller is cancelled after \<open>op_stop\<close>, if at all.
\<close>

datatype 'a op_result = Returned 'a | Raised exn | Cancelled_Itself

record 'a operation =
  op_done :: "(time \<times> 'a op_result) option"
  op_unwind :: "time option"
  op_stop :: "time option"

datatype bounded_error = Op_Raised exn | Ble_Wedged | Cancelled

definition unwind_time :: "'a operation \<Rightarrow> time" where
  "unwind_time op = (case op_unwind op of Some u \<Rightarrow> min u BLE_CANCEL_GRACE | None \<Rightarrow> BLE_CANCEL_GRACE)"

definition unwinds :: "'a operation \<Rightarrow> bool" where
  "unwinds op \<longleftrightarrow> (\<exists>u \<in> set_option (op_unwind op). u \<le> BLE_CANCEL_GRACE)"

definition stopped_before :: "'a operation \<Rightarrow> time \<Rightarrow> bool" where
  "stopped_before op t \<longleftrightarrow> (\<exists>c \<in> set_option (op_stop op). c < t)"

definition done_within :: "'a operation \<Rightarrow> time \<Rightarrow> bool" where
  "done_within op deadline \<longleftrightarrow> (\<exists>d \<in> set_option (op_done op). fst d \<le> deadline)"

fun op_outcome :: "'a op_result \<Rightarrow> bounded_error + 'a" where
  "op_outcome (Returned v) = Inr v"
| "op_outcome (Raised e) = Inl (Op_Raised e)"
| "op_outcome Cancelled_Itself = Inl Cancelled"

text \<open>The result and the time it took.\<close>

definition run_bounded :: "'a operation \<Rightarrow> time \<Rightarrow> (bounded_error + 'a) \<times> time" where
  "run_bounded op deadline =
     (let first = (if done_within op deadline then fst (the (op_done op)) else deadline) in
      if stopped_before op first then (Inl Cancelled, the (op_stop op) + unwind_time op)
      else if done_within op deadline then (op_outcome (snd (the (op_done op))), first)
      else if stopped_before op (deadline + unwind_time op) then (Inl Cancelled, the (op_stop op))
      else (Inl (if unwinds op then Op_Raised timeout_error else Ble_Wedged), deadline + unwind_time op))"

text \<open>Whether the call leaves a task behind that ignores its cancellation for ever.\<close>

definition leaves_behind :: "'a operation \<Rightarrow> time \<Rightarrow> bool" where
  "leaves_behind op deadline \<longleftrightarrow> op_unwind op = None
     \<and> (if done_within op deadline then stopped_before op (fst (the (op_done op))) else True)"

section \<open>Processes\<close>

record process =
  pr_now :: time
  pr_actions :: "health_action list"
  pr_stop :: bool
  pr_stuck :: bool

definition new_process :: "time \<Rightarrow> process" where
  "new_process now = \<lparr>pr_now = now, pr_actions = [], pr_stop = False, pr_stuck = False\<rparr>"

definition act :: "health_action \<Rightarrow> process \<Rightarrow> process" where
  "act a p = p\<lparr>pr_actions := pr_actions p @ [a]\<rparr>"

definition acts :: "health_action list \<Rightarrow> process \<Rightarrow> process" where
  "acts as p = p\<lparr>pr_actions := pr_actions p @ as\<rparr>"

definition elapse :: "time \<Rightarrow> process \<Rightarrow> process" where
  "elapse t p = p\<lparr>pr_now := pr_now p + t\<rparr>"

text \<open>One bounded operation of the process.\<close>

definition await_bounded :: "'a operation \<Rightarrow> time \<Rightarrow> process \<Rightarrow> (bounded_error + 'a) \<times> process" where
  "await_bounded op deadline p =
     (let (r, t) = run_bounded op deadline in
      (r, (elapse t p)\<lparr>pr_stop := pr_stop p \<or> (r = Inl Cancelled \<and> op_stop op \<noteq> None),
        pr_stuck := pr_stuck p \<or> leaves_behind op deadline\<rparr>))"

text \<open>\<^verbatim>\<open>_bounded_cleanup\<close>: every error but a wedged operation and a cancellation changes nothing.\<close>

definition bounded_cleanup :: "unit operation \<Rightarrow> process \<Rightarrow> (bounded_error + unit) \<times> process" where
  "bounded_cleanup op p =
     (let (r, p') = await_bounded op BLE_CLEANUP_TIMEOUT p in
      (case r of Inl (Op_Raised _) \<Rightarrow> Inr () | _ \<Rightarrow> r, p'))"

section \<open>Stages\<close>

text \<open>
  A stage: what its attempts, their cleanups (None: no cleanup function), the random numbers and the stops
  during the back-off are.
\<close>

record 'a stage =
  sg_name :: string
  sg_operation :: "nat \<Rightarrow> 'a operation"
  sg_deadline :: time
  sg_cleanup :: "(nat \<Rightarrow> unit operation) option"
  sg_random :: "nat \<Rightarrow> time"
  sg_sleep_stop :: "nat \<Rightarrow> time option"

datatype stage_error = Startup_Failed string bool | Stage_Cancelled

text \<open>The cleanup after a failed attempt, if the stage has one.\<close>

definition stage_cleanup :: "'a stage \<Rightarrow> nat \<Rightarrow> process \<Rightarrow> (bounded_error + unit) \<times> process" where
  "stage_cleanup sg attempt p = (case sg_cleanup sg of None \<Rightarrow> (Inr (), p) | Some c \<Rightarrow> bounded_cleanup (c attempt) p)"

definition backoff_sleep :: "'a stage \<Rightarrow> nat \<Rightarrow> process \<Rightarrow> (bounded_error + unit) \<times> process" where
  "backoff_sleep sg attempt p =
     (let t = startup_backoff attempt (sg_random sg attempt) in
      case sg_sleep_stop sg attempt of
        Some c \<Rightarrow> if c < t then (Inl Cancelled, (elapse c p)\<lparr>pr_stop := True\<rparr>) else (Inr (), elapse t p)
      | None \<Rightarrow> (Inr (), elapse t p))"

text \<open>One iteration: the stage ends with a result, or goes on with a category.\<close>

definition stage_attempt :: "'a stage \<Rightarrow> nat \<Rightarrow> string \<Rightarrow> process \<Rightarrow> ((stage_error + 'a) + string) \<times> process" where
  "stage_attempt sg attempt category p =
     (let p1 = act (Phase (sg_name sg) (if attempt \<noteq> 0 then category else ERROR_NONE)) p;
          (r, p2) = await_bounded (sg_operation sg attempt) (sg_deadline sg) p1 in
      case r of
        Inr v \<Rightarrow> (Inl (Inr v), p2)
      | Inl Cancelled \<Rightarrow> (Inl (Inl Stage_Cancelled), p2)
      | Inl Ble_Wedged \<Rightarrow> (Inl (Inl (Startup_Failed (classify_startup_error timeout_error (sg_name sg)) True)), p2)
      | Inl (Op_Raised e) \<Rightarrow>
          (let category' = classify_startup_error e (sg_name sg);
               (rc, p3) = stage_cleanup sg attempt p2 in
           case rc of
             Inl Ble_Wedged \<Rightarrow> (Inl (Inl (Startup_Failed category' True)), p3)
           | Inl _ \<Rightarrow> (Inl (Inl Stage_Cancelled), p3)
           | Inr _ \<Rightarrow>
               (let p4 = act (Phase (sg_name sg) category') p3 in
                if category' \<notin> set TRANSIENT_STARTUP_ERRORS then (Inl (Inl (Startup_Failed category' False)), p4)
                else if attempt + 1 < STARTUP_ATTEMPTS
                then (let (rs, p5) = backoff_sleep sg attempt p4 in
                      (case rs of Inl _ \<Rightarrow> Inl (Inl Stage_Cancelled) | Inr _ \<Rightarrow> Inr category', p5))
                else (Inr category', p4))))"

text \<open>The loop with \<open>n\<close> attempts left, and the last category.\<close>

primrec stage_attempts :: "'a stage \<Rightarrow> nat \<Rightarrow> string \<Rightarrow> process \<Rightarrow> (stage_error + 'a) \<times> process" where
  "stage_attempts sg 0 category p = (Inl (Startup_Failed category False), p)"
| "stage_attempts sg (Suc n) category p =
     (let (r, p') = stage_attempt sg (STARTUP_ATTEMPTS - Suc n) category p in
      case r of Inl result \<Rightarrow> (result, p') | Inr category' \<Rightarrow> stage_attempts sg n category' p')"

definition run_startup_stage :: "'a stage \<Rightarrow> process \<Rightarrow> (stage_error + 'a) \<times> process" where
  "run_startup_stage sg p = stage_attempts sg STARTUP_ATTEMPTS ERROR_UNKNOWN p"

section \<open>How long a stage takes\<close>

definition operation_ok :: "'a operation \<Rightarrow> bool" where
  "operation_ok op \<longleftrightarrow> (\<forall>d \<in> set_option (op_done op). 0 \<le> fst d) \<and> (\<forall>u \<in> set_option (op_unwind op). 0 \<le> u)
     \<and> (\<forall>c \<in> set_option (op_stop op). 0 \<le> c)"

definition stage_ok :: "'a stage \<Rightarrow> bool" where
  "stage_ok sg \<longleftrightarrow> 0 \<le> sg_deadline sg \<and> (\<forall>k. operation_ok (sg_operation sg k) \<and> 0 \<le> sg_random sg k \<and> sg_random sg k \<le> 1)
     \<and> (\<forall>cl k. sg_cleanup sg = Some cl \<longrightarrow> operation_ok (cl k))"

lemma unwind_time_bounds: "operation_ok op \<Longrightarrow> 0 \<le> unwind_time op" "unwind_time op \<le> BLE_CANCEL_GRACE"
  by (auto simp: unwind_time_def operation_ok_def split: option.split)

lemma run_bounded_time:
  assumes "operation_ok op" "0 \<le> deadline"
  shows "0 \<le> snd (run_bounded op deadline)" "snd (run_bounded op deadline) \<le> deadline + BLE_CANCEL_GRACE"
  using assms unwind_time_bounds(2)[of op] unwind_time_bounds(1)[OF assms(1)]
  by (auto simp: run_bounded_def Let_def operation_ok_def stopped_before_def done_within_def)

lemma await_bounded_simps:
  "fst (await_bounded op deadline p) = fst (run_bounded op deadline)"
  "pr_now (snd (await_bounded op deadline p)) = pr_now p + snd (run_bounded op deadline)"
  "pr_actions (snd (await_bounded op deadline p)) = pr_actions p"
  by (simp_all add: await_bounded_def elapse_def prod.case_eq_if)

lemma bounded_cleanup_simps:
  "fst (bounded_cleanup op p) =
     (case fst (run_bounded op BLE_CLEANUP_TIMEOUT) of Inl (Op_Raised _) \<Rightarrow> Inr () | r \<Rightarrow> r)"
  "snd (bounded_cleanup op p) = snd (await_bounded op BLE_CLEANUP_TIMEOUT p)"
  by (auto simp: bounded_cleanup_def prod.case_eq_if await_bounded_simps split: sum.split bounded_error.split)

lemma process_act_simps [simp]:
  "pr_now (act a p) = pr_now p" "pr_stop (act a p) = pr_stop p" "pr_stuck (act a p) = pr_stuck p"
  "pr_actions (act a p) = pr_actions p @ [a]"
  by (simp_all add: act_def)

lemma stage_cleanup_time:
  assumes "stage_ok sg"
  shows "pr_now (snd (stage_cleanup sg k p)) \<le> pr_now p + 20" "pr_now p \<le> pr_now (snd (stage_cleanup sg k p))"
proof -
  have "pr_now p \<le> pr_now (snd (stage_cleanup sg k p)) \<and> pr_now (snd (stage_cleanup sg k p)) \<le> pr_now p + 20"
  proof (cases "sg_cleanup sg")
    case (Some cl)
    with assms have "operation_ok (cl k)" by (auto simp: stage_ok_def)
    from run_bounded_time[OF this, of BLE_CLEANUP_TIMEOUT] Some show ?thesis
      by (simp add: stage_cleanup_def bounded_cleanup_simps await_bounded_simps)
  qed (simp add: stage_cleanup_def)
  then show "pr_now (snd (stage_cleanup sg k p)) \<le> pr_now p + 20" "pr_now p \<le> pr_now (snd (stage_cleanup sg k p))"
    by simp_all
qed

lemma startup_backoff_bounds:
  assumes "0 \<le> r" "r \<le> 1" "k < 5"
  shows "0 \<le> startup_backoff k r" "startup_backoff k r \<le> 6 / 5 * 2 ^ k"
proof -
  have "STARTUP_BACKOFF_SECONDS ! k = 2 ^ k"
  proof -
    from assms(3) consider "k = 0" | "k = 1" | "k = 2" | "k = 3" | "k = 4" by linarith
    then show ?thesis by cases (simp_all add: STARTUP_BACKOFF_SECONDS_def)
  qed
  moreover have "(2 :: time) ^ k \<le> 2 ^ 4" using assms(3) by (intro power_increasing) auto
  ultimately have b: "startup_backoff k r = 2 ^ k * (1 + r / 5)"
    using assms(3) by (simp add: startup_backoff_def STARTUP_BACKOFF_SECONDS_def Let_def)
  show "0 \<le> startup_backoff k r" using assms(1) by (simp add: b)
  have "2 ^ k * (1 + r / 5) \<le> 2 ^ k * (6 / 5)" using assms(2) by (intro mult_left_mono) auto
  then show "startup_backoff k r \<le> 6 / 5 * 2 ^ k" by (simp add: b)
qed

lemma backoff_sleep_time:
  assumes "stage_ok sg" "k < 5"
  shows "pr_now (snd (backoff_sleep sg k p)) \<le> pr_now p + 6 / 5 * 2 ^ k"
proof -
  have "0 \<le> startup_backoff k (sg_random sg k)" "startup_backoff k (sg_random sg k) \<le> 6 / 5 * 2 ^ k"
    using startup_backoff_bounds[of "sg_random sg k" k] assms by (auto simp: stage_ok_def)
  then show ?thesis by (auto simp: backoff_sleep_def elapse_def Let_def split: option.split)
qed

section \<open>How a stage ends\<close>

text \<open>Attempt \<open>k\<close> failed with an error of category \<open>c\<close>; the stage goes on only after transient ones.\<close>

definition attempt_failed :: "'a stage \<Rightarrow> nat \<Rightarrow> string \<Rightarrow> bool" where
  "attempt_failed sg k c \<longleftrightarrow>
     (\<exists>e. fst (run_bounded (sg_operation sg k) (sg_deadline sg)) = Inl (Op_Raised e) \<and> classify_startup_error e (sg_name sg) = c)"

definition cleanup_wedged :: "'a stage \<Rightarrow> nat \<Rightarrow> bool" where
  "cleanup_wedged sg k \<longleftrightarrow> (\<exists>cl. sg_cleanup sg = Some cl \<and> fst (run_bounded (cl k) BLE_CLEANUP_TIMEOUT) = Inl Ble_Wedged)"

fun ended_at :: "'a stage \<Rightarrow> nat \<Rightarrow> stage_error + 'a \<Rightarrow> bool" where
  "ended_at sg k (Inr v) \<longleftrightarrow> fst (run_bounded (sg_operation sg k) (sg_deadline sg)) = Inr v"
| "ended_at sg k (Inl (Startup_Failed c False)) \<longleftrightarrow>
     attempt_failed sg k c \<and> (c \<in> set TRANSIENT_STARTUP_ERRORS \<longrightarrow> Suc k = STARTUP_ATTEMPTS)"
| "ended_at sg k (Inl (Startup_Failed c True)) \<longleftrightarrow>
     fst (run_bounded (sg_operation sg k) (sg_deadline sg)) = Inl Ble_Wedged
       \<and> c = classify_startup_error timeout_error (sg_name sg)
     \<or> attempt_failed sg k c \<and> cleanup_wedged sg k"
| "ended_at sg k (Inl Stage_Cancelled) \<longleftrightarrow> True"

definition attempt_retried :: "'a stage \<Rightarrow> nat \<Rightarrow> bool" where
  "attempt_retried sg k \<longleftrightarrow> (\<exists>c \<in> set TRANSIENT_STARTUP_ERRORS. attempt_failed sg k c)"

lemma stage_cleanup_wedged:
  "fst (stage_cleanup sg k p) = Inl Ble_Wedged \<longleftrightarrow> cleanup_wedged sg k"
  by (auto simp: stage_cleanup_def cleanup_wedged_def bounded_cleanup_simps split: option.split sum.splits bounded_error.splits)

text \<open>The back-off before the next attempt.\<close>

definition backoff_limit :: "nat \<Rightarrow> time" where
  "backoff_limit k = (if k + 1 < STARTUP_ATTEMPTS then 6 / 5 * 2 ^ k else 0)"

lemma stage_attempt_ends:
  assumes "stage_attempt sg k category p = (Inl r, p')"
  shows "ended_at sg k r"
proof (cases "fst (run_bounded (sg_operation sg k) (sg_deadline sg))")
  case (Inl e)
  then show ?thesis
  proof (cases e)
    case (Op_Raised x)
    let ?c = "classify_startup_error x (sg_name sg)"
    have failed: "attempt_failed sg k ?c" using Inl Op_Raised by (auto simp: attempt_failed_def)
    from assms Inl Op_Raised have "r = Inl Stage_Cancelled
        \<or> (r = Inl (Startup_Failed ?c True) \<and> cleanup_wedged sg k)
        \<or> (r = Inl (Startup_Failed ?c False) \<and> ?c \<notin> set TRANSIENT_STARTUP_ERRORS)"
      by (auto simp: stage_attempt_def await_bounded_simps stage_cleanup_wedged prod.case_eq_if Let_def
          split: sum.splits bounded_error.splits if_splits)
    with failed show ?thesis by auto
  qed (use assms Inl in \<open>auto simp: stage_attempt_def await_bounded_simps prod.case_eq_if Let_def\<close>)
next
  case (Inr v)
  then show ?thesis using assms by (auto simp: stage_attempt_def await_bounded_simps prod.case_eq_if Let_def)
qed

lemma stage_attempt_goes_on:
  assumes "stage_attempt sg k category p = (Inr c, p')"
  shows "attempt_failed sg k c \<and> c \<in> set TRANSIENT_STARTUP_ERRORS"
proof (cases "fst (run_bounded (sg_operation sg k) (sg_deadline sg))")
  case (Inl e)
  with assms show ?thesis
    by (cases e) (auto simp: stage_attempt_def await_bounded_simps attempt_failed_def prod.case_eq_if Let_def
          split: sum.splits bounded_error.splits if_splits)
next
  case (Inr v)
  then show ?thesis using assms by (auto simp: stage_attempt_def await_bounded_simps prod.case_eq_if Let_def)
qed

lemma stage_attempt_time:
  assumes "stage_ok sg"
  shows "pr_now (snd (stage_attempt sg k category p)) \<le> pr_now p + (sg_deadline sg + 30) + backoff_limit k"
proof -
  let ?p1 = "act (Phase (sg_name sg) (if k \<noteq> 0 then category else ERROR_NONE)) p"
  let ?p2 = "snd (await_bounded (sg_operation sg k) (sg_deadline sg) ?p1)"
  have limit: "0 \<le> backoff_limit k" by (simp add: backoff_limit_def)
  have p2: "pr_now ?p2 \<le> pr_now p + sg_deadline sg + 10"
    using run_bounded_time[of "sg_operation sg k" "sg_deadline sg"] assms by (simp add: await_bounded_simps stage_ok_def)
  have p3: "pr_now (snd (stage_cleanup sg k ?p2)) \<le> pr_now p + (sg_deadline sg + 30)"
    using stage_cleanup_time(1)[OF assms, of k ?p2] p2 by simp
  have p5: "pr_now (snd (backoff_sleep sg k (act a (snd (stage_cleanup sg k ?p2))))) \<le> pr_now p + (sg_deadline sg + 30) + backoff_limit k"
    if "k + 1 < STARTUP_ATTEMPTS" for a
    using backoff_sleep_time[OF assms, of k "act a (snd (stage_cleanup sg k ?p2))"] p3 that by (simp add: backoff_limit_def)
  show ?thesis
    using p2 p3 p5 limit
    by (auto simp: stage_attempt_def prod.case_eq_if Let_def split: sum.split bounded_error.split)
qed

lemma backoff_sum: "n \<le> 4 \<Longrightarrow> backoff_limit (5 - Suc n) + 6 / 5 * (32 - 2 ^ (5 - n)) \<le> 6 / 5 * (32 - 2 ^ (5 - Suc n))"
proof -
  assume "n \<le> 4"
  then obtain m where m: "5 - Suc n = m" "5 - n = Suc m" "m < 5" by (cases "4 - n") auto
  show ?thesis unfolding m using m(3) by (simp add: backoff_limit_def field_simps)
qed

lemma stage_attempts_end:
  assumes "stage_attempts sg (Suc n) category p = (r, p')" "n \<le> 5"
  shows "\<exists>k. 5 - n \<le> k \<and> k < STARTUP_ATTEMPTS \<and> (\<forall>j. 5 - n \<le> j \<and> j < k \<longrightarrow> attempt_retried sg j) \<and> ended_at sg k r"
  using assms
proof (induction n arbitrary: category p)
  case 0
  then have "ended_at sg 5 r"
    using stage_attempt_ends[of sg 5 category p] stage_attempt_goes_on[of sg 5 category p]
    by (auto split: sum.splits prod.splits)
  then show ?case by auto
next
  case (Suc n)
  let ?k = "5 - Suc n"
  obtain x p1 where x: "stage_attempt sg ?k category p = (x, p1)" by force
  show ?case
  proof (cases x)
    case (Inl result)
    with Suc.prems(1) x stage_attempt_ends[of sg ?k category p] have "ended_at sg ?k r" by auto
    moreover have "?k < STARTUP_ATTEMPTS" by simp
    ultimately show ?thesis by (metis le_refl leD)
  next
    case (Inr c)
    with Suc.prems(1) x have "stage_attempts sg (Suc n) c p1 = (r, p')" by (simp add: numeral_2_eq_2[symmetric])
    from Suc.IH[OF this] Suc.prems(2) obtain k where
      k: "5 - n \<le> k" "k < STARTUP_ATTEMPTS" "\<forall>j. 5 - n \<le> j \<and> j < k \<longrightarrow> attempt_retried sg j" "ended_at sg k r" by auto
    have "attempt_retried sg ?k"
      using stage_attempt_goes_on x Inr by (fastforce simp: attempt_retried_def)
    moreover have "j = ?k \<or> 5 - n \<le> j" if "?k \<le> j" for j using that Suc.prems(2) by linarith
    ultimately have "\<forall>j. ?k \<le> j \<and> j < k \<longrightarrow> attempt_retried sg j" using k(3) by blast
    moreover have "?k \<le> k" using k(1) by linarith
    ultimately show ?thesis using k(2,4) by blast
  qed
qed

lemma stage_attempts_time:
  assumes "stage_ok sg" "n \<le> 5"
  shows "pr_now (snd (stage_attempts sg (Suc n) category p))
    \<le> pr_now p + of_nat (Suc n) * (sg_deadline sg + 30) + 6 / 5 * (32 - 2 ^ (5 - n))"
  using assms(2)
proof (induction n arbitrary: category p)
  case 0
  from stage_attempt_time[OF assms(1), of 5 category p] show ?case
    by (simp add: backoff_limit_def prod.case_eq_if split: sum.split)
next
  case (Suc n)
  let ?k = "5 - Suc n"
  obtain x p1 where x: "stage_attempt sg ?k category p = (x, p1)" by force
  have time: "pr_now p1 \<le> pr_now p + (sg_deadline sg + 30) + backoff_limit ?k"
    using stage_attempt_time[OF assms(1), of ?k category p] x by simp
  have sum: "backoff_limit ?k + 6 / 5 * (32 - 2 ^ (5 - n)) \<le> 6 / 5 * (32 - 2 ^ ?k)"
    using Suc.prems by (intro backoff_sum) simp
  have "(2 :: time) ^ (5 - n) \<le> 2 ^ 5" by (intro power_increasing) auto
  moreover have "0 \<le> of_nat (Suc n) * (sg_deadline sg + 30)" using assms(1) by (simp add: stage_ok_def)
  ultimately have "pr_now p1 \<le> pr_now p + of_nat (Suc (Suc n)) * (sg_deadline sg + 30) + 6 / 5 * (32 - 2 ^ ?k)"
    using time sum by (simp add: algebra_simps)
  moreover have "pr_now (snd (stage_attempts sg (Suc n) c p1))
      \<le> pr_now p + of_nat (Suc (Suc n)) * (sg_deadline sg + 30) + 6 / 5 * (32 - 2 ^ ?k)" for c
    using Suc.IH[of c p1] Suc.prems time sum by (simp add: algebra_simps del: stage_attempts.simps)
  ultimately show ?case using x by (simp add: numeral_2_eq_2[symmetric] split: sum.split)
qed

lemma run_startup_stage_end:
  assumes "run_startup_stage sg p = (r, p')"
  shows "\<exists>k < STARTUP_ATTEMPTS. (\<forall>j < k. attempt_retried sg j) \<and> ended_at sg k r"
proof -
  from assms have "stage_attempts sg (Suc 5) ERROR_UNKNOWN p = (r, p')"
    by (simp add: run_startup_stage_def eval_nat_numeral)
  from stage_attempts_end[OF this] show ?thesis by auto
qed

section \<open>Property\<close>

text \<open>
  C18: a startup stage always ends. After at most six attempts and a time bounded by their deadlines, graces, cleanups and
  back-offs it returns, is cancelled or fails, and how is decided by one attempt \<open>k\<close>: all before it failed with a
  transient category; it returned the value, or failed with the stage's category, which is a transient one only
  at the sixth attempt, or it or its cleanup ignored cancellation, which ends the stage at once.
\<close>

theorem startup_stage_ends:
  assumes "stage_ok sg" "run_startup_stage sg p = (r, p')"
  shows "(\<exists>k < STARTUP_ATTEMPTS. (\<forall>j < k. attempt_retried sg j) \<and> ended_at sg k r)
    \<and> pr_now p' - pr_now p \<le> 6 * (sg_deadline sg + 30) + 186 / 5"
proof -
  have "run_startup_stage sg p = stage_attempts sg (Suc 5) ERROR_UNKNOWN p"
    by (simp add: run_startup_stage_def eval_nat_numeral)
  with stage_attempts_time[OF assms(1), of 5 ERROR_UNKNOWN p] assms(2)
  have "pr_now p' - pr_now p \<le> 6 * (sg_deadline sg + 30) + 186 / 5" by (simp del: stage_attempts.simps)
  with run_startup_stage_end[OF assms(2)] show ?thesis by blast
qed

text \<open>A scan that is in progress on the first attempt and finds its network on the second.\<close>

definition in_progress_error :: exn where
  "in_progress_error = [\<lparr>xn_mro = [''BluetoothError'', ''Exception''], xn_timeout = False, xn_not_found = False,
     xn_dbus_error = JNull, xn_args = [JStr BLUEZ_IN_PROGRESS, JStr ''details'']\<rparr>]"

definition quick_operation :: "'a op_result \<Rightarrow> 'a operation" where
  "quick_operation r = \<lparr>op_done = Some (1, r), op_unwind = Some 0, op_stop = None\<rparr>"

definition second_try_stage :: "int stage" where
  "second_try_stage = \<lparr>sg_name = PHASE_DISCOVERING,
     sg_operation = (\<lambda>k. quick_operation (if k = 0 then Raised in_progress_error else Returned 7)),
     sg_deadline = 30, sg_cleanup = None, sg_random = (\<lambda>_. 1 / 2), sg_sleep_stop = (\<lambda>_. None)\<rparr>"

lemma second_try_run:
  "stage_ok second_try_stage" "fst (run_startup_stage second_try_stage (new_process 0)) = Inr 7"
  "classify_startup_error in_progress_error PHASE_DISCOVERING = ERROR_BLE_DISCOVERY_IN_PROGRESS"
proof -
  show ok: "stage_ok second_try_stage"
    by (simp add: stage_ok_def second_try_stage_def operation_ok_def quick_operation_def)
  show category: "classify_startup_error in_progress_error PHASE_DISCOVERING = ERROR_BLE_DISCOVERY_IN_PROGRESS"
    by (simp add: classify_startup_error_def bluez_error_code_def exception_chain_def in_progress_error_def node_code_def
        starts_with_def)
  have transient: "ERROR_BLE_DISCOVERY_IN_PROGRESS \<in> set TRANSIENT_STARTUP_ERRORS" by (simp add: TRANSIENT_STARTUP_ERRORS_def)
  note run = stage_attempt_def second_try_stage_def quick_operation_def await_bounded_def run_bounded_def done_within_def
    stopped_before_def stage_cleanup_def backoff_sleep_def
  have first: "fst (stage_attempt second_try_stage 0 c p) = Inr ERROR_BLE_DISCOVERY_IN_PROGRESS" for c p
    using category transient by (simp add: run Let_def)
  have second: "fst (stage_attempt second_try_stage 1 c p) = Inl (Inr 7)" for c p
    by (simp add: run)
  have "run_startup_stage second_try_stage p = stage_attempts second_try_stage (Suc (Suc 4)) ERROR_UNKNOWN p" for p
    by (simp add: run_startup_stage_def eval_nat_numeral)
  moreover have "STARTUP_ATTEMPTS - Suc (Suc 4) = 0" "STARTUP_ATTEMPTS - Suc 4 = 1" by simp_all
  ultimately show "fst (run_startup_stage second_try_stage (new_process 0)) = Inr 7"
    using first second by (simp only: stage_attempts.simps(2) Let_def prod.case_eq_if sum.case fst_conv)
qed

theorem startup_stage_ends_witness:
  "\<exists>k < STARTUP_ATTEMPTS. (\<forall>j < k. attempt_retried second_try_stage j) \<and> ended_at second_try_stage k (Inr 7)"
proof -
  obtain p' where "run_startup_stage second_try_stage (new_process 0) = (Inr 7, p')"
    using second_try_run(2) by (cases "run_startup_stage second_try_stage (new_process 0)") auto
  from startup_stage_ends[OF second_try_run(1) this] show ?thesis by blast
qed

end
