(* ===== verification/Bridge_Main.thy ===== *)
theory Bridge_Main
  imports Bridge_Startup
begin

text \<open>
  \<^verbatim>\<open>src/server.py\<close>, the life of the bridge process: the configuration checks, the two startup
  stages, the loop of MQTT sessions raced against the loss of the BLE link, the final disconnect, the handlers
  of \<^verbatim>\<open>main\<close> and the exit status of \<^verbatim>\<open>cli\<close>. A script fixes what the outside does: how BLE operations end, how each
  session ends and when a stop is requested; a script whose sessions run out is a process still running.
\<close>

section \<open>Configuration and discovery\<close>

definition health_heartbeat_seconds :: "string \<Rightarrow> int option" where
  "health_heartbeat_seconds text =
     (let n = (case py_int text of None \<Rightarrow> -1 | Some n \<Rightarrow> n) in if \<not> (5 \<le> n \<and> n \<le> 300) then None else Some n)"

record casa_device =
  dv_address :: string

definition configured_network_device :: "string \<Rightarrow> casa_device list \<Rightarrow> casa_device option" where
  "configured_network_device address devices =
     fold (\<lambda>d configured. if dv_address d = address then Some d else configured) devices None"

text \<open>What discovery returns: all devices when no address is configured, else the device.\<close>

datatype found = Listing "casa_device list" | Found casa_device

definition discovered :: "string \<Rightarrow> casa_device list op_result \<Rightarrow> found op_result" where
  "discovered address r =
     (case r of
        Returned devices \<Rightarrow>
          if address = [] then Returned (Listing devices)
          else (case configured_network_device address devices of
                  None \<Rightarrow> Raised network_not_found
                | Some d \<Rightarrow> Returned (Found d))
      | Raised e \<Rightarrow> Raised e
      | Cancelled_Itself \<Rightarrow> Cancelled_Itself)"

definition discover_once :: "string \<Rightarrow> casa_device list operation \<Rightarrow> found operation" where
  "discover_once address op =
     \<lparr>op_done = map_option (\<lambda>(t, r). (t, discovered address r)) (op_done op), op_unwind = op_unwind op, op_stop = op_stop op\<rparr>"

section \<open>Sessions\<close>

text \<open>
  How the race of the session's task against the loss of the link wakes up, and what it does. A cancellation
  cancels the session and awaits it: a session that had just ended, or ends with an error of its own, is \<open>Some\<close>, and its error
  goes on in place of the cancellation.
\<close>

datatype session_result = Session_Returned | Session_Mqtt_Error | Session_Error

datatype wakeup = Caller_Cancelled "session_result option" | Disconnect_Done "session_result option" | Session_Done session_result

datatype session_end = Ended_Clean | Ended_Mqtt | Ended_Error | Ended_Lost | Ended_Stop

fun race_session_against_disconnect :: "wakeup \<Rightarrow> session_end" where
  "race_session_against_disconnect (Caller_Cancelled (Some Session_Mqtt_Error)) = Ended_Mqtt"
| "race_session_against_disconnect (Caller_Cancelled (Some Session_Error)) = Ended_Error"
| "race_session_against_disconnect (Caller_Cancelled _) = Ended_Stop"
| "race_session_against_disconnect (Disconnect_Done _) = Ended_Lost"
| "race_session_against_disconnect (Session_Done Session_Returned) = Ended_Clean"
| "race_session_against_disconnect (Session_Done Session_Mqtt_Error) = Ended_Mqtt"
| "race_session_against_disconnect (Session_Done Session_Error) = Ended_Error"

fun is_cancelled :: "wakeup \<Rightarrow> bool" where
  "is_cancelled (Caller_Cancelled _) = True"
| "is_cancelled _ = False"

text \<open>What a session does to the health state after its baseline.\<close>

datatype session_event = Heartbeat | Status_Request | Snapshot_Request snapshot_result

fun event_actions :: "session_event \<Rightarrow> health_action list" where
  "event_actions Heartbeat = [Status]"
| "event_actions Status_Request = [Reply]"
| "event_actions (Snapshot_Request r) = [Snapshot r, Reply]"

text \<open>
  One session as far as it got: \<open>ss_subscribed\<close> if it subscribed, with the heartbeats before the
  baseline, the baseline if it was completed and what followed.
\<close>

record session =
  sn_subscribed :: bool
  sn_heartbeats :: nat
  sn_baseline :: "snapshot_result option"
  sn_events :: "session_event list"
  sn_wakeup :: wakeup

definition session_actions :: "session \<Rightarrow> health_action list" where
  "session_actions s =
     (if \<not> sn_subscribed s then []
      else [Session, Status] @ replicate (sn_heartbeats s) Status
        @ (case sn_baseline s of
             None \<Rightarrow> []
           | Some r \<Rightarrow> [Snapshot r, Status] @ concat (map event_actions (sn_events s))))"

fun final_status_actions :: "session_end \<Rightarrow> health_action list" where
  "final_status_actions Ended_Lost =
     [Phase PHASE_DEGRADED ERROR_BLE_DISCONNECTED, Ble_Link LINK_DISCONNECTED, Status]"
| "final_status_actions Ended_Stop = [Phase PHASE_OFFLINE ERROR_SHUTDOWN, Ble_Link LINK_CONNECTED, Status]"
| "final_status_actions _ = []"

definition run_connected_bridge :: "session \<Rightarrow> process \<Rightarrow> session_end \<times> process" where
  "run_connected_bridge s p =
     (let e = race_session_against_disconnect (sn_wakeup s) in
      (e, (acts (session_actions s @ final_status_actions e) p)\<lparr>pr_stop := pr_stop p \<or> is_cancelled (sn_wakeup s)\<rparr>))"

text \<open>
  A stop that arrives just when the session has failed with an MqttError is lost: the error replaces the cancellation, and
  the loop that catches it connects again.
\<close>

lemma stop_lost_to_mqtt_error:
  assumes "sn_wakeup s = Caller_Cancelled (Some Session_Mqtt_Error)"
  shows "fst (run_connected_bridge s p) = Ended_Mqtt \<and> pr_stop (snd (run_connected_bridge s p))"
  using assms by (simp add: run_connected_bridge_def)

section \<open>The loop of sessions\<close>

text \<open>
  One iteration: whether the link was already lost, the client's connection (None: it failed with an MqttError;
  Some None: the process was stopped while it conn) and the session on it, whether the link was
  lost when an MqttError arrived, and whether the pause was stopped.
\<close>

record iteration =
  it_lost_before :: bool
  it_session :: "session option option"
  it_lost_after :: bool
  it_pause_stopped :: bool

datatype main_end = Main_Returns | Listing_Exit | Link_Lost | Startup_Error string bool | Configuration_Error
  | Stop_Error | Other_Error

definition session_of :: "iteration \<Rightarrow> process \<Rightarrow> session_end \<times> process" where
  "session_of i p =
     (case it_session i of
        None \<Rightarrow> (Ended_Mqtt, p)
      | Some None \<Rightarrow> (Ended_Stop, p\<lparr>pr_stop := True\<rparr>)
      | Some (Some s) \<Rightarrow> run_connected_bridge s p)"

definition mqtt_lost :: "process \<Rightarrow> process" where
  "mqtt_lost p = acts [Mqtt_Link LINK_DISCONNECTED, Reconnected, Phase PHASE_DEGRADED ERROR_MQTT] p"

fun session_loop :: "iteration list \<Rightarrow> process \<Rightarrow> main_end option \<times> process" where
  "session_loop [] p = (None, p)"
| "session_loop (i # is) p =
     (if it_lost_before i then (Some Link_Lost, p)
      else (let (e, p1) = session_of i p in
        case e of
          Ended_Clean \<Rightarrow> session_loop is p1
        | Ended_Error \<Rightarrow> (Some Other_Error, p1)
        | Ended_Lost \<Rightarrow> (Some Link_Lost, p1)
        | Ended_Stop \<Rightarrow> (Some Main_Returns, p1)
        | Ended_Mqtt \<Rightarrow>
            if it_lost_after i then (Some Link_Lost, p1)
            else if it_pause_stopped i then (Some Stop_Error, (mqtt_lost p1)\<lparr>pr_stop := True\<rparr>)
            else session_loop is (mqtt_lost p1)))"

section \<open>The process\<close>

record script =
  sc_network_name :: json
  sc_heartbeat :: string
  sc_address :: string
  sc_discovery :: "nat \<Rightarrow> casa_device list operation"
  sc_discovery_random :: "nat \<Rightarrow> time"
  sc_discovery_stop :: "nat \<Rightarrow> time option"
  sc_connect :: "nat \<Rightarrow> unit operation"
  sc_connect_cleanup :: "nat \<Rightarrow> unit operation"
  sc_connect_random :: "nat \<Rightarrow> time"
  sc_connect_stop :: "nat \<Rightarrow> time option"
  sc_stop_after_connect :: bool
  sc_lost_early :: bool
  sc_iterations :: "iteration list"
  sc_disconnect :: "unit operation"
  sc_report_connected :: bool
  sc_report_stopped :: bool

definition discovery_stage :: "script \<Rightarrow> found stage" where
  "discovery_stage sc = \<lparr>sg_name = PHASE_DISCOVERING, sg_operation = (\<lambda>k. discover_once (sc_address sc) (sc_discovery sc k)),
     sg_deadline = 30, sg_cleanup = None, sg_random = sc_discovery_random sc, sg_sleep_stop = sc_discovery_stop sc\<rparr>"

definition connect_stage :: "script \<Rightarrow> unit stage" where
  "connect_stage sc = \<lparr>sg_name = PHASE_CONNECTING, sg_operation = sc_connect sc, sg_deadline = 90,
     sg_cleanup = Some (sc_connect_cleanup sc), sg_random = sc_connect_random sc, sg_sleep_stop = sc_connect_stop sc\<rparr>"

text \<open>The body of the try: how it ends (None: still running), \<^verbatim>\<open>connected\<close> and \<^verbatim>\<open>stopping\<close>.\<close>

definition connected_part :: "script \<Rightarrow> process \<Rightarrow> (main_end option \<times> bool \<times> bool) \<times> process" where
  "connected_part sc p =
     (case run_startup_stage (connect_stage sc) p of
        (Inl (Startup_Failed c wedged), p1) \<Rightarrow> ((Some (Startup_Error c wedged), False, False), p1)
      | (Inl Stage_Cancelled, p1) \<Rightarrow> ((Some Stop_Error, False, True), p1)
      | (Inr _, p1) \<Rightarrow>
          if sc_stop_after_connect sc then ((Some Stop_Error, True, True), p1\<lparr>pr_stop := True\<rparr>)
          else if sc_lost_early sc then ((Some Link_Lost, True, False), p1)
          else (let (e, p2) = session_loop (sc_iterations sc) p1 in
            ((e, True, e = Some Main_Returns \<or> e = Some Stop_Error), p2)))"

datatype process_end = Ends main_end | Hard_Exit int

definition final_disconnect :: "script \<Rightarrow> main_end \<Rightarrow> bool \<Rightarrow> bool \<Rightarrow> process \<Rightarrow> process_end \<times> process" where
  "final_disconnect sc e conn stopping p =
     (let (r, p') = bounded_cleanup (sc_disconnect sc) p in
      (case r of
         Inl Ble_Wedged \<Rightarrow> Hard_Exit (if stopping then 0 else if conn then 75 else 76)
       | Inl _ \<Rightarrow> Ends Stop_Error
       | Inr _ \<Rightarrow> Ends e, p'))"

definition main_body :: "script \<Rightarrow> process \<Rightarrow> process_end option \<times> process" where
  "main_body sc p =
     (if \<not> is_valid_network_name (sc_network_name sc) \<or> health_heartbeat_seconds (sc_heartbeat sc) = None
      then (Some (Ends Configuration_Error), p)
      else (case run_startup_stage (discovery_stage sc) p of
        (Inl (Startup_Failed c wedged), p1) \<Rightarrow> (Some (Ends (Startup_Error c wedged)), p1)
      | (Inl Stage_Cancelled, p1) \<Rightarrow> (Some (Ends Stop_Error), p1)
      | (Inr (Listing _), p1) \<Rightarrow> (Some (Ends Listing_Exit), p1)
      | (Inr (Found _), p1) \<Rightarrow>
          (let ((e, conn, stopping), p2) = connected_part sc p1 in
           case e of
             None \<Rightarrow> (None, p2)
           | Some m \<Rightarrow> (let (x, p3) = final_disconnect sc m conn stopping p2 in (Some x, p3)))))"

text \<open>\<^verbatim>\<open>report_startup_failure\<close>; the report may itself be stopped, which replaces the planned exit.\<close>

definition report_startup_failure :: "script \<Rightarrow> process \<Rightarrow> process" where
  "report_startup_failure sc p =
     (acts ((if sc_report_connected sc then [Mqtt_Link LINK_CONNECTED, Status] else []) @ [Mqtt_Link LINK_DISCONNECTED]) p)
       \<lparr>pr_stop := pr_stop p \<or> sc_report_stopped sc\<rparr>"

definition main_handlers :: "script \<Rightarrow> process_end \<Rightarrow> process \<Rightarrow> process_end \<times> process" where
  "main_handlers sc x p =
     (case x of
        Ends Link_Lost \<Rightarrow> (x, act (Phase PHASE_OFFLINE ERROR_BLE_DISCONNECTED) p)
      | Ends (Startup_Error c wedged) \<Rightarrow>
          (let p' = report_startup_failure sc (act (Phase PHASE_OFFLINE c) p) in
           (if sc_report_stopped sc then Ends Stop_Error else if wedged then Hard_Exit 76 else x, p'))
      | Ends Configuration_Error \<Rightarrow> (x, act (Phase PHASE_OFFLINE ERROR_CONFIGURATION) p)
      | Ends Stop_Error \<Rightarrow> (x, act (Phase PHASE_OFFLINE ERROR_SHUTDOWN) p)
      | Ends Other_Error \<Rightarrow> (x, act (Phase PHASE_OFFLINE ERROR_UNKNOWN) p)
      | _ \<Rightarrow> (x, p))"

definition main_process :: "script \<Rightarrow> process \<Rightarrow> process_end option \<times> process" where
  "main_process sc p =
     (case main_body sc p of
        (None, p') \<Rightarrow> (None, p')
      | (Some x, p') \<Rightarrow> (let (x', p'') = main_handlers sc x p' in (Some x', p'')))"

text \<open>
  \<^verbatim>\<open>cli\<close> and \<^verbatim>\<open>_run_bridge_until_stopped\<close>. An uncaught exception is exit status 1. A hard exit does not unwind; otherwise
  the event loop waits at its end for a task that was left behind.
\<close>

datatype exit_status = Exit int | Never_Exits

fun cli :: "main_end \<Rightarrow> bool \<Rightarrow> int" where
  "cli Main_Returns _ = 0"
| "cli Listing_Exit _ = 0"
| "cli Link_Lost _ = 75"
| "cli (Startup_Error c _) _ =
     (if c = ERROR_CONFIGURATION then 78 else if c \<in> set BLE_STARTUP_FAILURES then 76 else 79)"
| "cli Configuration_Error _ = 78"
| "cli Stop_Error stop = (if stop then 0 else 1)"
| "cli Other_Error _ = 1"

definition exit_status_of :: "process_end \<Rightarrow> process \<Rightarrow> exit_status" where
  "exit_status_of x p =
     (case x of
        Hard_Exit c \<Rightarrow> Exit c
      | Ends m \<Rightarrow> if pr_stuck p then Never_Exits else Exit (cli m (pr_stop p)))"

definition bridge_exit :: "script \<Rightarrow> time \<Rightarrow> exit_status option" where
  "bridge_exit sc now =
     (case main_process sc (new_process now) of (None, _) \<Rightarrow> None | (Some x, p) \<Rightarrow> Some (exit_status_of x p))"

section \<open>Legal health actions\<close>

lemma startup_categories: "classify_startup_error e stage \<in> set ERROR_CATEGORIES"
  by (simp add: classify_startup_error_def protocol_sets Let_def)

abbreviation acted :: "process \<Rightarrow> bool" where
  "acted p \<equiv> list_all action_ok (pr_actions p)"

lemma acted_simps [simp]:
  "acted (new_process now)"
  "acted (act a p) \<longleftrightarrow> acted p \<and> action_ok a"
  "acted (acts as p) \<longleftrightarrow> acted p \<and> list_all action_ok as"
  "pr_actions (p\<lparr>pr_stop := b\<rparr>) = pr_actions p" "pr_actions (elapse t p) = pr_actions p"
  by (simp_all add: new_process_def act_def acts_def elapse_def)

lemma cleanup_actions [simp]: "pr_actions (snd (bounded_cleanup op p)) = pr_actions p"
  by (simp add: bounded_cleanup_simps await_bounded_simps)

lemma backoff_sleep_actions [simp]: "pr_actions (snd (backoff_sleep sg k p)) = pr_actions p"
  by (simp add: backoff_sleep_def Let_def split: option.split)

lemma stage_cleanup_actions [simp]: "pr_actions (snd (stage_cleanup sg k p)) = pr_actions p"
  by (simp add: stage_cleanup_def split: option.split)

lemma acted_stage_attempt:
  assumes "acted p" "category \<in> set ERROR_CATEGORIES" "sg_name sg \<in> set PHASES" "sg_name sg \<noteq> PHASE_READY"
  shows "acted (snd (stage_attempt sg k category p))"
  using assms startup_categories enum_members(6)
  by (auto simp: stage_attempt_def prod.case_eq_if Let_def await_bounded_simps split: sum.split bounded_error.split)

lemma acted_stage_attempts:
  assumes "acted p" "category \<in> set ERROR_CATEGORIES" "sg_name sg \<in> set PHASES" "sg_name sg \<noteq> PHASE_READY"
  shows "acted (snd (stage_attempts sg n category p))"
  using assms(1,2)
proof (induction n arbitrary: category p)
  case (Suc n)
  let ?k = "STARTUP_ATTEMPTS - Suc n"
  obtain x p1 where x: "stage_attempt sg ?k category p = (x, p1)" by force
  with acted_stage_attempt[OF Suc.prems assms(3,4), of ?k] have "acted p1" by simp
  moreover have "c \<in> set ERROR_CATEGORIES" if "x = Inr c" for c
    using stage_attempt_goes_on[of sg ?k category p c p1] x that startup_categories by (auto simp: attempt_failed_def)
  ultimately show ?case using x Suc.IH by (simp split: sum.split)
qed simp

lemma run_startup_stage_actions:
  assumes "run_startup_stage sg p = (r, p')" "acted p" "sg_name sg \<in> set PHASES" "sg_name sg \<noteq> PHASE_READY"
  shows "acted p'"
proof -
  have "ERROR_UNKNOWN \<in> set ERROR_CATEGORIES" by (simp add: protocol_sets)
  from acted_stage_attempts[OF assms(2) this assms(3,4), of STARTUP_ATTEMPTS] assms(1) show ?thesis
    by (simp add: run_startup_stage_def)
qed

lemma startup_failed_category:
  assumes "fst (run_startup_stage sg p) = Inl (Startup_Failed c wedged)"
  shows "c \<in> set ERROR_CATEGORIES"
proof -
  from assms have "run_startup_stage sg p = (Inl (Startup_Failed c wedged), snd (run_startup_stage sg p))"
    by (simp add: prod_eq_iff)
  from run_startup_stage_end[OF this] obtain k where "ended_at sg k (Inl (Startup_Failed c wedged))" by blast
  then show ?thesis by (cases wedged) (auto simp: attempt_failed_def startup_categories)
qed

fun event_counts_ok :: "session_event \<Rightarrow> bool" where
  "event_counts_ok (Snapshot_Request r) \<longleftrightarrow> result_counts_ok r"
| "event_counts_ok _ \<longleftrightarrow> True"

definition session_counts_ok :: "session \<Rightarrow> bool" where
  "session_counts_ok s \<longleftrightarrow> pred_option result_counts_ok (sn_baseline s) \<and> list_all event_counts_ok (sn_events s)"

definition script_counts_ok :: "script \<Rightarrow> bool" where
  "script_counts_ok sc \<longleftrightarrow> list_all (\<lambda>i. pred_option (pred_option session_counts_ok) (it_session i)) (sc_iterations sc)"

lemma legal_enums:
  "PHASE_OFFLINE \<in> set PHASES" "PHASE_DISCOVERING \<in> set PHASES" "PHASE_CONNECTING \<in> set PHASES"
  "ERROR_BLE_DISCONNECTED \<in> set ERROR_CATEGORIES" "ERROR_SHUTDOWN \<in> set ERROR_CATEGORIES" "ERROR_MQTT \<in> set ERROR_CATEGORIES"
  "ERROR_CONFIGURATION \<in> set ERROR_CATEGORIES" "ERROR_UNKNOWN \<in> set ERROR_CATEGORIES" "LINK_DISCONNECTED \<in> set LINK_STATES"
  by (simp_all add: protocol_sets)

lemma event_actions_ok: "list_all event_counts_ok es \<Longrightarrow> list_all action_ok (concat (map event_actions es))"
proof (induction es)
  case (Cons e es)
  then show ?case by (cases e) auto
qed simp

lemma session_actions_ok: "session_counts_ok s \<Longrightarrow> list_all action_ok (session_actions s)"
  using event_actions_ok[of "sn_events s"]
  by (auto simp: session_actions_def session_counts_ok_def list_all_replicate split: option.split)

lemma final_status_actions_ok: "list_all action_ok (final_status_actions e)"
  by (cases e) (simp_all add: enum_members legal_enums)

lemma acted_session_of:
  assumes "acted p" "pred_option (pred_option session_counts_ok) (it_session i)"
  shows "acted (snd (session_of i p))"
  using assms session_actions_ok final_status_actions_ok
  by (auto simp: session_of_def run_connected_bridge_def Let_def split: option.split)

lemma acted_mqtt_lost: "acted p \<Longrightarrow> acted (mqtt_lost p)"
  by (simp add: mqtt_lost_def enum_members legal_enums)

lemma acted_session_loop:
  assumes "acted p" "list_all (\<lambda>i. pred_option (pred_option session_counts_ok) (it_session i)) is"
  shows "acted (snd (session_loop is p))"
  using assms
proof (induction "is" arbitrary: p)
  case (Cons i "is")
  have "acted (snd (session_of i p))" using acted_session_of Cons.prems by simp
  with Cons.IH Cons.prems acted_mqtt_lost show ?case
    by (auto simp: prod.case_eq_if Let_def split: session_end.split)
qed simp

lemma acted_connected_part:
  assumes "acted p" "script_counts_ok sc"
  shows "acted (snd (connected_part sc p))"
proof (cases "run_startup_stage (connect_stage sc) p")
  case (Pair r p1)
  have "acted p1"
    using run_startup_stage_actions[OF Pair] assms(1) legal_enums(3) by (simp add: connect_stage_def)
  with acted_session_loop[of p1 "sc_iterations sc"] assms(2) Pair show ?thesis
    by (auto simp: connected_part_def script_counts_ok_def prod.case_eq_if Let_def split: sum.split stage_error.split)
qed

lemma acted_final_disconnect: "acted p \<Longrightarrow> acted (snd (final_disconnect sc m conn stopping p))"
  by (simp add: final_disconnect_def prod.case_eq_if)

lemma acted_main_body:
  assumes "acted p" "script_counts_ok sc"
  shows "acted (snd (main_body sc p))"
proof (cases "run_startup_stage (discovery_stage sc) p")
  case (Pair r p1)
  have "acted p1"
    using run_startup_stage_actions[OF Pair] assms(1) legal_enums(2) by (simp add: discovery_stage_def)
  with acted_connected_part[OF _ assms(2), of p1] acted_final_disconnect assms(1) Pair show ?thesis
    by (auto simp: main_body_def prod.case_eq_if Let_def split: sum.split stage_error.split found.split option.split)
qed

lemma connected_part_category:
  "fst (connected_part sc p) = (Some (Startup_Error c wedged), b) \<Longrightarrow> c \<in> set ERROR_CATEGORIES"
proof -
  have loop: "fst (session_loop is p) \<noteq> Some (Startup_Error c wedged)" for "is" p
    by (induction "is" arbitrary: p) (auto simp: prod.case_eq_if Let_def split: session_end.split)
  assume "fst (connected_part sc p) = (Some (Startup_Error c wedged), b)"
  then show ?thesis using loop startup_failed_category[of "connect_stage sc" p c wedged]
    by (auto simp: connected_part_def prod.case_eq_if Let_def split: sum.splits stage_error.splits if_splits)
qed

lemma main_body_category:
  assumes "main_body sc p = (Some (Ends (Startup_Error c wedged)), p')"
  shows "c \<in> set ERROR_CATEGORIES"
proof (cases "fst (run_startup_stage (discovery_stage sc) p)")
  case (Inl e)
  with assms startup_failed_category[of "discovery_stage sc" p c wedged] show ?thesis
    by (cases e) (auto simp: main_body_def prod.case_eq_if split: if_splits)
next
  case (Inr f)
  let ?cp = "connected_part sc (snd (run_startup_stage (discovery_stage sc) p))"
  from assms Inr have "fst (fst ?cp) = Some (Startup_Error c wedged)"
    by (cases f) (auto simp: main_body_def final_disconnect_def prod.case_eq_if Let_def
        split: if_splits option.splits sum.splits bounded_error.splits)
  then show ?thesis using connected_part_category[of sc _ c wedged "snd (fst ?cp)"] by (metis prod.collapse)
qed

lemma acted_main_process:
  assumes "script_counts_ok sc" "acted p"
  shows "acted (snd (main_process sc p))"
proof (cases "main_body sc p")
  case (Pair x p1)
  have p1: "acted p1" using acted_main_body[OF assms(2,1)] Pair by simp
  show ?thesis
  proof (cases x)
    case (Some e)
    with Pair main_body_category have "e = Ends (Startup_Error c wedged) \<Longrightarrow> c \<in> set ERROR_CATEGORIES" for c wedged
      by blast
    with p1 have "acted (snd (main_handlers sc e p1))"
      by (auto simp: main_handlers_def report_startup_failure_def Let_def legal_enums enum_members
          split: process_end.split main_end.split)
    with Pair Some show ?thesis by (simp add: main_process_def prod.case_eq_if)
  qed (use Pair p1 in \<open>simp add: main_process_def\<close>)
qed

section \<open>Property: the statuses of a whole process\<close>

text \<open>
  C19: every status of a bridge process is a valid v1 message. Whatever happens to a process from its configuration to
  its exit, every phase, error and link state it sets is one of the protocol's, it never makes itself ready but by
  recording a snapshot, and the statuses it builds, at any non-decreasing times, all parse as its own
  instance's with strictly growing sequences.
\<close>

theorem process_statuses_valid:
  assumes "script_counts_ok sc" "main_process sc (new_process now) = (x, p)"
    and "map snd as = pr_actions p" "instance_id_ok i"
    and "list_all (moment_ok start \<circ> fst) as" "sorted (map (hm_now \<circ> fst) as)" "int (length as) < MAX_COUNTER"
  shows "list_all action_ok (pr_actions p)
    \<and> (\<forall>s \<in> set (fst (health_history as (new_health i r start))).
         parse_status (Some (status_dict s)) = Some s \<and> bs_instance_id s = i)
    \<and> sorted_wrt (<) (map (the \<circ> bs_sequence) (fst (health_history as (new_health i r start))))"
proof -
  have legal: "list_all action_ok (pr_actions p)"
    using acted_main_process[OF assms(1), of "new_process now"] assms(2) by simp
  have "list_all (\<lambda>(t, a). moment_ok start t \<and> action_ok a) as"
    using legal assms(3,5) unfolding assms(3)[symmetric] by (auto simp: list_all_iff)
  moreover have "sorted (start # map (hm_now \<circ> fst) as)"
    using assms(5,6) by (auto simp: list_all_iff moment_ok_def)
  ultimately have "ordered_statuses i (bh_sequence (new_health i r start)) (fst (health_history as (new_health i r start)))"
    using health_history_ordered[OF health_inv_new assms(4), of start as r] assms(7) by simp
  then show ?thesis using legal by (auto simp: ordered_statuses_def list_all_iff parse_status_enc)
qed

text \<open>A process that finds its network and connects at once, and publishes a complete snapshot.\<close>

lemma run_startup_stage_first:
  assumes "fst (run_bounded (sg_operation sg 0) (sg_deadline sg)) = Inr v"
  shows "run_startup_stage sg p
    = (Inr v, snd (await_bounded (sg_operation sg 0) (sg_deadline sg) (act (Phase (sg_name sg) ERROR_NONE) p)))"
proof -
  have "run_startup_stage sg p = stage_attempts sg (Suc 5) ERROR_UNKNOWN p"
    by (simp add: run_startup_stage_def eval_nat_numeral)
  moreover have "STARTUP_ATTEMPTS - Suc 5 = 0" by simp
  ultimately show ?thesis
    using assms by (simp only: stage_attempts.simps) (simp add: stage_attempt_def prod.case_eq_if Let_def await_bounded_simps)
qed

definition sample_session :: session where
  "sample_session = \<lparr>sn_subscribed = True, sn_heartbeats = 0,
     sn_baseline = Some \<lparr>sn_units = 2, sn_scenes = 0, sn_failed = 0\<rparr>, sn_events = [Heartbeat],
     sn_wakeup = Session_Done Session_Returned\<rparr>"

definition sample_script :: script where
  "sample_script = \<lparr>sc_network_name = JStr ''net'', sc_heartbeat = ''30'', sc_address = ''aa'',
     sc_discovery = (\<lambda>_. quick_operation (Returned [\<lparr>dv_address = ''aa''\<rparr>])), sc_discovery_random = (\<lambda>_. 0),
     sc_discovery_stop = (\<lambda>_. None), sc_connect = (\<lambda>_. quick_operation (Returned ())),
     sc_connect_cleanup = (\<lambda>_. quick_operation (Returned ())), sc_connect_random = (\<lambda>_. 0),
     sc_connect_stop = (\<lambda>_. None), sc_stop_after_connect = False, sc_lost_early = False,
     sc_iterations = [\<lparr>it_lost_before = False, it_session = Some (Some sample_session), it_lost_after = False,
       it_pause_stopped = False\<rparr>],
     sc_disconnect = quick_operation (Returned ()), sc_report_connected = True, sc_report_stopped = False\<rparr>"

lemma heartbeat_30: "health_heartbeat_seconds ''30'' = Some 30"
  by (simp add: health_heartbeat_seconds_def py_int_def strip_def is_space_def py_nat_def is_digit_def in_range_def digit_value_def)

lemma quick_run: "0 < deadline \<Longrightarrow> 1 \<le> deadline \<Longrightarrow> fst (run_bounded (quick_operation (Returned v)) deadline) = Inr v"
  by (simp add: run_bounded_def quick_operation_def done_within_def stopped_before_def)

lemma sample_discovery:
  "discover_once ''aa'' (quick_operation (Returned [\<lparr>dv_address = ''aa''\<rparr>])) = quick_operation (Returned (Found \<lparr>dv_address = ''aa''\<rparr>))"
  by (simp add: discover_once_def quick_operation_def discovered_def configured_network_device_def)

lemma sample_script_actions:
  "fst (main_process sample_script (new_process 0)) = None"
  "pr_actions (snd (main_process sample_script (new_process 0))) =
     [Phase PHASE_DISCOVERING ERROR_NONE, Phase PHASE_CONNECTING ERROR_NONE, Session, Status,
      Snapshot \<lparr>sn_units = 2, sn_scenes = 0, sn_failed = 0\<rparr>, Status, Status]"
proof -
  have stages: "fst (run_bounded (sg_operation (discovery_stage sample_script) 0) (sg_deadline (discovery_stage sample_script)))
      = Inr (Found \<lparr>dv_address = ''aa''\<rparr>)"
    "fst (run_bounded (sg_operation (connect_stage sample_script) 0) (sg_deadline (connect_stage sample_script))) = Inr ()"
    by (simp_all add: discovery_stage_def connect_stage_def sample_script_def sample_discovery quick_run)
  note runs = run_startup_stage_first[OF stages(1)] run_startup_stage_first[OF stages(2)]
  have valid: "is_valid_network_name (sc_network_name sample_script)" "health_heartbeat_seconds (sc_heartbeat sample_script) = Some 30"
    by (simp_all add: sample_script_def is_valid_network_name_def heartbeat_30)
  have flags: "\<not> sc_stop_after_connect sample_script" "\<not> sc_lost_early sample_script"
    "sc_iterations sample_script = [\<lparr>it_lost_before = False, it_session = Some (Some sample_session), it_lost_after = False,
       it_pause_stopped = False\<rparr>]"
    by (simp_all add: sample_script_def)
  have names: "sg_name (discovery_stage sample_script) = PHASE_DISCOVERING" "sg_name (connect_stage sample_script) = PHASE_CONNECTING"
    by (simp_all add: discovery_stage_def connect_stage_def)
  have session: "session_actions sample_session =
      [Session, Status, Snapshot \<lparr>sn_units = 2, sn_scenes = 0, sn_failed = 0\<rparr>, Status, Status]"
    "race_session_against_disconnect (sn_wakeup sample_session) = Ended_Clean"
    by (simp_all add: session_actions_def sample_session_def)
  have new: "pr_actions (new_process 0) = []" by (simp add: new_process_def)
  show "fst (main_process sample_script (new_process 0)) = None"
    by (simp add: main_process_def main_body_def connected_part_def runs valid flags session_of_def run_connected_bridge_def
        session prod.case_eq_if Let_def)
  show "pr_actions (snd (main_process sample_script (new_process 0))) =
     [Phase PHASE_DISCOVERING ERROR_NONE, Phase PHASE_CONNECTING ERROR_NONE, Session, Status,
      Snapshot \<lparr>sn_units = 2, sn_scenes = 0, sn_failed = 0\<rparr>, Status, Status]"
    by (simp add: main_process_def main_body_def connected_part_def runs valid flags session_of_def run_connected_bridge_def
        session prod.case_eq_if Let_def await_bounded_simps names new acts_def)
qed

theorem process_statuses_valid_witness:
  "sorted_wrt (<) (map (the \<circ> bs_sequence) (fst (health_history
     (map (\<lambda>a. (sample_moment 1, a)) (pr_actions (snd (main_process sample_script (new_process 0)))))
     (new_health sample_instance None 0))))"
proof -
  let ?p = "snd (main_process sample_script (new_process 0))"
  let ?as = "map (\<lambda>a. (sample_moment 1, a)) (pr_actions ?p)"
  have counts: "script_counts_ok sample_script"
    by (simp add: script_counts_ok_def session_counts_ok_def sample_script_def sample_session_def result_counts_ok_def counter_ok_def)
  have run: "main_process sample_script (new_process 0) = (None, ?p)"
    using sample_script_actions(1) by (simp add: prod_eq_iff)
  have as: "map snd ?as = pr_actions ?p" by (simp add: comp_def)
  have moments: "list_all (moment_ok 0 \<circ> fst) ?as" "sorted (map (hm_now \<circ> fst) ?as)" "int (length ?as) < MAX_COUNTER"
    unfolding sample_script_actions(2) by (simp_all add: moment_ok_def sample_moment_def)
  show ?thesis
    using process_statuses_valid[OF counts run as sample_history_ok(2) moments, of None] by blast
qed

end
