(* ===== verification/Bridge_Exit.thy ===== *)
theory Bridge_Exit
  imports Bridge_Main Casambi_Units
begin

text \<open>
  How a bridge process ends: which tasks it leaves behind, what each end of \<^verbatim>\<open>_main\<close> says about the startup, and what the
  exit statuses of \<^verbatim>\<open>cli\<close> tell the supervisor that counts them.
\<close>

section \<open>Tasks left behind\<close>

text \<open>A task that never ends is left behind only when the operation wedged or the process was stopped.\<close>

abbreviation calm :: "process \<Rightarrow> bool" where
  "calm p \<equiv> pr_stuck p \<longrightarrow> pr_stop p"

lemma await_bounded_calm:
  assumes "calm p" "fst (await_bounded op deadline p) \<noteq> Inl Ble_Wedged"
  shows "calm (snd (await_bounded op deadline p))"
proof -
  have "leaves_behind op deadline \<Longrightarrow> fst (run_bounded op deadline) \<noteq> Inl Ble_Wedged
      \<Longrightarrow> fst (run_bounded op deadline) = Inl Cancelled \<and> op_stop op \<noteq> None"
    by (auto simp: leaves_behind_def run_bounded_def unwinds_def stopped_before_def Let_def split: if_splits)
  with assms show ?thesis by (auto simp: await_bounded_def prod.case_eq_if)
qed

lemma await_bounded_stop: "pr_stop p \<Longrightarrow> pr_stop (snd (await_bounded op deadline p))"
  by (simp add: await_bounded_def prod.case_eq_if)

lemma bounded_cleanup_calm:
  assumes "calm p" "fst (bounded_cleanup op p) \<noteq> Inl Ble_Wedged"
  shows "calm (snd (bounded_cleanup op p))"
  using assms await_bounded_calm[OF assms(1), of op BLE_CLEANUP_TIMEOUT]
  by (auto simp: bounded_cleanup_def prod.case_eq_if split: sum.splits bounded_error.splits)

lemma stage_cleanup_calm:
  assumes "calm p" "fst (stage_cleanup sg k p) \<noteq> Inl Ble_Wedged"
  shows "calm (snd (stage_cleanup sg k p))"
  using assms bounded_cleanup_calm[OF assms(1)] by (auto simp: stage_cleanup_def split: option.splits)

lemma backoff_sleep_calm: "calm p \<Longrightarrow> calm (snd (backoff_sleep sg k p))"
  by (simp add: backoff_sleep_def elapse_def Let_def split: option.split)

fun wedged_end :: "stage_error + 'a \<Rightarrow> bool" where
  "wedged_end (Inl (Startup_Failed _ wedged)) = wedged"
| "wedged_end _ = False"

lemma stage_attempt_calm:
  assumes "calm p" "stage_attempt sg k category p = (x, p')" "\<forall>r. x = Inl r \<longrightarrow> \<not> wedged_end r"
  shows "calm p'"
proof -
  define p1 where "p1 = act (Phase (sg_name sg) (if k \<noteq> 0 then category else ERROR_NONE)) p"
  define p2 where "p2 = snd (await_bounded (sg_operation sg k) (sg_deadline sg) p1)"
  define p3 where "p3 = snd (stage_cleanup sg k p2)"
  note run = assms(2)[unfolded stage_attempt_def Let_def prod.case_eq_if, folded p1_def, folded p2_def, folded p3_def]
  have p1: "calm p1" using assms(1) by (simp add: p1_def)
  note op = await_bounded_calm[OF p1, of "sg_operation sg k" "sg_deadline sg", folded p2_def]
  show ?thesis
  proof (cases "fst (await_bounded (sg_operation sg k) (sg_deadline sg) p1)")
    case (Inr v)
    with run op show ?thesis by simp
  next
    case (Inl e)
    show ?thesis
    proof (cases e)
      case (Op_Raised y)
      with op Inl have p2: "calm p2" by simp
      from run assms(3) Inl Op_Raised have "fst (stage_cleanup sg k p2) \<noteq> Inl Ble_Wedged" by auto
      from stage_cleanup_calm[OF p2 this] have p3: "calm p3" by (simp add: p3_def)
      have "calm (snd (backoff_sleep sg k (act a p3)))" for a using p3 by (intro backoff_sleep_calm) simp
      with run Inl Op_Raised p3 show ?thesis
        by (auto split: sum.splits bounded_error.splits if_splits)
    next
      case Cancelled
      with run Inl op show ?thesis by simp
    next
      case Ble_Wedged
      with run assms(3) Inl show ?thesis by auto
    qed
  qed
qed

lemma stage_attempts_calm:
  assumes "calm p" "stage_attempts sg n category p = (r, p')" "\<not> wedged_end r"
  shows "calm p'"
  using assms(1,2)
proof (induction n arbitrary: category p)
  case (Suc n)
  let ?k = "STARTUP_ATTEMPTS - Suc n"
  obtain x p1 where x: "stage_attempt sg ?k category p = (x, p1)" by force
  with Suc.prems(2) assms(3) have "\<forall>r. x = Inl r \<longrightarrow> \<not> wedged_end r" by auto
  with stage_attempt_calm[OF Suc.prems(1) x] have "calm p1" by blast
  with Suc.IH Suc.prems(2) x show ?case by (auto split: sum.splits)
qed simp

lemma run_startup_stage_calm:
  "calm p \<Longrightarrow> run_startup_stage sg p = (r, p') \<Longrightarrow> \<not> wedged_end r \<Longrightarrow> calm p'"
  unfolding run_startup_stage_def by (rule stage_attempts_calm)

lemma session_loop_calm: "calm p \<Longrightarrow> calm (snd (session_loop is p))"
proof (induction "is" arbitrary: p)
  case (Cons i "is")
  have "calm (snd (session_of i p))"
    using Cons.prems by (auto simp: session_of_def run_connected_bridge_def acts_def Let_def split: option.split)
  moreover have "calm (mqtt_lost q)" if "calm q" for q using that by (simp add: mqtt_lost_def acts_def)
  ultimately show ?case using Cons by (auto simp: prod.case_eq_if Let_def split: session_end.split)
qed simp

section \<open>Property: what an exit status means\<close>

text \<open>
  A stage failed on BLE: its six attempts all failed with transient errors, the last one of a BLE category, or an attempt or
  its cleanup ignored cancellation.
\<close>

definition ble_failed_stage :: "'a stage \<Rightarrow> bool" where
  "ble_failed_stage sg \<longleftrightarrow>
     (\<forall>j < STARTUP_ATTEMPTS. attempt_retried sg j) \<and> (\<exists>c \<in> set BLE_STARTUP_FAILURES. attempt_failed sg (STARTUP_ATTEMPTS - 1) c)
     \<or> (\<exists>k < STARTUP_ATTEMPTS. fst (run_bounded (sg_operation sg k) (sg_deadline sg)) = Inl Ble_Wedged \<or> cleanup_wedged sg k)"

definition wrongly_configured :: "'a stage \<Rightarrow> bool" where
  "wrongly_configured sg \<longleftrightarrow> (\<exists>k < STARTUP_ATTEMPTS. (\<forall>j < k. attempt_retried sg j) \<and> attempt_failed sg k ERROR_CONFIGURATION)"

lemma stage_failed_ble:
  assumes "fst (run_startup_stage sg p) = Inl (Startup_Failed c wedged)" "wedged \<or> c \<in> set BLE_STARTUP_FAILURES"
  shows "ble_failed_stage sg"
proof -
  from assms(1) have "run_startup_stage sg p = (Inl (Startup_Failed c wedged), snd (run_startup_stage sg p))"
    by (simp add: prod_eq_iff)
  from run_startup_stage_end[OF this] obtain k where
    k: "k < STARTUP_ATTEMPTS" "\<forall>j < k. attempt_retried sg j" "ended_at sg k (Inl (Startup_Failed c wedged))" by blast
  show ?thesis
  proof (cases wedged)
    case True
    with k(1,3) show ?thesis by (auto simp: ble_failed_stage_def)
  next
    case False
    with assms(2) have c: "c \<in> set BLE_STARTUP_FAILURES" "c \<in> set TRANSIENT_STARTUP_ERRORS"
      by (auto simp: BLE_STARTUP_FAILURES_def TRANSIENT_STARTUP_ERRORS_def)
    with k(3) False have last_one: "attempt_failed sg k c" "Suc k = STARTUP_ATTEMPTS" by auto
    then have "attempt_retried sg k" using c(2) by (auto simp: attempt_retried_def)
    with k(2) last_one(2) have "\<forall>j < STARTUP_ATTEMPTS. attempt_retried sg j" by (metis less_SucE)
    moreover have "k = STARTUP_ATTEMPTS - 1" using last_one(2) by simp
    ultimately show ?thesis using last_one(1) c(1) unfolding ble_failed_stage_def by blast
  qed
qed

lemma stage_failed_configuration:
  assumes "fst (run_startup_stage sg p) = Inl (Startup_Failed ERROR_CONFIGURATION False)"
  shows "wrongly_configured sg"
proof -
  from assms have "run_startup_stage sg p = (Inl (Startup_Failed ERROR_CONFIGURATION False), snd (run_startup_stage sg p))"
    by (simp add: prod_eq_iff)
  from run_startup_stage_end[OF this] show ?thesis by (auto simp: wrongly_configured_def)
qed

text \<open>The link was made: both stages returned.\<close>

definition link_made :: "script \<Rightarrow> process \<Rightarrow> bool" where
  "link_made sc p \<longleftrightarrow> (\<exists>d p1. run_startup_stage (discovery_stage sc) p = (Inr (Found d), p1)
     \<and> fst (run_startup_stage (connect_stage sc) p1) = Inr ())"

definition settings_wrong :: "script \<Rightarrow> bool" where
  "settings_wrong sc \<longleftrightarrow> \<not> is_valid_network_name (sc_network_name sc) \<or> health_heartbeat_seconds (sc_heartbeat sc) = None"

text \<open>What each way \<^verbatim>\<open>_main\<close> can end says.\<close>

fun end_means :: "script \<Rightarrow> process \<Rightarrow> process_end \<Rightarrow> bool" where
  "end_means sc p (Ends (Startup_Error c wedged)) \<longleftrightarrow> \<not> link_made sc p
     \<and> (wedged \<or> c \<in> set BLE_STARTUP_FAILURES \<longrightarrow> ble_failed_stage (discovery_stage sc) \<or> ble_failed_stage (connect_stage sc))
     \<and> (\<not> wedged \<and> c = ERROR_CONFIGURATION \<longrightarrow> wrongly_configured (discovery_stage sc) \<or> wrongly_configured (connect_stage sc))"
| "end_means sc p (Ends Link_Lost) \<longleftrightarrow> link_made sc p"
| "end_means sc p (Ends Configuration_Error) \<longleftrightarrow> settings_wrong sc"
| "end_means sc p (Hard_Exit c) \<longleftrightarrow> (c = 75 \<longrightarrow> link_made sc p) \<and> c \<in> {0, 75, 76}
     \<and> (c = 76 \<longrightarrow> \<not> link_made sc p \<and> fst (run_bounded (sc_disconnect sc) BLE_CLEANUP_TIMEOUT) = Inl Ble_Wedged)"
| "end_means sc p (Ends _) \<longleftrightarrow> True"

lemma session_loop_end: "fst (session_loop is p) \<noteq> Some (Startup_Error c wedged)" "fst (session_loop is p) \<noteq> Some Configuration_Error"
  by (induction "is" arbitrary: p) (auto simp: prod.case_eq_if Let_def split: session_end.split)

lemma connected_part_means:
  assumes "run_startup_stage (discovery_stage sc) p = (Inr (Found d), p1)" "connected_part sc p1 = ((Some m, conn, stopping), p2)"
  shows "end_means sc p (Ends m)" "conn \<longleftrightarrow> link_made sc p"
proof -
  have made: "link_made sc p \<longleftrightarrow> fst (run_startup_stage (connect_stage sc) p1) = Inr ()"
    using assms(1) by (simp add: link_made_def)
  obtain r q where r: "run_startup_stage (connect_stage sc) p1 = (r, q)" by force
  show "conn \<longleftrightarrow> link_made sc p"
    using assms(2) r made by (auto simp: connected_part_def prod.case_eq_if Let_def split: sum.splits stage_error.splits if_splits)
  show "end_means sc p (Ends m)"
  proof (cases r)
    case (Inl e)
    with r stage_failed_ble[of "connect_stage sc" p1] stage_failed_configuration[of "connect_stage sc" p1] assms(2) made show ?thesis
      by (cases e) (auto simp: connected_part_def)
  next
    case (Inr u)
    with r made have "link_made sc p" by simp
    moreover have "m \<noteq> Startup_Error c wedged" "m \<noteq> Configuration_Error" for c wedged
      using assms(2) r Inr session_loop_end(1)[of "sc_iterations sc" q c wedged]
        session_loop_end(2)[of "sc_iterations sc" q]
      by (auto simp: connected_part_def prod.case_eq_if Let_def split: if_splits)
    ultimately show ?thesis by (cases m) auto
  qed
qed

lemma final_disconnect_means:
  assumes "end_means sc p (Ends m)" "conn \<longleftrightarrow> link_made sc p" "final_disconnect sc m conn stopping p2 = (x, p3)"
  shows "end_means sc p x"
  using assms
  by (auto simp: final_disconnect_def bounded_cleanup_simps prod.case_eq_if split: sum.splits bounded_error.splits)

lemma main_body_means:
  assumes "main_body sc p = (Some x, p')"
  shows "end_means sc p x"
proof (cases "settings_wrong sc")
  case True
  with assms show ?thesis by (auto simp: main_body_def settings_wrong_def)
next
  case False
  obtain r p1 where r: "run_startup_stage (discovery_stage sc) p = (r, p1)" by force
  have run: "main_body sc p = (case run_startup_stage (discovery_stage sc) p of
        (Inl (Startup_Failed c wedged), p1) \<Rightarrow> (Some (Ends (Startup_Error c wedged)), p1)
      | (Inl Stage_Cancelled, p1) \<Rightarrow> (Some (Ends Stop_Error), p1)
      | (Inr (Listing _), p1) \<Rightarrow> (Some (Ends Listing_Exit), p1)
      | (Inr (Found _), p1) \<Rightarrow>
          (let ((e, conn, stopping), p2) = connected_part sc p1 in
           case e of
             None \<Rightarrow> (None, p2)
           | Some m \<Rightarrow> (let (x, p3) = final_disconnect sc m conn stopping p2 in (Some x, p3))))"
    unfolding main_body_def settings_wrong_def[symmetric] using False by (simp only: if_False)
  show ?thesis
  proof (cases r)
    case (Inl e)
    with r stage_failed_ble[of "discovery_stage sc" p] stage_failed_configuration[of "discovery_stage sc" p] assms show ?thesis
      unfolding run by (cases e) (auto simp: link_made_def)
  next
    case (Inr f)
    show ?thesis
    proof (cases f)
      case (Listing ds)
      with Inr r assms show ?thesis unfolding run by auto
    next
      case (Found d)
      obtain e conn stopping p2 where cp: "connected_part sc p1 = ((e, conn, stopping), p2)" by (metis prod.exhaust)
      with assms r Inr Found obtain m where m: "e = Some m" unfolding run by (cases e) auto
      with assms r Inr Found cp have "final_disconnect sc m conn stopping p2 = (x, p')"
        unfolding run by (auto split: prod.splits)
      with final_disconnect_means connected_part_means[of sc p d p1 m conn stopping p2] r Inr Found cp m show ?thesis by blast
    qed
  qed
qed

text \<open>Without a hard exit, a task left behind means a stop or a wedged startup.\<close>

definition no_self_cancel :: "'a operation \<Rightarrow> bool" where
  "no_self_cancel op \<longleftrightarrow> (\<forall>t. op_done op \<noteq> Some (t, Cancelled_Itself))"

lemma cancelled_means_stopped:
  assumes "no_self_cancel op" "fst (await_bounded op deadline p) = Inl Cancelled"
  shows "pr_stop (snd (await_bounded op deadline p))"
proof -
  have "op_outcome r = Inl Cancelled \<Longrightarrow> r = Cancelled_Itself" for r :: "'a op_result" by (cases r) simp_all
  with assms have "op_stop op \<noteq> None"
    by (auto simp: no_self_cancel_def await_bounded_def run_bounded_def done_within_def stopped_before_def prod.case_eq_if Let_def
        split: if_splits)
  with assms(2) show ?thesis by (simp add: await_bounded_def prod.case_eq_if)
qed

fun wedged_startup :: "process_end \<Rightarrow> bool" where
  "wedged_startup (Ends (Startup_Error _ wedged)) = wedged"
| "wedged_startup (Hard_Exit _) = True"
| "wedged_startup _ = False"

lemma connected_part_calm:
  assumes "calm p" "connected_part sc p = ((Some m, conn, stopping), p')" "\<not> wedged_startup (Ends m)"
  shows "calm p'"
proof -
  obtain r q where r: "run_startup_stage (connect_stage sc) p = (r, q)" by force
  have "\<not> wedged_end r" using assms(2,3) r by (auto simp: connected_part_def split: sum.splits stage_error.splits elim!: wedged_end.elims)
  from run_startup_stage_calm[OF assms(1) r this] have q: "calm q" .
  with r assms(2) session_loop_calm[OF q, of "sc_iterations sc"] show ?thesis
    by (auto simp: connected_part_def prod.case_eq_if Let_def split: sum.splits stage_error.splits if_splits)
qed

lemma final_disconnect_calm:
  assumes "wedged_startup (Ends m) \<or> calm p" "no_self_cancel (sc_disconnect sc)"
    and "final_disconnect sc m conn stopping p = (x, p')" "\<not> wedged_startup x"
  shows "calm p'"
proof (cases "fst (bounded_cleanup (sc_disconnect sc) p)")
  case (Inl e)
  show ?thesis
  proof (cases e)
    case Cancelled
    with Inl have "fst (await_bounded (sc_disconnect sc) BLE_CLEANUP_TIMEOUT p) = Inl Cancelled"
      by (auto simp: bounded_cleanup_def prod.case_eq_if split: sum.splits bounded_error.splits)
    from cancelled_means_stopped[OF assms(2) this] assms(3) show ?thesis
      by (auto simp: final_disconnect_def bounded_cleanup_simps prod.case_eq_if)
  qed (use Inl assms(3,4) in \<open>auto simp: final_disconnect_def bounded_cleanup_simps prod.case_eq_if
    split: sum.splits bounded_error.splits\<close>)
next
  case (Inr u)
  with assms(3,4) have "\<not> wedged_startup (Ends m)" by (auto simp: final_disconnect_def prod.case_eq_if)
  with assms(1) have "calm p" by blast
  from bounded_cleanup_calm[OF this, of "sc_disconnect sc"] Inr assms(3) show ?thesis
    by (auto simp: final_disconnect_def prod.case_eq_if)
qed

lemma main_body_calm:
  assumes "calm p" "no_self_cancel (sc_disconnect sc)" "main_body sc p = (Some x, p')" "\<not> wedged_startup x"
  shows "calm p'"
proof (cases "settings_wrong sc")
  case True
  with assms(1,3) show ?thesis by (auto simp: main_body_def settings_wrong_def)
next
  case False
  obtain r p1 where r: "run_startup_stage (discovery_stage sc) p = (r, p1)" by force
  note run = assms(3)[unfolded main_body_def settings_wrong_def[symmetric]]
  show ?thesis
  proof (cases r)
    case (Inl e)
    with run r False assms(4) have "\<not> wedged_end r" "p' = p1" by (cases e; auto)+
    with run_startup_stage_calm[OF assms(1) r] show ?thesis by blast
  next
    case (Inr f)
    with run_startup_stage_calm[OF assms(1) r] have p1: "calm p1" by simp
    show ?thesis
    proof (cases f)
      case (Listing ds)
      with run r False Inr p1 show ?thesis by auto
    next
      case (Found d)
      obtain e conn stopping p2 where cp: "connected_part sc p1 = ((e, conn, stopping), p2)" by (metis prod.exhaust)
      with run r False Inr Found obtain m where m: "e = Some m" by (cases e) auto
      with run r False Inr Found cp have "final_disconnect sc m conn stopping p2 = (x, p')"
        by (auto split: prod.splits)
      with final_disconnect_calm[OF _ assms(2) _ assms(4), of m p2 conn stopping p'] connected_part_calm[OF p1, of sc m conn stopping p2] cp m
      show ?thesis by blast
    qed
  qed
qed

lemma main_handlers_calm:
  assumes "wedged_startup x \<or> calm p" "main_handlers sc x p = (Ends m, p')"
  shows "calm p'"
  using assms
  by (auto simp: main_handlers_def report_startup_failure_def acts_def Let_def split: process_end.splits main_end.splits if_splits)

text \<open>What systemd logs of an exit, and what the supervisor makes of it.\<close>

definition exit_logged :: "stamp \<Rightarrow> int \<Rightarrow> exit_entry" where
  "exit_logged st c = \<lparr>ex_stamp = st, ex_code = ''exited'', ex_status = str_of_int c\<rparr>"

abbreviation "EXIT_STATUSES \<equiv> {0, 1, 75, 76, 78, 79 :: int}"

lemma exit_logged_counts:
  assumes "c \<in> EXIT_STATUSES"
  shows "ble_exit (exit_logged st c) \<longleftrightarrow> c = 76" "startup_exit (exit_logged st c) \<longleftrightarrow> c = 76 \<or> c = 79"
proof -
  have digit: "n < 10 \<Longrightarrow> str_of_nat n = [hex_digit n]" and tens: "\<not> n < 10 \<Longrightarrow> str_of_nat n = str_of_nat (n div 10) @ [hex_digit (n mod 10)]"
    for n by (subst str_of_nat.simps, simp)+
  have "str_of_int 0 = ''0''" "str_of_int 1 = ''1''" "str_of_int 75 = ''75''" "str_of_int 76 = ''76''"
    "str_of_int 78 = ''78''" "str_of_int 79 = ''79''"
    by (simp_all add: str_of_int_def digit tens hex_digit_def)
  then show "ble_exit (exit_logged st c) \<longleftrightarrow> c = 76" "startup_exit (exit_logged st c) \<longleftrightarrow> c = 76 \<or> c = 79"
    using assms unfolding insert_iff empty_iff by (elim disjE; simp add: exit_logged_def ble_exit_def startup_exit_def)+
qed

definition ble_trouble :: "script \<Rightarrow> bool" where
  "ble_trouble sc \<longleftrightarrow> ble_failed_stage (discovery_stage sc) \<or> ble_failed_stage (connect_stage sc)
     \<or> fst (run_bounded (sc_disconnect sc) BLE_CLEANUP_TIMEOUT) = Inl Ble_Wedged"

lemma exit_of_end:
  assumes "end_means sc q x" "main_handlers sc x p = (x', p')" "exit_status_of x' p' = Exit c"
  shows "c \<in> EXIT_STATUSES \<and> (c = 75 \<longrightarrow> link_made sc q) \<and> (c = 76 \<or> c = 79 \<longrightarrow> \<not> link_made sc q)
    \<and> (c = 78 \<longrightarrow> settings_wrong sc \<or> wrongly_configured (discovery_stage sc) \<or> wrongly_configured (connect_stage sc))
    \<and> (c = 76 \<longrightarrow> ble_trouble sc)"
proof (cases x)
  case (Hard_Exit d)
  with assms show ?thesis by (auto simp: main_handlers_def exit_status_of_def ble_trouble_def)
next
  case (Ends m)
  show ?thesis
  proof (cases m)
    case (Startup_Error k wedged)
    consider "x' = Ends Stop_Error" | "x' = Hard_Exit 76" "wedged" | "x' = x" "\<not> wedged"
      using assms(2) Ends Startup_Error by (auto simp: main_handlers_def Let_def split: if_splits)
    then show ?thesis
    proof cases
      case 1
      with assms(3) show ?thesis by (auto simp: exit_status_of_def split: if_splits)
    next
      case 2
      with assms(1,3) Ends Startup_Error show ?thesis by (auto simp: exit_status_of_def ble_trouble_def)
    next
      case 3
      with assms(3) Ends Startup_Error have c: "c = (if k = ERROR_CONFIGURATION then 78 else if k \<in> set BLE_STARTUP_FAILURES then 76 else 79)"
        by (simp add: exit_status_of_def split: if_splits)
      from 3 assms(1) Ends Startup_Error show ?thesis unfolding c by (auto simp: ble_trouble_def)
    qed
  qed (use assms Ends in \<open>auto simp: main_handlers_def exit_status_of_def split: if_splits\<close>)
qed

text \<open>
  C5: an exit status tells the supervisor the truth. Status 75 means the link had been made; 76 and 79, which the supervisor
  counts as startup failures, mean it never was, and 76, the only evidence for a Bluetooth reset, that a stage failed
  on BLE or a BLE operation ignored its cancellation; 78 means a wrong setting or refused
  credentials. And unless a stop was requested the process always exits, even when a BLE operation never ends.
\<close>

theorem exit_status_meaning:
  assumes "main_process sc (new_process now) = (Some x, p)" "no_self_cancel (sc_disconnect sc)"
  shows "(exit_status_of x p = Never_Exits \<longrightarrow> pr_stop p)
    \<and> (\<forall>c st. exit_status_of x p = Exit c \<longrightarrow> c \<in> EXIT_STATUSES
         \<and> (c = 75 \<longrightarrow> link_made sc (new_process now))
         \<and> (startup_exit (exit_logged st c) \<longrightarrow> \<not> link_made sc (new_process now))
         \<and> (ble_exit (exit_logged st c) \<longrightarrow> ble_trouble sc)
         \<and> (c = 78 \<longrightarrow> settings_wrong sc \<or> wrongly_configured (discovery_stage sc) \<or> wrongly_configured (connect_stage sc)))"
proof -
  obtain y q where body: "main_body sc (new_process now) = (Some y, q)" and handlers: "main_handlers sc y q = (x, p)"
    using assms(1) by (auto simp: main_process_def split: prod.splits option.splits)
  have "calm (new_process now)" by (simp add: new_process_def)
  from main_body_calm[OF this assms(2) body] have "wedged_startup y \<or> calm q" by blast
  with main_handlers_calm[of y q sc] handlers have "exit_status_of x p = Never_Exits \<longrightarrow> pr_stop p"
    by (auto simp: exit_status_of_def split: process_end.splits if_splits)
  with exit_of_end[OF main_body_means[OF body] handlers] exit_logged_counts show ?thesis by blast
qed

section \<open>A connection that ignores its cancellation\<close>

definition stuck_operation :: "time option \<Rightarrow> 'a operation" where
  "stuck_operation stop = \<lparr>op_done = None, op_unwind = None, op_stop = stop\<rparr>"

definition stuck_script :: "time option \<Rightarrow> script" where
  "stuck_script stop = sample_script\<lparr>sc_connect := (\<lambda>_. stuck_operation stop)\<rparr>"

lemma run_startup_stage_aborted:
  assumes "fst (run_bounded (sg_operation sg 0) (sg_deadline sg)) = Inl e" "e = Ble_Wedged \<or> e = Cancelled"
  shows "run_startup_stage sg p
    = (Inl (if e = Cancelled then Stage_Cancelled else Startup_Failed (classify_startup_error timeout_error (sg_name sg)) True),
       snd (await_bounded (sg_operation sg 0) (sg_deadline sg) (act (Phase (sg_name sg) ERROR_NONE) p)))"
proof -
  have "run_startup_stage sg p = stage_attempts sg (Suc 5) ERROR_UNKNOWN p"
    by (simp add: run_startup_stage_def eval_nat_numeral)
  moreover have "STARTUP_ATTEMPTS - Suc 5 = 0" by simp
  ultimately show ?thesis
    using assms by (simp only: stage_attempts.simps) (auto simp: stage_attempt_def prod.case_eq_if Let_def await_bounded_simps)
qed

lemma stuck_script_parts:
  "discovery_stage (stuck_script stop) = discovery_stage sample_script"
  "sc_disconnect (stuck_script stop) = quick_operation (Returned ())" "\<not> sc_report_stopped (stuck_script stop)"
  "sc_network_name (stuck_script stop) = sc_network_name sample_script" "sc_heartbeat (stuck_script stop) = sc_heartbeat sample_script"
  "sg_operation (connect_stage (stuck_script stop)) 0 = stuck_operation stop" "sg_deadline (connect_stage (stuck_script stop)) = 90"
  by (simp_all add: stuck_script_def discovery_stage_def connect_stage_def sample_script_def)

lemma stuck_script_body:
  assumes "fst (run_bounded (stuck_operation stop :: unit operation) 90) = Inl e" "e = Ble_Wedged \<or> e = Cancelled"
  shows "\<exists>p. main_body (stuck_script stop) (new_process 0)
      = (Some (Ends (if e = Cancelled then Stop_Error
           else Startup_Error (classify_startup_error timeout_error (sg_name (connect_stage (stuck_script stop)))) True)), p)
    \<and> pr_stuck p"
proof -
  have found: "run_startup_stage (discovery_stage sample_script) p = (Inr (Found \<lparr>dv_address = ''aa''\<rparr>),
      snd (await_bounded (sg_operation (discovery_stage sample_script) 0) 30 (act (Phase PHASE_DISCOVERING ERROR_NONE) p)))" for p
    by (subst run_startup_stage_first) (simp_all add: discovery_stage_def sample_script_def sample_discovery quick_run)
  have e: "fst (run_bounded (sg_operation (connect_stage (stuck_script stop)) 0) (sg_deadline (connect_stage (stuck_script stop)))) = Inl e"
    using assms(1) by (simp add: stuck_script_parts)
  have settings: "is_valid_network_name (sc_network_name sample_script)" "health_heartbeat_seconds (sc_heartbeat sample_script) = Some 30"
    by (simp_all add: sample_script_def is_valid_network_name_def heartbeat_30)
  have quick: "await_bounded (quick_operation (Returned ())) BLE_CLEANUP_TIMEOUT p = (Inr (), elapse 1 p)" for p
    by (simp add: await_bounded_def run_bounded_def quick_operation_def done_within_def stopped_before_def leaves_behind_def elapse_def)
  have stuck: "pr_stuck (snd (await_bounded (stuck_operation stop) deadline p))" for deadline p
    by (simp add: await_bounded_def leaves_behind_def stuck_operation_def done_within_def prod.case_eq_if)
  show ?thesis
    using assms(2) stuck
    by (auto simp: main_body_def connected_part_def found run_startup_stage_aborted[OF e assms(2)] settings stuck_script_parts
        final_disconnect_def bounded_cleanup_def quick elapse_def prod.case_eq_if Let_def)
qed

text \<open>Left alone, the process leaves with the status of a BLE startup failure; stopped meanwhile, it never ends.\<close>

lemma stuck_script_run:
  "\<exists>p. main_process (stuck_script None) (new_process 0) = (Some (Hard_Exit 76), p)"
  "bridge_exit (stuck_script (Some 5)) 0 = Some Never_Exits"
proof -
  have wedged: "fst (run_bounded (stuck_operation None :: unit operation) 90) = Inl Ble_Wedged"
    by (simp add: run_bounded_def stuck_operation_def done_within_def stopped_before_def unwinds_def)
  from stuck_script_body[OF wedged] show "\<exists>p. main_process (stuck_script None) (new_process 0) = (Some (Hard_Exit 76), p)"
    by (auto simp: main_process_def main_handlers_def stuck_script_parts Let_def)
  have cancelled: "fst (run_bounded (stuck_operation (Some 5) :: unit operation) 90) = Inl Cancelled"
    by (simp add: run_bounded_def stuck_operation_def done_within_def stopped_before_def)
  from stuck_script_body[OF cancelled] show "bridge_exit (stuck_script (Some 5)) 0 = Some Never_Exits"
    by (auto simp: bridge_exit_def main_process_def main_handlers_def exit_status_of_def)
qed

theorem exit_status_meaning_witness:
  "bridge_exit (stuck_script None) 0 = Some (Exit 76) \<and> ble_trouble (stuck_script None) \<and> \<not> link_made (stuck_script None) (new_process 0)"
proof -
  obtain p where run: "main_process (stuck_script None) (new_process 0) = (Some (Hard_Exit 76), p)"
    using stuck_script_run(1) by blast
  have "no_self_cancel (sc_disconnect (stuck_script None))"
    by (simp add: stuck_script_parts no_self_cancel_def quick_operation_def)
  from exit_status_meaning[OF run this] have "ble_trouble (stuck_script None) \<and> \<not> link_made (stuck_script None) (new_process 0)"
    using exit_logged_counts[of 76] by (simp add: exit_status_of_def)
  with run show ?thesis by (simp add: bridge_exit_def exit_status_of_def)
qed

end
