(* ===== verification/Bridge_Snapshot.thy ===== *)
theory Bridge_Snapshot
  imports Casambi_Units Bridge_Health
begin

text \<open>
  \<^verbatim>\<open>src/server.py\<close>, \<^verbatim>\<open>publish_snapshot\<close>: the full state of the network, one retained
  message at a time, counting only what the broker confirmed. \<open>confirmed k\<close> says whether the broker
  confirms the publish number \<open>k\<close> of the snapshot; otherwise it is an \<^verbatim>\<open>MqttError\<close>.
\<close>

section \<open>The snapshot\<close>

text \<open>The message that clears the legacy topic, a unit's entity, a scene's entity.\<close>

datatype snapshot_message =
  Tombstone string
| Unit_Message string unit_entity
| Scene_Message string scene_entity

fun message_topic :: "snapshot_message \<Rightarrow> string" where
  "message_topic (Tombstone topic) = topic"
| "message_topic (Unit_Message topic _) = topic"
| "message_topic (Scene_Message topic _) = topic"

record snapshot_run =
  sr_sent :: "snapshot_message list"
  sr_units :: int
  sr_scenes :: int
  sr_failed :: int

text \<open>\<^verbatim>\<open>addressless_uuid_counts.get(unit_uuid)\<close>, after the first loop over the units.\<close>

definition addressless_uuid_count :: "casa_unit list \<Rightarrow> json \<Rightarrow> nat" where
  "addressless_uuid_count units uuid =
     length (filter (\<lambda>u. cu_address u = [] \<and> is_str (cu_uuid u) \<and> cu_uuid u = uuid) units)"

text \<open>Whether the second loop reaches \<^verbatim>\<open>publish_unit\<close> for a unit.\<close>

definition publishable :: "casa_unit list \<Rightarrow> casa_unit \<Rightarrow> bool" where
  "publishable units u \<longleftrightarrow> cu_address u \<noteq> []
     \<or> (is_str (cu_uuid u) \<and> addressless_uuid_count units (cu_uuid u) = 1)"

definition send_tombstone :: "(nat \<Rightarrow> bool) \<Rightarrow> string \<Rightarrow> snapshot_run \<Rightarrow> snapshot_run" where
  "send_tombstone confirmed network s =
     s\<lparr>sr_sent := sr_sent s @ [Tombstone (events_topic network)],
       sr_failed := sr_failed s + (if confirmed (length (sr_sent s)) then 0 else 1)\<rparr>"

definition send_unit :: "(nat \<Rightarrow> bool) \<Rightarrow> string \<Rightarrow> casa_unit list \<Rightarrow> casa_unit \<Rightarrow> snapshot_run \<Rightarrow> snapshot_run" where
  "send_unit confirmed network units u s =
     (if \<not> publishable units u then s
      else (case unit_event_topic network u of
              None \<Rightarrow> s
            | Some topic \<Rightarrow>
                (let s' = s\<lparr>sr_sent := sr_sent s @ [Unit_Message topic (to_entity u)]\<rparr> in
                 if confirmed (length (sr_sent s)) then s'\<lparr>sr_units := sr_units s + 1\<rparr>
                 else s'\<lparr>sr_failed := sr_failed s + 1\<rparr>)))"

definition send_scene :: "(nat \<Rightarrow> bool) \<Rightarrow> string \<Rightarrow> casa_scene \<Rightarrow> snapshot_run \<Rightarrow> snapshot_run" where
  "send_scene confirmed network c s =
     (let s' = s\<lparr>sr_sent := sr_sent s @ [Scene_Message (scene_topic network (to_scene c)) (to_scene c)]\<rparr> in
      if confirmed (length (sr_sent s)) then s'\<lparr>sr_scenes := sr_scenes s + 1\<rparr>
      else s'\<lparr>sr_failed := sr_failed s + 1\<rparr>)"

definition snapshot_run_of :: "(nat \<Rightarrow> bool) \<Rightarrow> string \<Rightarrow> casa_network \<Rightarrow> snapshot_run" where
  "snapshot_run_of confirmed network net =
     fold (send_scene confirmed network) (cn_scenes net)
       (fold (send_unit confirmed network (cn_units net)) (cn_units net)
         (send_tombstone confirmed network \<lparr>sr_sent = [], sr_units = 0, sr_scenes = 0, sr_failed = 0\<rparr>))"

definition publish_snapshot :: "(nat \<Rightarrow> bool) \<Rightarrow> string \<Rightarrow> casa_network \<Rightarrow> snapshot_message list \<times> snapshot_result" where
  "publish_snapshot confirmed network net =
     (let s = snapshot_run_of confirmed network net in
      (sr_sent s, \<lparr>sn_units = sr_units s, sn_scenes = sr_scenes s, sn_failed = sr_failed s\<rparr>))"

section \<open>What it sends and counts\<close>

definition unit_messages :: "string \<Rightarrow> casa_unit list \<Rightarrow> casa_unit list \<Rightarrow> snapshot_message list" where
  "unit_messages network units us =
     map (\<lambda>u. Unit_Message (the (unit_event_topic network u)) (to_entity u))
       (filter (\<lambda>u. publishable units u \<and> unit_event_topic network u \<noteq> None) us)"

definition scene_messages :: "string \<Rightarrow> casa_scene list \<Rightarrow> snapshot_message list" where
  "scene_messages network cs = map (\<lambda>c. Scene_Message (scene_topic network (to_scene c)) (to_scene c)) cs"

text \<open>The messages a run sent with the outcome of each.\<close>

definition with_outcomes :: "(nat \<Rightarrow> bool) \<Rightarrow> snapshot_message list \<Rightarrow> (snapshot_message \<times> bool) list" where
  "with_outcomes confirmed ms = zip ms (map confirmed [0..<length ms])"

definition counts :: "(snapshot_message \<times> bool) list \<Rightarrow> int \<times> int \<times> int" where
  "counts ms = (int (length (filter (\<lambda>(m, ok). ok \<and> (\<exists>t e. m = Unit_Message t e)) ms)),
     int (length (filter (\<lambda>(m, ok). ok \<and> (\<exists>t e. m = Scene_Message t e)) ms)),
     int (length (filter (\<lambda>(m, ok). \<not> ok) ms)))"

definition counted_run :: "(nat \<Rightarrow> bool) \<Rightarrow> snapshot_run \<Rightarrow> bool" where
  "counted_run confirmed s \<longleftrightarrow> counts (with_outcomes confirmed (sr_sent s)) = (sr_units s, sr_scenes s, sr_failed s)"

lemma with_outcomes_snoc [simp]:
  "with_outcomes confirmed (ms @ [m]) = with_outcomes confirmed ms @ [(m, confirmed (length ms))]"
  by (simp add: with_outcomes_def)

lemma counts_snoc: "counts (ms @ [(m, ok)]) =
    (case counts ms of (u, s, f) \<Rightarrow>
       (if ok \<and> (\<exists>t e. m = Unit_Message t e) then u + 1 else u,
        if ok \<and> (\<exists>t e. m = Scene_Message t e) then s + 1 else s, if ok then f else f + 1))"
  by (simp add: counts_def)

lemma counted_tombstone: "counted_run confirmed s \<Longrightarrow> counted_run confirmed (send_tombstone confirmed network s)"
  by (simp add: counted_run_def send_tombstone_def counts_snoc)

lemma counted_unit: "counted_run confirmed s \<Longrightarrow> counted_run confirmed (send_unit confirmed network units u s)"
  by (simp add: counted_run_def send_unit_def counts_snoc Let_def split: option.splits)

lemma counted_scene: "counted_run confirmed s \<Longrightarrow> counted_run confirmed (send_scene confirmed network c s)"
  by (simp add: counted_run_def send_scene_def counts_snoc Let_def)

lemma fold_counted: "(\<And>x s. P s \<Longrightarrow> P (f x s)) \<Longrightarrow> P s \<Longrightarrow> P (fold f xs s)"
  by (induction xs arbitrary: s) auto

lemma snapshot_counted: "counted_run confirmed (snapshot_run_of confirmed network net)"
  unfolding snapshot_run_of_def
  by (intro fold_counted[where P = "counted_run confirmed"] counted_scene counted_unit counted_tombstone)
    (simp_all add: counted_run_def with_outcomes_def counts_def)

lemma sent_units: "sr_sent (fold (send_unit confirmed network units) us s) = sr_sent s @ unit_messages network units us"
  by (induction us arbitrary: s) (auto simp: send_unit_def unit_messages_def Let_def split: option.splits)

lemma sent_scenes: "sr_sent (fold (send_scene confirmed network) cs s) = sr_sent s @ scene_messages network cs"
  by (induction cs arbitrary: s) (auto simp: send_scene_def scene_messages_def Let_def)

lemma snapshot_sent: "sr_sent (snapshot_run_of confirmed network net) =
    Tombstone (events_topic network) # unit_messages network (cn_units net) (cn_units net) @ scene_messages network (cn_scenes net)"
  by (simp add: snapshot_run_of_def sent_units sent_scenes send_tombstone_def)

section \<open>Distinct topics\<close>

text \<open>Addresses of casambi-bt's units: no two equal ones, no topic separator within one.\<close>

definition addresses_ok :: "casa_unit list \<Rightarrow> bool" where
  "addresses_ok units \<longleftrightarrow> sorted_wrt (\<lambda>u v. cu_address u = cu_address v \<longrightarrow> cu_address u = []) units
     \<and> list_all (\<lambda>u. CHR ''/'' \<notin> set (cu_address u)) units"

lemma unit_event_topic_eq:
  assumes "unit_event_topic network u = Some t" "unit_event_topic network v = Some t"
    and "CHR ''/'' \<notin> set (cu_address u)" "CHR ''/'' \<notin> set (cu_address v)"
  shows "cu_address u = cu_address v \<and> (cu_address u = [] \<longrightarrow> cu_uuid u = cu_uuid v)"
proof -
  have sep: "a \<noteq> ''uuid/'' @ q" if "CHR ''/'' \<notin> set a" for a q :: string
  proof
    assume "a = ''uuid/'' @ q"
    then have "CHR ''/'' \<in> set a" by simp
    with that show False by simp
  qed
  show ?thesis
    using assms sep[of "cu_address u"] sep[of "cu_address v"]
      sep[of "cu_address u", symmetric] sep[of "cu_address v", symmetric]
    by (auto simp: unit_event_topic_def is_str_iff split: if_splits)
qed

lemma two_in_filter:
  assumes "i < j" "j < length xs" "P (xs ! i)" "P (xs ! j)"
  shows "length (filter P xs) \<noteq> 1"
proof
  assume "length (filter P xs) = 1"
  then have "card {k. k < length xs \<and> P (xs ! k)} = 1" by (simp add: length_filter_conv_card)
  then obtain k where "{k. k < length xs \<and> P (xs ! k)} = {k}" by (auto simp: card_1_singleton_iff)
  moreover have "i \<in> {k. k < length xs \<and> P (xs ! k)}" "j \<in> {k. k < length xs \<and> P (xs ! k)}"
    using assms by simp_all
  ultimately show False using assms(1) by auto
qed

lemma publishable_topics_apart:
  assumes "addresses_ok units" "i < j" "j < length units"
    and "publishable units (units ! i)" "publishable units (units ! j)"
    and "unit_event_topic network (units ! i) = Some t"
  shows "unit_event_topic network (units ! j) \<noteq> Some t"
proof
  let ?u = "units ! i" and ?v = "units ! j"
  assume "unit_event_topic network ?v = Some t"
  with assms unit_event_topic_eq[of network ?u t ?v]
  have same: "cu_address ?u = cu_address ?v" "cu_address ?u = [] \<longrightarrow> cu_uuid ?u = cu_uuid ?v"
    by (auto simp: addresses_ok_def list_all_length)
  moreover have "cu_address ?u = cu_address ?v \<longrightarrow> cu_address ?u = []"
    using assms(1-3) by (simp add: addresses_ok_def sorted_wrt_iff_nth_less)
  ultimately have "cu_address ?u = []" "cu_address ?v = []" "cu_uuid ?u = cu_uuid ?v" by auto
  with assms(4) two_in_filter[OF assms(2,3), of "\<lambda>u. cu_address u = [] \<and> is_str (cu_uuid u) \<and> cu_uuid u = cu_uuid ?v"]
  show False by (auto simp: publishable_def addressless_uuid_count_def)
qed

lemma distinct_unit_topics:
  assumes "addresses_ok units"
  shows "distinct (map message_topic (unit_messages network units units))"
proof -
  have "sorted_wrt (\<lambda>u v. publishable units u \<and> publishable units v \<and> unit_event_topic network u \<noteq> None
      \<longrightarrow> unit_event_topic network u \<noteq> unit_event_topic network v) units"
    unfolding sorted_wrt_iff_nth_less using publishable_topics_apart[OF assms] by fastforce
  then have "sorted_wrt (\<lambda>u v. unit_event_topic network u \<noteq> unit_event_topic network v)
      (filter (\<lambda>u. publishable units u \<and> unit_event_topic network u \<noteq> None) units)"
    by (intro sorted_wrt_mono_rel[OF _ sorted_wrt_filter]) auto
  then have "sorted_wrt (\<noteq>) (map message_topic (unit_messages network units units))"
    unfolding unit_messages_def map_map sorted_wrt_map
    by (rule sorted_wrt_mono_rel[rotated]) auto
  moreover have apart: "sorted_wrt (\<noteq>) ts \<Longrightarrow> distinct ts" for ts :: "string list" by (induction ts) auto
  ultimately show ?thesis by (intro apart)
qed

section \<open>Property\<close>

lemma all_confirmed:
  assumes "length (filter (\<lambda>(m, ok). \<not> ok) (with_outcomes confirmed ms)) = 0"
  shows "\<forall>k < length ms. confirmed k" "map fst (filter (\<lambda>(m, ok). ok \<and> Q m) (with_outcomes confirmed ms)) = filter Q ms"
proof -
  from assms have ok: "\<forall>x \<in> set (with_outcomes confirmed ms). snd x"
    by (auto simp: filter_empty_conv split: prod.splits)
  show "\<forall>k < length ms. confirmed k"
  proof (intro allI impI)
    fix k assume "k < length ms"
    then have "(ms ! k, confirmed k) \<in> set (with_outcomes confirmed ms)" by (auto simp: with_outcomes_def set_zip)
    with ok show "confirmed k" by fastforce
  qed
  have "filter (\<lambda>(m, ok). ok \<and> Q m) (with_outcomes confirmed ms) = filter (Q \<circ> fst) (with_outcomes confirmed ms)"
    using ok by (intro filter_cong) auto
  then show "map fst (filter (\<lambda>(m, ok). ok \<and> Q m) (with_outcomes confirmed ms)) = filter Q ms"
    by (simp add: filter_map[symmetric] with_outcomes_def)
qed

text \<open>
  C16: a snapshot without a failed publish is complete. Every message was confirmed, the legacy topic was cleared
  first, every unit with an address or a UUID no other addressless unit shares had its current entity
  published on its own topic, every scene too, and the number of units reported is exactly the number of
  distinct unit topics, which is what a consumer that misses none counts.
\<close>

theorem confirmed_snapshot_complete:
  assumes "publish_snapshot confirmed network net = (ms, r)" "snapshot_result_ok r" "addresses_ok (cn_units net)"
  shows "(\<forall>k < length ms. confirmed k) \<and> hd ms = Tombstone (events_topic network)
    \<and> (\<forall>u \<in> set (cn_units net). \<forall>t. publishable (cn_units net) u \<longrightarrow> unit_event_topic network u = Some t
         \<longrightarrow> Unit_Message t (to_entity u) \<in> set ms)
    \<and> (\<forall>c \<in> set (cn_scenes net). Scene_Message (scene_topic network (to_scene c)) (to_scene c) \<in> set ms)
    \<and> sn_units r = int (card {t. \<exists>e. Unit_Message t e \<in> set ms}) \<and> sn_scenes r = int (length (cn_scenes net))"
proof -
  let ?s = "snapshot_run_of confirmed network net"
  let ?us = "unit_messages network (cn_units net) (cn_units net)" and ?cs = "scene_messages network (cn_scenes net)"
  let ?unit = "\<lambda>m. \<exists>t e. m = Unit_Message t e" and ?scene = "\<lambda>m. \<exists>t e. m = Scene_Message t e"
  have ms: "ms = Tombstone (events_topic network) # ?us @ ?cs" and r: "r = \<lparr>sn_units = sr_units ?s, sn_scenes = sr_scenes ?s, sn_failed = sr_failed ?s\<rparr>"
    using assms(1) by (auto simp: publish_snapshot_def snapshot_sent Let_def)
  then have sent: "sr_sent ?s = ms" by (simp add: snapshot_sent)
  have c: "counts (with_outcomes confirmed ms) = (sn_units r, sn_scenes r, sn_failed r)"
    using snapshot_counted[of confirmed network net] unfolding counted_run_def sent r by simp
  with assms(2) have none: "length (filter (\<lambda>(m, ok). \<not> ok) (with_outcomes confirmed ms)) = 0"
    by (simp add: counts_def snapshot_result_ok_def)
  note ok = all_confirmed[OF none]
  have only: "filter ?unit ?us = ?us" "filter ?unit ?cs = []" "filter ?scene ?us = []" "filter ?scene ?cs = ?cs"
    by (auto simp: unit_messages_def scene_messages_def filter_id_conv filter_empty_conv)
  then have units: "filter ?unit ms = ?us" and scenes: "filter ?scene ms = ?cs" by (simp_all add: ms)
  from c have "sn_units r = int (length (filter (\<lambda>(m, ok). ok \<and> ?unit m) (with_outcomes confirmed ms)))"
    "sn_scenes r = int (length (filter (\<lambda>(m, ok). ok \<and> ?scene m) (with_outcomes confirmed ms)))"
    by (simp_all add: counts_def)
  with arg_cong[OF ok(2)[of ?unit], of length] arg_cong[OF ok(2)[of ?scene], of length] units scenes
  have n: "sn_units r = int (length ?us)" "sn_scenes r = int (length ?cs)" by simp_all
  have "message_topic ` set ?us = {t. \<exists>e. Unit_Message t e \<in> set ms}"
    unfolding ms by (force simp: unit_messages_def scene_messages_def)
  with distinct_card[OF distinct_unit_topics[OF assms(3), of network]] n(1)
  have "sn_units r = int (card {t. \<exists>e. Unit_Message t e \<in> set ms})" by simp
  moreover have "Unit_Message t (to_entity u) \<in> set ?us"
    if "u \<in> set (cn_units net)" "publishable (cn_units net) u" "unit_event_topic network u = Some t" for u t
    using that by (force simp: unit_messages_def)
  ultimately show ?thesis using ok(1) n(2) by (auto simp: ms scene_messages_def)
qed

theorem confirmed_snapshot_complete_witness:
  "Unit_Message ''casambi/net/events/b'' (to_entity (sample_unit ''b'' 5))
     \<in> set (fst (publish_snapshot (\<lambda>_. True) ''net'' \<lparr>cn_units = [sample_unit ''a'' 3, sample_unit ''b'' 5], cn_scenes = []\<rparr>))
   \<and> sn_units (snd (publish_snapshot (\<lambda>_. True) ''net'' \<lparr>cn_units = [sample_unit ''a'' 3, sample_unit ''b'' 5], cn_scenes = []\<rparr>)) = 2"
proof -
  let ?net = "\<lparr>cn_units = [sample_unit ''a'' 3, sample_unit ''b'' 5], cn_scenes = []\<rparr>"
  let ?r = "publish_snapshot (\<lambda>_. True) ''net'' ?net"
  have run: "snapshot_result_ok (snd ?r)" "sn_units (snd ?r) = 2" "addresses_ok (cn_units ?net)"
    by (simp_all add: publish_snapshot_def snapshot_run_of_def send_tombstone_def send_unit_def publishable_def
        snapshot_result_ok_def addresses_ok_def Let_def)
  have "unit_event_topic ''net'' (sample_unit ''b'' 5) = Some ''casambi/net/events/b''" "publishable (cn_units ?net) (sample_unit ''b'' 5)"
    by (simp_all add: events_topic_def publishable_def)
  with confirmed_snapshot_complete[of "\<lambda>_. True" "''net''" ?net "fst ?r" "snd ?r"] run show ?thesis by simp
qed

end
