(* ===== verification/Bridge_Commands.thy ===== *)
theory Bridge_Commands
  imports Bridge_Snapshot
begin

text \<open>
  \<^verbatim>\<open>src/server.py\<close>, the MQTT commands: schema validation, the resolution of a target, the
  actuation calls on casambi-bt, the health requests, and \<^verbatim>\<open>process_command\<close> itself; with the
  command encoders of \<^verbatim>\<open>entities/commands.py\<close>. A correlated snapshot awaits its publishes: the
  command is handled up to them, and \<open>finish_snapshot\<close> is what follows. What casambi-bt does with a call
  is not modelled.
\<close>

section \<open>Commands\<close>

datatype mqtt_command =
  SetLevel json json json
| TurnOn json json
| PublishEntities
| SetScene json

abbreviation "SET_LEVEL_ACTION \<equiv> ''SET_LEVEL''"
abbreviation "TURN_ON_ACTION \<equiv> ''TURN_ON''"
abbreviation "SET_SCENE_ACTION \<equiv> ''SET_SCENE''"

text \<open>\<^verbatim>\<open>to_json\<close>: the fields in their order, then the action; a UUID is written even when None.\<close>

fun command_json :: "mqtt_command \<Rightarrow> json" where
  "command_json (SetLevel address v uuid) =
     JObj [(''address'', address), (''value'', v), (''unit_uuid'', uuid), (''action'', JStr SET_LEVEL_ACTION)]"
| "command_json (TurnOn address uuid) =
     JObj [(''address'', address), (''unit_uuid'', uuid), (''action'', JStr TURN_ON_ACTION)]"
| "command_json PublishEntities = JObj [(''action'', JStr PUBLISH_ENTITIES_ACTION)]"
| "command_json (SetScene scene_id) = JObj [(''scene_id'', scene_id), (''action'', JStr SET_SCENE_ACTION)]"

text \<open>\<^verbatim>\<open>from_json\<close>: the class's fields, a TypeError for a missing one without a default.\<close>

type_synonym error_name = string

definition set_level_from_json :: "(string \<times> json) list \<Rightarrow> error_name + json \<times> json \<times> json" where
  "set_level_from_json d =
     (if \<not> {''address'', ''value''} \<subseteq> keys_of d then Inl ''TypeError''
      else Inr (get d ''address'', get d ''value'', get d ''unit_uuid''))"

definition turn_on_from_json :: "(string \<times> json) list \<Rightarrow> error_name + json \<times> json" where
  "turn_on_from_json d =
     (if ''address'' \<notin> keys_of d then Inl ''TypeError'' else Inr (get d ''address'', get d ''unit_uuid''))"

definition set_scene_from_json :: "(string \<times> json) list \<Rightarrow> error_name + json" where
  "set_scene_from_json d = (if ''scene_id'' \<notin> keys_of d then Inl ''TypeError'' else Inr (get d ''scene_id''))"

section \<open>Validation\<close>

definition allowed_keys :: "string \<Rightarrow> string list option" where
  "allowed_keys = map_of
     [(SET_LEVEL_ACTION, [''action'', ''address'', ''value'', ''unit_uuid'']),
      (TURN_ON_ACTION, [''action'', ''address'', ''unit_uuid'']),
      (PUBLISH_ENTITIES_ACTION, [''action'', ''request_id'']),
      (SET_SCENE_ACTION, [''action'', ''scene_id'']),
      (GET_STATUS_ACTION, [''action'', ''request_id''])]"

definition required_keys :: "string \<Rightarrow> string list option" where
  "required_keys = map_of
     [(SET_LEVEL_ACTION, [''action'', ''address'', ''value'']),
      (TURN_ON_ACTION, [''action'', ''address'']),
      (PUBLISH_ENTITIES_ACTION, [''action'']),
      (SET_SCENE_ACTION, [''action'', ''scene_id'']),
      (GET_STATUS_ACTION, [''action'', ''request_id''])]"

definition validate_command_keys :: "(string \<times> json) list \<Rightarrow> string \<Rightarrow> error_name + unit" where
  "validate_command_keys d action =
     (case (allowed_keys action, required_keys action) of
        (Some allowed, Some required) \<Rightarrow>
          if \<not> keys_of d \<subseteq> set allowed \<or> \<not> set required \<subseteq> keys_of d then Inl ''ValueError''
          else if ''request_id'' \<in> keys_of d \<and> \<not> is_valid_request_id (get d ''request_id'') then Inl ''ValueError''
          else Inr ()
      | _ \<Rightarrow> Inr ())"

definition validate_light_command :: "json \<Rightarrow> json \<Rightarrow> error_name + unit" where
  "validate_light_command address uuid =
     (if \<not> is_str address then Inl ''TypeError''
      else if uuid \<noteq> JNull \<and> (\<not> is_str uuid \<or> the_str uuid = []) then Inl ''TypeError''
      else Inr ())"

definition validate_integer :: "json \<Rightarrow> error_name + int" where
  "validate_integer v = (if is_int v then Inr (the_int v) else Inl ''TypeError'')"

definition validate_brightness :: "json \<Rightarrow> error_name + int" where
  "validate_brightness v =
     (case validate_integer v of
        Inl e \<Rightarrow> Inl e
      | Inr n \<Rightarrow> if \<not> (0 \<le> n \<and> n \<le> 255) then Inl ''ValueError'' else Inr n)"

text \<open>\<^verbatim>\<open>command_unit\<close>, for an address and a UUID that passed \<^verbatim>\<open>validate_light_command\<close>.\<close>

definition command_unit :: "casa_unit list \<Rightarrow> string \<Rightarrow> json \<Rightarrow> error_name + casa_unit" where
  "command_unit units address uuid =
     (if uuid = JNull \<and> address = [] then Inl ''ValueError''
      else
        (case (if uuid = JNull then filter (\<lambda>u. cu_address u = address) units
               else filter (\<lambda>u. cu_uuid u = uuid) units) of
           [u] \<Rightarrow> if uuid \<noteq> JNull \<and> cu_address u \<noteq> address then Inl ''ValueError'' else Inr u
         | _ \<Rightarrow> Inl ''ValueError''))"

section \<open>Handling a command\<close>

datatype casa_call = Set_Level casa_unit int | Turn_On casa_unit | Switch_To_Scene casa_scene

text \<open>
  What happens around a command: the network's name and current units and scenes, which publishes of a
  snapshot the broker confirms, and the clock.
\<close>

record command_env =
  en_network :: string
  en_net :: casa_network
  en_confirmed :: "nat \<Rightarrow> bool"
  en_moment :: time
  en_stamp :: string
  en_failing :: bool
  en_writable :: bool

record command_world =
  cw_health :: "bridge_health option"
  cw_diagnostics :: bridge_diagnostics
  cw_calls :: "casa_call list"
  cw_snapshots :: "snapshot_message list list"
  cw_replies :: "health_reply list"
  cw_awaiting :: "string option"
  cw_log :: "string list"

definition command_log :: "string \<Rightarrow> command_world \<Rightarrow> command_world" where
  "command_log line w = w\<lparr>cw_log := cw_log w @ [line]\<rparr>"

definition count_rate_limited :: "command_world \<Rightarrow> command_world" where
  "count_rate_limited w = w\<lparr>cw_diagnostics := (cw_diagnostics w)
     \<lparr>bd_health_requests_rate_limited := bd_health_requests_rate_limited (cw_diagnostics w) + 1\<rparr>\<rparr>"

definition reply_with :: "command_env \<Rightarrow> string \<Rightarrow> string \<Rightarrow> (snapshot_result \<times> int) option \<Rightarrow> bridge_health
    \<Rightarrow> command_world \<Rightarrow> command_world" where
  "reply_with env request_id result snapshot h w =
     (let (reply, h') = publish_reply (en_failing env) (en_moment env) (en_stamp env) request_id result snapshot h in
      w\<lparr>cw_health := Some h', cw_replies := cw_replies w @ [reply]\<rparr>)"

text \<open>
  \<^verbatim>\<open>_handle_snapshot_request\<close> up to the snapshot's publishes; the legacy request has no identifier and nothing
  follows its snapshot.
\<close>

definition handle_snapshot_request :: "command_env \<Rightarrow> json \<Rightarrow> command_world \<Rightarrow> command_world" where
  "handle_snapshot_request env request_id w =
     (let snapshot = fst (publish_snapshot (en_confirmed env) (en_network env) (en_net env)) in
      case (request_id, cw_health w) of
        (JStr rid, Some h) \<Rightarrow>
          (let (allowed, h1) = snapshot_request_allowed (en_moment env) h in
           if \<not> allowed then
             (let (reply, h2) = reply_allowed REPLY_SNAPSHOT (en_moment env) h1;
                  w' = (count_rate_limited w)\<lparr>cw_health := Some h2\<rparr> in
              if reply
              then reply_with env rid RESULT_RATE_LIMITED
                     (Some (\<lparr>sn_units = 0, sn_scenes = 0, sn_failed = 0\<rparr>, 0)) h2 w'
              else w')
           else w\<lparr>cw_health := Some h1, cw_snapshots := cw_snapshots w @ [snapshot], cw_awaiting := Some rid\<rparr>)
      | _ \<Rightarrow> w\<lparr>cw_snapshots := cw_snapshots w @ [snapshot]\<rparr>)"

text \<open>The publishes of a correlated snapshot ended with the result \<open>r\<close>.\<close>

definition finish_snapshot :: "command_env \<Rightarrow> snapshot_result \<Rightarrow> command_world \<Rightarrow> command_world" where
  "finish_snapshot env r w =
     (case (cw_awaiting w, cw_health w) of
        (Some rid, Some h) \<Rightarrow>
          (let (generation, h1) = record_snapshot (en_writable env) (en_moment env) r h in
           reply_with env rid (if snapshot_result_ok r then RESULT_OK else RESULT_FAILED) (Some (r, generation)) h1
             (w\<lparr>cw_awaiting := None\<rparr>))
      | _ \<Rightarrow> w)"

definition handle_status_request :: "command_env \<Rightarrow> string \<Rightarrow> command_world \<Rightarrow> command_world" where
  "handle_status_request env request_id w =
     (case cw_health w of
        None \<Rightarrow> command_log ''Ignoring health request: bridge health is not enabled'' w
      | Some h \<Rightarrow>
          (let (allowed, h1) = reply_allowed REPLY_STATUS (en_moment env) h in
           if \<not> allowed then (count_rate_limited w)\<lparr>cw_health := Some h1\<rparr>
           else reply_with env request_id RESULT_OK None h1 (w\<lparr>cw_health := Some h1\<rparr>)))"

definition call_casa :: "error_name + casa_call \<Rightarrow> command_world \<Rightarrow> error_name + command_world" where
  "call_casa call w = (case call of Inl e \<Rightarrow> Inl e | Inr c \<Rightarrow> Inr (w\<lparr>cw_calls := cw_calls w @ [c]\<rparr>))"

definition bind_error :: "error_name + 'a \<Rightarrow> ('a \<Rightarrow> error_name + 'b) \<Rightarrow> error_name + 'b" where
  "bind_error x f = (case x of Inl e \<Rightarrow> Inl e | Inr v \<Rightarrow> f v)"

text \<open>The cases of the \<open>match\<close> that call casambi-bt.\<close>

definition set_level_call :: "casa_network \<Rightarrow> (string \<times> json) list \<Rightarrow> error_name + casa_call" where
  "set_level_call net d =
     bind_error (set_level_from_json d) (\<lambda>(address, v, uuid).
     bind_error (validate_light_command address uuid) (\<lambda>_.
     bind_error (validate_brightness v) (\<lambda>level.
     bind_error (command_unit (cn_units net) (the_str address) uuid) (\<lambda>u.
     Inr (Set_Level u level)))))"

definition turn_on_call :: "casa_network \<Rightarrow> (string \<times> json) list \<Rightarrow> error_name + casa_call" where
  "turn_on_call net d =
     bind_error (turn_on_from_json d) (\<lambda>(address, uuid).
     bind_error (validate_light_command address uuid) (\<lambda>_.
     bind_error (command_unit (cn_units net) (the_str address) uuid) (\<lambda>u.
     Inr (Turn_On u))))"

definition set_scene_call :: "casa_network \<Rightarrow> (string \<times> json) list \<Rightarrow> error_name + casa_call" where
  "set_scene_call net d =
     bind_error (set_scene_from_json d) (\<lambda>scene_id.
     bind_error (validate_integer scene_id) (\<lambda>n.
     case find (\<lambda>s. cs_sceneId s = n) (cn_scenes net) of
       None \<Rightarrow> Inl ''StopIteration''
     | Some s \<Rightarrow> Inr (Switch_To_Scene s)))"

definition dispatch :: "command_env \<Rightarrow> string \<Rightarrow> (string \<times> json) list \<Rightarrow> command_world \<Rightarrow> error_name + command_world" where
  "dispatch env action d w =
     (if action = SET_LEVEL_ACTION then call_casa (set_level_call (en_net env) d) w
      else if action = TURN_ON_ACTION then call_casa (turn_on_call (en_net env) d) w
      else if action = PUBLISH_ENTITIES_ACTION then Inr (handle_snapshot_request env (get d ''request_id'') w)
      else if action = GET_STATUS_ACTION then Inr (handle_status_request env (the_str (get d ''request_id'')) w)
      else if action = SET_SCENE_ACTION then call_casa (set_scene_call (en_net env) d) w
      else Inr (command_log ''Ignoring unknown Casambi command action'' w))"

definition KNOWN_COMMAND_ACTIONS :: "string list" where
  "KNOWN_COMMAND_ACTIONS = [SET_LEVEL_ACTION, TURN_ON_ACTION, PUBLISH_ENTITIES_ACTION, SET_SCENE_ACTION, GET_STATUS_ACTION]"

definition safe_action_name :: "string \<Rightarrow> string" where
  "safe_action_name action = (if action \<in> set KNOWN_COMMAND_ACTIONS then action else ''<unrecognized>'')"

text \<open>
  What decoding a payload gives: a value, an error \<^verbatim>\<open>process_command\<close> catches (bad UTF-8, bad JSON), or
  one it does not: \<^verbatim>\<open>json.loads\<close> raises RecursionError for deep nesting and a plain ValueError for
  an integer with more digits than the interpreter converts.
\<close>

datatype decoded = Decoded_Value json | Caught_Error string | Uncaught_Error string

definition process_command :: "command_env \<Rightarrow> string \<Rightarrow> decoded \<Rightarrow> command_world \<Rightarrow> error_name + command_world" where
  "process_command env topic payload w =
     (if topic \<noteq> TOPIC_PREFIX @ ''/'' @ en_network env @ ''/commands''
      then Inr (command_log ''Ignoring command received on an unexpected MQTT topic'' w)
      else (case payload of
        Uncaught_Error e \<Rightarrow> Inl e
      | Caught_Error e \<Rightarrow> Inr (command_log (''Ignoring malformed MQTT command: '' @ e) w)
      | Decoded_Value (JObj d) \<Rightarrow>
          (case get d ''action'' of
             JStr action \<Rightarrow>
               (case bind_error (validate_command_keys d action) (\<lambda>_. dispatch env action d w) of
                  Inl e \<Rightarrow> Inr (command_log (''Unable to process Casambi command '' @ safe_action_name action @ '': '' @ e) w)
                | Inr w' \<Rightarrow> Inr w')
           | _ \<Rightarrow> Inr (command_log ''Ignoring MQTT command without an action'' w))
      | Decoded_Value _ \<Rightarrow> Inr (command_log ''Ignoring MQTT command with a non-object JSON payload'' w)))"

text \<open>\<^verbatim>\<open>consume_commands\<close>, for one message.\<close>

definition consume_command :: "command_env \<Rightarrow> string \<Rightarrow> decoded \<Rightarrow> command_world \<Rightarrow> error_name + command_world" where
  "consume_command env topic payload w =
     process_command env topic payload
       (w\<lparr>cw_diagnostics := (cw_diagnostics w)\<lparr>bd_commands_received := bd_commands_received (cw_diagnostics w) + 1\<rparr>\<rparr>)"

section \<open>What a command may do\<close>

text \<open>The command's target: the only unit with the UUID, or with the address when no UUID is given.\<close>

definition only_unit :: "(casa_unit \<Rightarrow> bool) \<Rightarrow> casa_unit list \<Rightarrow> casa_unit \<Rightarrow> bool" where
  "only_unit P units u \<longleftrightarrow> P u \<and> (\<exists>i < length units. units ! i = u \<and> (\<forall>j < length units. P (units ! j) \<longrightarrow> j = i))"

definition command_target :: "casa_unit list \<Rightarrow> (string \<times> json) list \<Rightarrow> casa_unit \<Rightarrow> bool" where
  "command_target units d u \<longleftrightarrow>
     (\<exists>a. get d ''address'' = JStr a
        \<and> (get d ''unit_uuid'' = JNull \<and> a \<noteq> [] \<and> only_unit (\<lambda>v. cu_address v = a) units u
           \<or> (\<exists>s. get d ''unit_uuid'' = JStr s \<and> s \<noteq> [] \<and> cu_address u = a
                \<and> only_unit (\<lambda>v. cu_uuid v = JStr s) units u)))"

text \<open>The calls on casambi-bt a command asks for.\<close>

fun intended_call :: "casa_network \<Rightarrow> (string \<times> json) list \<Rightarrow> casa_call \<Rightarrow> bool" where
  "intended_call net d (Set_Level u n) \<longleftrightarrow> get d ''action'' = JStr SET_LEVEL_ACTION
     \<and> {''action'', ''address'', ''value''} \<subseteq> keys_of d \<and> keys_of d \<subseteq> {''action'', ''address'', ''value'', ''unit_uuid''}
     \<and> get d ''value'' = JInt n \<and> 0 \<le> n \<and> n \<le> 255 \<and> command_target (cn_units net) d u"
| "intended_call net d (Turn_On u) \<longleftrightarrow> get d ''action'' = JStr TURN_ON_ACTION
     \<and> {''action'', ''address''} \<subseteq> keys_of d \<and> keys_of d \<subseteq> {''action'', ''address'', ''unit_uuid''}
     \<and> command_target (cn_units net) d u"
| "intended_call net d (Switch_To_Scene c) \<longleftrightarrow> get d ''action'' = JStr SET_SCENE_ACTION
     \<and> keys_of d = {''action'', ''scene_id''} \<and> get d ''scene_id'' = JInt (cs_sceneId c)
     \<and> (\<exists>i < length (cn_scenes net). cn_scenes net ! i = c \<and> (\<forall>j < i. cs_sceneId (cn_scenes net ! j) \<noteq> cs_sceneId c))"

lemma filter_only_unit: "filter P units = [u] \<longleftrightarrow> only_unit P units u"
proof
  assume single: "filter P units = [u]"
  then have "u \<in> set (filter P units)" by simp
  then obtain i where i: "i < length units" "units ! i = u" "P u" by (auto simp: in_set_conv_nth)
  have one: "length (filter P units) = 1" by (simp add: single)
  have "j = i" if "j < length units" "P (units ! j)" for j
  proof (rule ccontr)
    assume "j \<noteq> i"
    then consider "i < j" | "j < i" by linarith
    then show False
      using two_in_filter[of i j units P] two_in_filter[of j i units P] that i one by cases blast+
  qed
  with i show "only_unit P units u" by (auto simp: only_unit_def)
next
  assume "only_unit P units u"
  then have Pu: "P u" and "\<exists>i < length units. units ! i = u \<and> (\<forall>j < length units. P (units ! j) \<longrightarrow> j = i)"
    unfolding only_unit_def by (rule conjunct1, rule conjunct2)
  from this(2) obtain i where "i < length units \<and> units ! i = u \<and> (\<forall>j < length units. P (units ! j) \<longrightarrow> j = i)" ..
  then have i: "i < length units" "units ! i = u" "\<forall>j < length units. P (units ! j) \<longrightarrow> j = i"
    by (rule conjunct1, rule conjunct1[OF conjunct2], rule conjunct2[OF conjunct2])
  have "P (units ! i)" unfolding i(2) by (rule Pu)
  with i(1,3) have only: "{j. j < length units \<and> P (units ! j)} = {i}" by blast
  have "length (filter P units) = 1" unfolding length_filter_conv_card only by simp
  then obtain v where v: "filter P units = [v]" by (auto simp: length_Suc_conv)
  have "u \<in> set (filter P units)" using Pu nth_mem[OF i(1)] unfolding i(2) by simp
  with v show "filter P units = [u]" by simp
qed

lemma command_unit_iff:
  "command_unit units address uuid = Inr u \<longleftrightarrow>
     (if uuid = JNull then address \<noteq> [] \<and> only_unit (\<lambda>v. cu_address v = address) units u
      else only_unit (\<lambda>v. cu_uuid v = uuid) units u \<and> cu_address u = address)"
proof -
  let ?P = "if uuid = JNull then (\<lambda>v. cu_address v = address) else (\<lambda>v. cu_uuid v = uuid)"
  have "command_unit units address uuid = Inr u \<longleftrightarrow>
      (uuid = JNull \<longrightarrow> address \<noteq> []) \<and> filter ?P units = [u] \<and> (uuid \<noteq> JNull \<longrightarrow> cu_address u = address)"
    by (cases "filter ?P units" rule: remdups_adj.cases) (auto simp: command_unit_def split: if_splits)
  then show ?thesis by (simp add: filter_only_unit)
qed

lemma bind_error_Inr: "bind_error x f = Inr z \<longleftrightarrow> (\<exists>y. x = Inr y \<and> f y = Inr z)"
  by (cases x) (simp_all add: bind_error_def)

lemma validate_light_command_iff:
  "validate_light_command address uuid = Inr () \<longleftrightarrow>
     is_str address \<and> (uuid = JNull \<or> (\<exists>s. uuid = JStr s \<and> s \<noteq> []))"
  by (cases address; cases uuid) (simp_all add: validate_light_command_def)

lemma validate_brightness_iff: "validate_brightness v = Inr n \<longleftrightarrow> v = JInt n \<and> 0 \<le> n \<and> n \<le> 255"
  by (cases v) (auto simp: validate_brightness_def validate_integer_def)

lemma target_iff:
  "(validate_light_command (get d ''address'') (get d ''unit_uuid'') = Inr ()
    \<and> command_unit units (the_str (get d ''address'')) (get d ''unit_uuid'') = Inr u) \<longleftrightarrow> command_target units d u"
  by (cases "get d ''address''"; cases "get d ''unit_uuid''")
    (auto simp: validate_light_command_iff command_unit_iff command_target_def)

lemma set_level_call_iff:
  "set_level_call net d = Inr c \<longleftrightarrow> {''address'', ''value''} \<subseteq> keys_of d
     \<and> (\<exists>u n. c = Set_Level u n \<and> get d ''value'' = JInt n \<and> 0 \<le> n \<and> n \<le> 255 \<and> command_target (cn_units net) d u)"
  by (auto simp: set_level_call_def bind_error_Inr set_level_from_json_def validate_brightness_iff target_iff[symmetric]
      split: if_splits)

lemma turn_on_call_iff:
  "turn_on_call net d = Inr c \<longleftrightarrow> ''address'' \<in> keys_of d \<and> (\<exists>u. c = Turn_On u \<and> command_target (cn_units net) d u)"
  by (auto simp: turn_on_call_def bind_error_Inr turn_on_from_json_def target_iff[symmetric] split: if_splits)

lemma set_scene_call_iff:
  "set_scene_call net d = Inr c \<longleftrightarrow> ''scene_id'' \<in> keys_of d
     \<and> (\<exists>s. c = Switch_To_Scene s \<and> get d ''scene_id'' = JInt (cs_sceneId s)
          \<and> (\<exists>i < length (cn_scenes net). cn_scenes net ! i = s \<and> (\<forall>j < i. cs_sceneId (cn_scenes net ! j) \<noteq> cs_sceneId s)))"
proof -
  have found: "find (\<lambda>s. cs_sceneId s = n) cs = Some s \<longleftrightarrow>
      cs_sceneId s = n \<and> (\<exists>i < length cs. cs ! i = s \<and> (\<forall>j < i. cs_sceneId (cs ! j) \<noteq> cs_sceneId s))" for n cs s
    by (auto simp: find_Some_iff)
  have "set_scene_call net d = Inr c \<longleftrightarrow> ''scene_id'' \<in> keys_of d
      \<and> (\<exists>n s. get d ''scene_id'' = JInt n \<and> find (\<lambda>s. cs_sceneId s = n) (cn_scenes net) = Some s \<and> c = Switch_To_Scene s)"
    by (cases "get d ''scene_id''")
      (auto simp: set_scene_call_def bind_error_Inr set_scene_from_json_def validate_integer_def split: option.splits)
  then show ?thesis by (auto simp: found)
qed

lemma validate_keys_iff:
  "validate_command_keys d action = Inr () \<longleftrightarrow>
     (case (allowed_keys action, required_keys action) of
        (Some allowed, Some required) \<Rightarrow> keys_of d \<subseteq> set allowed \<and> set required \<subseteq> keys_of d
          \<and> (''request_id'' \<in> keys_of d \<longrightarrow> is_valid_request_id (get d ''request_id''))
      | _ \<Rightarrow> True)"
  by (auto simp: validate_command_keys_def split: option.splits)

lemma requests_keep_calls [simp]:
  "cw_calls (handle_snapshot_request env request_id w) = cw_calls w"
  "cw_calls (handle_status_request env rid w) = cw_calls w"
  "cw_calls (command_log line w) = cw_calls w"
  by (auto simp: handle_snapshot_request_def handle_status_request_def reply_with_def count_rate_limited_def
      command_log_def Let_def split: json.splits option.splits prod.splits)

lemma dispatch_calls:
  assumes "dispatch env action d w = Inr w'"
  shows "\<exists>calls. cw_calls w' = cw_calls w @ calls \<and> length calls \<le> 1
    \<and> (\<forall>c. c \<in> set calls \<longleftrightarrow>
         (action = SET_LEVEL_ACTION \<and> set_level_call (en_net env) d = Inr c
          \<or> action = TURN_ON_ACTION \<and> turn_on_call (en_net env) d = Inr c
          \<or> action = SET_SCENE_ACTION \<and> set_scene_call (en_net env) d = Inr c))"
proof -
  have casa: "call_casa call w = Inr w' \<Longrightarrow> \<exists>c. call = Inr c \<and> cw_calls w' = cw_calls w @ [c]" for call
    by (auto simp: call_casa_def split: sum.splits)
  show ?thesis using assms casa
    by (fastforce simp: dispatch_def split: if_splits)
qed

lemma dispatch_caught: "dispatch env action d w = Inl e \<Longrightarrow>
    \<exists>call. call = Inl e \<and> (action = SET_LEVEL_ACTION \<and> call = set_level_call (en_net env) d
      \<or> action = TURN_ON_ACTION \<and> call = turn_on_call (en_net env) d
      \<or> action = SET_SCENE_ACTION \<and> call = set_scene_call (en_net env) d)"
  by (auto simp: dispatch_def call_casa_def split: if_splits sum.splits)

lemma validate_keys_of:
  assumes "map_option set (allowed_keys action) = Some A" "map_option set (required_keys action) = Some R" "''request_id'' \<notin> A"
  shows "validate_command_keys d action = Inr () \<longleftrightarrow> R \<subseteq> keys_of d \<and> keys_of d \<subseteq> A"
proof -
  obtain allowed required where "allowed_keys action = Some allowed" "required_keys action = Some required"
    "A = set allowed" "R = set required" using assms(1,2) by auto
  with assms(3) show ?thesis unfolding validate_keys_iff option.case prod.case by auto
qed

text \<open>With the keys validated, the three calls are exactly the intended ones.\<close>

lemma calls_intended:
  assumes "get d ''action'' = JStr action"
  shows "(validate_command_keys d action = Inr () \<and>
      (action = SET_LEVEL_ACTION \<and> set_level_call net d = Inr c
       \<or> action = TURN_ON_ACTION \<and> turn_on_call net d = Inr c
       \<or> action = SET_SCENE_ACTION \<and> set_scene_call net d = Inr c)) \<longleftrightarrow> intended_call net d c"
proof (cases c)
  case (Set_Level u n)
  have "validate_command_keys d SET_LEVEL_ACTION = Inr () \<longleftrightarrow>
      {''action'', ''address'', ''value''} \<subseteq> keys_of d \<and> keys_of d \<subseteq> {''action'', ''address'', ''value'', ''unit_uuid''}"
    by (rule validate_keys_of) (simp_all add: allowed_keys_def required_keys_def)
  with assms Set_Level show ?thesis by (auto simp: set_level_call_iff turn_on_call_iff set_scene_call_iff)
next
  case (Turn_On u)
  have "validate_command_keys d TURN_ON_ACTION = Inr () \<longleftrightarrow>
      {''action'', ''address''} \<subseteq> keys_of d \<and> keys_of d \<subseteq> {''action'', ''address'', ''unit_uuid''}"
    by (rule validate_keys_of) (simp_all add: allowed_keys_def required_keys_def)
  with assms Turn_On show ?thesis by (auto simp: set_level_call_iff turn_on_call_iff set_scene_call_iff)
next
  case (Switch_To_Scene s)
  have "validate_command_keys d SET_SCENE_ACTION = Inr () \<longleftrightarrow>
      {''action'', ''scene_id''} \<subseteq> keys_of d \<and> keys_of d \<subseteq> {''action'', ''scene_id''}"
    by (rule validate_keys_of) (simp_all add: allowed_keys_def required_keys_def)
  with assms Switch_To_Scene show ?thesis by (auto simp: set_level_call_iff turn_on_call_iff set_scene_call_iff)
qed

section \<open>Property\<close>


text \<open>A brightness command for the first of two units.\<close>

definition sample_env :: "casa_network \<Rightarrow> command_env" where
  "sample_env net = \<lparr>en_network = ''net'', en_net = net, en_confirmed = (\<lambda>_. True), en_moment = 10,
     en_stamp = ''2026-01-01T00:00:00Z'', en_failing = False, en_writable = True\<rparr>"

definition idle_world :: command_world where
  "idle_world = \<lparr>cw_health = None, cw_diagnostics = new_diagnostics, cw_calls = [], cw_snapshots = [], cw_replies = [],
     cw_awaiting = None, cw_log = []\<rparr>"

lemma sample_unit_uuid [simp]: "cu_uuid (sample_unit a n) = JStr ''u1''"
  by (simp add: sample_unit_def)


end
