(* ===== verification/Ha_Entities.thy ===== *)
theory Ha_Entities
  imports Bridge_Commands
begin

text \<open>
  Home Assistant's entities for one config entry: the light, scene and button classes (\<^verbatim>\<open>light.py\<close>,
  \<^verbatim>\<open>scene.py\<close>, \<^verbatim>\<open>button.py\<close>) and the two MQTT callbacks of \<^verbatim>\<open>async_setup_entry\<close> that create
  and update them. \<^verbatim>\<open>Unit.from_json\<close> and \<^verbatim>\<open>Scene.from_json\<close> are dataclasses_json's: what they return for a payload
  is an argument.
\<close>

section \<open>Names\<close>

definition entry_scoped_unique_id :: "string \<Rightarrow> string \<Rightarrow> string" where
  "entry_scoped_unique_id entry_id legacy_unique_id = entry_id @ ''_'' @ legacy_unique_id"

definition command_topic_of :: "string \<Rightarrow> string" where
  "command_topic_of network = TOPIC_PREFIX @ ''/'' @ network @ ''/commands''"

section \<open>Parsed payloads\<close>

text \<open>
  A unit as \<^verbatim>\<open>Unit.from_json\<close> returns it: annotated fields are not checked, so they are JSON values. \<open>hu_dimmer\<close> is
  \<^verbatim>\<open>unit.state.dimmer\<close>, None for a missing state; \<open>hu_kind\<close> is \<^verbatim>\<open>unit.type()\<close>.
\<close>

record ha_unit =
  hu_address :: json
  hu_uuid :: json
  hu_name :: json
  hu_dimmer :: "json option"
  hu_kind :: string

record ha_scene =
  hs_scene_id :: json
  hs_name :: json

text \<open>Parsing raises an error the callback catches, returns None, or returns an object.\<close>

datatype 'a parsed = Parse_Error | Parsed "'a option"

section \<open>Entities\<close>

record light =
  li_topic :: string
  li_network :: string
  li_name :: json
  li_unique_id :: string
  li_is_on :: bool
  li_brightness :: int
  li_address :: string
  li_unit_uuid :: string

text \<open>\<^verbatim>\<open>unit.state.dimmer or 0\<close>\<close>

definition dimmer_or_0 :: "ha_unit \<Rightarrow> int" where
  "dimmer_or_0 u = (case hu_dimmer u of Some (JInt n) \<Rightarrow> n | _ \<Rightarrow> 0)"

definition new_light :: "string \<Rightarrow> string \<Rightarrow> string \<Rightarrow> ha_unit \<Rightarrow> light" where
  "new_light topic network entry_id u =
     (let address = the_str (hu_address u); uuid = the_str (hu_uuid u) in
      \<lparr>li_topic = topic, li_network = network, li_name = hu_name u,
       li_unique_id = entry_scoped_unique_id entry_id
         (if address \<noteq> [] then ''casambi_mqtt_light_'' @ address else ''casambi_mqtt_light_uuid_'' @ uuid),
       li_is_on = (dimmer_or_0 u > 0), li_brightness = dimmer_or_0 u, li_address = address, li_unit_uuid = uuid\<rparr>)"

definition update_light :: "ha_unit \<Rightarrow> light \<Rightarrow> light" where
  "update_light u l = l\<lparr>li_unit_uuid := the_str (hu_uuid u), li_is_on := (dimmer_or_0 u > 0), li_brightness := dimmer_or_0 u\<rparr>"

text \<open>The topic and the command of a service call; \<open>brightness\<close> is the keyword argument, if given.\<close>

definition light_turn_on :: "json option \<Rightarrow> light \<Rightarrow> string \<times> mqtt_command" where
  "light_turn_on brightness l =
     (command_topic_of (li_network l),
      case brightness of
        Some b \<Rightarrow> SetLevel (JStr (li_address l)) b (JStr (li_unit_uuid l))
      | None \<Rightarrow> TurnOn (JStr (li_address l)) (JStr (li_unit_uuid l)))"

definition light_turn_off :: "light \<Rightarrow> string \<times> mqtt_command" where
  "light_turn_off l =
     (command_topic_of (li_network l), SetLevel (JStr (li_address l)) (JInt 0) (JStr (li_unit_uuid l)))"

record scene =
  se_network :: string
  se_casambi_id :: int
  se_unique_id :: string
  se_name :: json

definition new_scene :: "string \<Rightarrow> string \<Rightarrow> ha_scene \<Rightarrow> scene" where
  "new_scene network entry_id s =
     \<lparr>se_network = network, se_casambi_id = the_int (hs_scene_id s),
      se_unique_id = entry_scoped_unique_id entry_id (''casambi_mqtt_scene_'' @ str_of_int (the_int (hs_scene_id s))),
      se_name = hs_name s\<rparr>"

definition update_scene :: "ha_scene \<Rightarrow> scene \<Rightarrow> scene" where
  "update_scene s sc = sc\<lparr>se_name := hs_name s\<rparr>"

definition scene_activate :: "scene \<Rightarrow> string \<times> mqtt_command" where
  "scene_activate s = (command_topic_of (se_network s), SetScene (JInt (se_casambi_id s)))"

definition reload_press :: "string \<Rightarrow> string \<times> mqtt_command" where
  "reload_press network = (command_topic_of network, PublishEntities)"

section \<open>The callbacks\<close>

text \<open>
  The part of \<^verbatim>\<open>CasambiMqttRuntimeData\<close> the callbacks use: whether the platforms are set up, the entities by
  topic; and their effects: entities handed to Home Assistant and topics reported to the observer as processed.
\<close>

record entities =
  et_entry_id :: string
  et_network_name :: string
  et_light_ready :: bool
  et_scene_ready :: bool
  et_lights :: "string \<Rightarrow> light option"
  et_scenes :: "string \<Rightarrow> scene option"
  et_added_lights :: "light list"
  et_added_scenes :: "scene list"
  et_processed :: "string list"

definition new_entities :: "string \<Rightarrow> string \<Rightarrow> entities" where
  "new_entities entry_id network = \<lparr>et_entry_id = entry_id, et_network_name = network, et_light_ready = False,
     et_scene_ready = False, et_lights = Map.empty, et_scenes = Map.empty, et_added_lights = [], et_added_scenes = [],
     et_processed = []\<rparr>"

definition strip_prefix :: "string \<Rightarrow> string \<Rightarrow> string option" where
  "strip_prefix p s = (if take (length p) s = p then Some (drop (length p) s) else None)"

definition valid_unit :: "ha_unit \<Rightarrow> bool" where
  "valid_unit u \<longleftrightarrow> is_str (hu_address u) \<and> is_str (hu_uuid u)
     \<and> (case hu_dimmer u of None \<Rightarrow> False | Some d \<Rightarrow> d = JNull \<or> is_int d)"

definition topic_matches_unit :: "string \<Rightarrow> ha_unit \<Rightarrow> bool" where
  "topic_matches_unit rest u \<longleftrightarrow>
     (if the_str (hu_address u) \<noteq> [] then rest = the_str (hu_address u)
      else the_str (hu_uuid u) \<noteq> [] \<and> rest = ''uuid/'' @ quote (the_str (hu_uuid u)))"

definition processed :: "string \<Rightarrow> entities \<Rightarrow> entities" where
  "processed topic s = s\<lparr>et_processed := et_processed s @ [topic]\<rparr>"

definition event_processor :: "string \<Rightarrow> bool \<Rightarrow> ha_unit parsed \<Rightarrow> entities \<Rightarrow> entities" where
  "event_processor topic nonempty p s =
     (case strip_prefix (events_topic (et_network_name s)) topic of
        None \<Rightarrow> s
      | Some rest \<Rightarrow>
          if \<not> nonempty \<or> rest = [] then s
          else (case p of
            Parsed (Some u) \<Rightarrow>
              if \<not> valid_unit u then s
              else if hu_kind u \<noteq> ''LIGHT'' then processed topic s
              else if \<not> topic_matches_unit rest u then s
              else if \<not> et_light_ready s then s
              else (case et_lights s topic of
                None \<Rightarrow>
                  (let l = new_light topic (et_network_name s) (et_entry_id s) u in
                   processed topic (s\<lparr>et_lights := (et_lights s)(topic \<mapsto> l), et_added_lights := et_added_lights s @ [l]\<rparr>))
              | Some l \<Rightarrow> processed topic (s\<lparr>et_lights := (et_lights s)(topic \<mapsto> update_light u l)\<rparr>))
          | _ \<Rightarrow> s))"

definition scenes_prefix :: "string \<Rightarrow> string" where
  "scenes_prefix network = TOPIC_PREFIX @ ''/'' @ network @ ''/scenes/''"

definition scene_processor :: "string \<Rightarrow> bool \<Rightarrow> ha_scene parsed \<Rightarrow> entities \<Rightarrow> entities" where
  "scene_processor topic nonempty p s =
     (case strip_prefix (scenes_prefix (et_network_name s)) topic of
        None \<Rightarrow> s
      | Some rest \<Rightarrow>
          if \<not> nonempty \<or> rest = [] then s
          else (case p of
            Parsed (Some c) \<Rightarrow>
              if \<not> is_int (hs_scene_id c) then s
              else if rest \<noteq> str_of_int (the_int (hs_scene_id c)) then s
              else if \<not> et_scene_ready s then s
              else (case et_scenes s topic of
                None \<Rightarrow>
                  (let e = new_scene (et_network_name s) (et_entry_id s) c in
                   s\<lparr>et_scenes := (et_scenes s)(topic \<mapsto> e), et_added_scenes := et_added_scenes s @ [e]\<rparr>)
              | Some e \<Rightarrow> s\<lparr>et_scenes := (et_scenes s)(topic \<mapsto> update_scene c e)\<rparr>)
          | _ \<Rightarrow> s))"

text \<open>What happens to an entry's entities while it is loaded.\<close>

datatype entity_event =
  Light_Platform
| Scene_Platform
| Unit_Event string bool "ha_unit parsed"
| Scene_Event string bool "ha_scene parsed"

fun entity_step :: "entity_event \<Rightarrow> entities \<Rightarrow> entities" where
  "entity_step Light_Platform s = s\<lparr>et_light_ready := True\<rparr>"
| "entity_step Scene_Platform s = s\<lparr>et_scene_ready := True\<rparr>"
| "entity_step (Unit_Event topic nonempty p) s = event_processor topic nonempty p s"
| "entity_step (Scene_Event topic nonempty p) s = scene_processor topic nonempty p s"

end
