(* ===== verification/Light_Control.thy ===== *)
theory Light_Control
  imports Ha_Entities
begin

text \<open>
  From a unit of the network to its light in Home Assistant and back: the light that a unit's
  published entity creates or updates sends commands that the bridge resolves to that very unit.
\<close>

section \<open>What the bridge does with an entity's command\<close>

lemma process_set_level:
  assumes "only_unit (\<lambda>v. cu_uuid v = JStr s) (cn_units (en_net env)) u" "s \<noteq> []" "cu_address u = a" "0 \<le> b" "b \<le> 255"
  shows "process_command env (command_topic_of (en_network env)) (Decoded_Value (command_json (SetLevel (JStr a) (JInt b) (JStr s)))) w
    = Inr (w\<lparr>cw_calls := cw_calls w @ [Set_Level u b]\<rparr>)"
proof -
  let ?d = "[(''address'', JStr a), (''value'', JInt b), (''unit_uuid'', JStr s), (''action'', JStr SET_LEVEL_ACTION)]"
  have call: "set_level_call (en_net env) ?d = Inr (Set_Level u b)"
    using assms by (simp add: set_level_call_iff command_target_def)
  have valid: "validate_command_keys ?d SET_LEVEL_ACTION = Inr ()"
    by (simp add: validate_keys_of[where A = "{''action'', ''address'', ''value'', ''unit_uuid''}"
          and R = "{''action'', ''address'', ''value''}"] allowed_keys_def required_keys_def)
  show ?thesis
    using call valid by (simp add: process_command_def command_topic_of_def dispatch_def call_casa_def bind_error_def)
qed

lemma process_turn_on:
  assumes "only_unit (\<lambda>v. cu_uuid v = JStr s) (cn_units (en_net env)) u" "s \<noteq> []" "cu_address u = a"
  shows "process_command env (command_topic_of (en_network env)) (Decoded_Value (command_json (TurnOn (JStr a) (JStr s)))) w
    = Inr (w\<lparr>cw_calls := cw_calls w @ [Turn_On u]\<rparr>)"
proof -
  let ?d = "[(''address'', JStr a), (''unit_uuid'', JStr s), (''action'', JStr TURN_ON_ACTION)]"
  have call: "turn_on_call (en_net env) ?d = Inr (Turn_On u)"
    using assms by (simp add: turn_on_call_iff command_target_def)
  have valid: "validate_command_keys ?d TURN_ON_ACTION = Inr ()"
    by (simp add: validate_keys_of[where A = "{''action'', ''address'', ''unit_uuid''}"
          and R = "{''action'', ''address''}"] allowed_keys_def required_keys_def)
  show ?thesis
    using call valid by (simp add: process_command_def command_topic_of_def dispatch_def call_casa_def bind_error_def)
qed

lemma process_set_scene:
  assumes "i < length (cn_scenes (en_net env))" "cn_scenes (en_net env) ! i = c"
    and "\<forall>j < i. cs_sceneId (cn_scenes (en_net env) ! j) \<noteq> cs_sceneId c"
  shows "process_command env (command_topic_of (en_network env)) (Decoded_Value (command_json (SetScene (JInt (cs_sceneId c))))) w
    = Inr (w\<lparr>cw_calls := cw_calls w @ [Switch_To_Scene c]\<rparr>)"
proof -
  let ?d = "[(''scene_id'', JInt (cs_sceneId c)), (''action'', JStr SET_SCENE_ACTION)]"
  have call: "set_scene_call (en_net env) ?d = Inr (Switch_To_Scene c)"
    using assms by (auto simp: set_scene_call_iff)
  have valid: "validate_command_keys ?d SET_SCENE_ACTION = Inr ()"
    by (simp add: validate_keys_of[where A = "{''action'', ''scene_id''}" and R = "{''action'', ''scene_id''}"]
        allowed_keys_def required_keys_def)
  show ?thesis
    using call valid by (simp add: process_command_def command_topic_of_def dispatch_def call_casa_def bind_error_def)
qed

section \<open>Lights stay on their topics\<close>

definition light_at :: "string \<Rightarrow> string \<Rightarrow> light \<Rightarrow> bool" where
  "light_at network topic l \<longleftrightarrow> li_network l = network \<and> li_topic l = topic \<and> CHR ''/'' \<notin> set (li_address l)
     \<and> topic = events_topic network @ (if li_address l \<noteq> [] then li_address l else ''uuid/'' @ quote (li_unit_uuid l))"

definition lights_ok :: "entities \<Rightarrow> bool" where
  "lights_ok s \<longleftrightarrow> (\<forall>topic l. et_lights s topic = Some l \<longrightarrow> light_at (et_network_name s) topic l)"

text \<open>Addresses are one topic level.\<close>

fun slash_free :: "entity_event \<Rightarrow> bool" where
  "slash_free (Unit_Event _ _ (Parsed (Some u))) \<longleftrightarrow> CHR ''/'' \<notin> set (the_str (hu_address u))"
| "slash_free _ \<longleftrightarrow> True"

lemma strip_prefix_iff: "strip_prefix p s = Some rest \<longleftrightarrow> s = p @ rest"
  by (auto simp: strip_prefix_def) (metis append_take_drop_id)

lemma lights_ok_upd:
  assumes "lights_ok s" "light_at (et_network_name s) topic l"
  shows "lights_ok (processed topic (s\<lparr>et_lights := (et_lights s)(topic \<mapsto> l), et_added_lights := ls\<rparr>))"
    and "lights_ok (processed topic (s\<lparr>et_lights := (et_lights s)(topic \<mapsto> l)\<rparr>))"
  using assms by (auto simp: lights_ok_def processed_def)

lemma new_light_at:
  assumes "topic_matches_unit rest u" "CHR ''/'' \<notin> set (the_str (hu_address u))"
  shows "light_at network (events_topic network @ rest) (new_light (events_topic network @ rest) network entry_id u)"
  using assms by (auto simp: light_at_def new_light_def topic_matches_unit_def Let_def split: if_splits)

lemma uuid_path_slash: "CHR ''/'' \<notin> set a \<Longrightarrow> a \<noteq> ''uuid/'' @ q" "CHR ''/'' \<notin> set a \<Longrightarrow> ''uuid/'' @ q \<noteq> a"
  by auto

lemma update_light_at:
  assumes "light_at network (events_topic network @ rest) l" "topic_matches_unit rest u"
    and "CHR ''/'' \<notin> set (the_str (hu_address u))"
  shows "light_at network (events_topic network @ rest) (update_light u l)"
    and "li_address l = the_str (hu_address u)"
proof -
  show "li_address l = the_str (hu_address u)"
    using assms uuid_path_slash[of "li_address l"] uuid_path_slash[of "the_str (hu_address u)"]
    by (auto simp: light_at_def topic_matches_unit_def split: if_splits)
  then show "light_at network (events_topic network @ rest) (update_light u l)"
    using assms by (auto simp: light_at_def update_light_def topic_matches_unit_def split: if_splits)
qed

lemma lights_ok_step:
  assumes "lights_ok s" "slash_free e"
  shows "lights_ok (entity_step e s) \<and> et_network_name (entity_step e s) = et_network_name s"
proof (cases e)
  case (Unit_Event topic nonempty p)
  show ?thesis
  proof (cases "event_processor topic nonempty p s = s \<or> event_processor topic nonempty p s = processed topic s")
    case True
    then show ?thesis using assms Unit_Event by (auto simp: lights_ok_def processed_def)
  next
    case False
    then obtain rest u where *: "topic = events_topic (et_network_name s) @ rest" "p = Parsed (Some u)"
      "topic_matches_unit rest u" "valid_unit u" "hu_kind u = ''LIGHT''" "et_light_ready s" "nonempty" "rest \<noteq> []"
      by (auto simp: event_processor_def strip_prefix_iff split: option.splits parsed.splits if_splits)
    then have run: "event_processor topic nonempty p s =
      (case et_lights s topic of
         None \<Rightarrow> processed topic (s\<lparr>et_lights := (et_lights s)(topic \<mapsto> new_light topic (et_network_name s) (et_entry_id s) u),
           et_added_lights := et_added_lights s @ [new_light topic (et_network_name s) (et_entry_id s) u]\<rparr>)
       | Some l \<Rightarrow> processed topic (s\<lparr>et_lights := (et_lights s)(topic \<mapsto> update_light u l)\<rparr>))"
      by (simp add: event_processor_def strip_prefix_iff[THEN iffD2, OF refl] Let_def split: option.split)
    have u: "CHR ''/'' \<notin> set (the_str (hu_address u))" using assms(2) Unit_Event * by simp
    show ?thesis
    proof (cases "et_lights s topic")
      case None
      with run lights_ok_upd(1)[OF assms(1)] new_light_at[OF *(3) u] Unit_Event *(1) show ?thesis
        by (simp add: processed_def)
    next
      case (Some l)
      with assms(1) have "light_at (et_network_name s) topic l" by (simp add: lights_ok_def)
      with Some run lights_ok_upd(2)[OF assms(1)] update_light_at(1)[of _ rest l u] *(1,3) u Unit_Event show ?thesis
        by (simp add: processed_def)
    qed
  qed
next
  case (Scene_Event topic nonempty p)
  then show ?thesis using assms
    by (auto simp: scene_processor_def lights_ok_def Let_def split: option.splits parsed.splits)
qed (use assms in \<open>auto simp: lights_ok_def\<close>)

lemma lights_ok_new: "lights_ok (new_entities entry_id network)"
  by (simp add: lights_ok_def new_entities_def)

lemma et_network_name_new [simp]: "et_network_name (new_entities entry_id network) = network"
  by (simp add: new_entities_def)

lemma lights_ok_history:
  assumes "list_all slash_free es" "lights_ok s"
  shows "lights_ok (fold entity_step es s) \<and> et_network_name (fold entity_step es s) = et_network_name s"
  using assms by (induction es arbitrary: s) (auto simp: lights_ok_step)

section \<open>Property\<close>

text \<open>What \<^verbatim>\<open>Unit.from_json\<close> is documented to give back for the encoding of an entity.\<close>

definition entity_view :: "unit_entity \<Rightarrow> ha_unit" where
  "entity_view e = \<lparr>hu_address = JStr (ue_address e), hu_uuid = ue_uuid e, hu_name = JStr (ue_name e),
     hu_dimmer = Some (case us_dimmer (ue_state e) of None \<Rightarrow> JNull | Some n \<Rightarrow> JInt n), hu_kind = entity_type e\<rparr>"

text \<open>The bridge handles a message Home Assistant published.\<close>

definition bridge_receives :: "command_env \<Rightarrow> string \<times> mqtt_command \<Rightarrow> command_world \<Rightarrow> error_name + command_world" where
  "bridge_receives env m = process_command env (fst m) (Decoded_Value (command_json (snd m)))"

definition unit_level :: "casa_unit \<Rightarrow> int" where
  "unit_level u = (case cu_state u of Dimmer (Some n) \<Rightarrow> n | _ \<Rightarrow> 0)"

lemma entity_view_fields:
  "the_str (hu_address (entity_view (to_entity u))) = cu_address u" "hu_uuid (entity_view (to_entity u)) = cu_uuid u"
  "hu_kind (entity_view (to_entity u)) = entity_type (to_entity u)"
  "dimmer_or_0 (entity_view (to_entity u)) = unit_level u"
  by (simp_all add: entity_view_def to_entity_def dimmer_or_0_def unit_level_def split: casa_state.split option.split)

lemma entity_view_valid: "cu_uuid u = JStr uuid \<Longrightarrow> valid_unit (entity_view (to_entity u))"
  by (simp add: valid_unit_def entity_view_def to_entity_def split: option.split)

lemma unit_topic_matches:
  assumes "unit_event_topic network u = Some topic" "cu_uuid u = JStr uuid" "uuid \<noteq> []"
  shows "\<exists>rest. topic = events_topic network @ rest \<and> rest \<noteq> [] \<and> topic_matches_unit rest (entity_view (to_entity u))"
  using assms by (auto simp: unit_event_topic_def topic_matches_unit_def entity_view_fields split: if_splits)

lemma light_after_event:
  assumes "lights_ok s" "et_light_ready s" "valid_unit u" "hu_kind u = ''LIGHT''" "rest \<noteq> []" "topic_matches_unit rest u"
    and "CHR ''/'' \<notin> set (the_str (hu_address u))"
  shows "\<exists>l. et_lights (event_processor (events_topic (et_network_name s) @ rest) True (Parsed (Some u)) s)
      (events_topic (et_network_name s) @ rest) = Some l
    \<and> li_network l = et_network_name s \<and> li_address l = the_str (hu_address u) \<and> li_unit_uuid l = the_str (hu_uuid u)
    \<and> li_brightness l = dimmer_or_0 u \<and> (li_is_on l \<longleftrightarrow> dimmer_or_0 u > 0)"
proof (cases "et_lights s (events_topic (et_network_name s) @ rest)")
  case None
  with assms show ?thesis
    by (simp add: event_processor_def strip_prefix_iff[THEN iffD2, OF refl] processed_def Let_def)
      (simp add: new_light_def Let_def)
next
  case (Some l)
  with assms(1) have "light_at (et_network_name s) (events_topic (et_network_name s) @ rest) l"
    by (simp add: lights_ok_def)
  from update_light_at(2)[OF this assms(6,7)] this Some assms show ?thesis
    by (simp add: event_processor_def strip_prefix_iff[THEN iffD2, OF refl] processed_def light_at_def update_light_def)
qed

text \<open>
  C8: a light controls the unit it shows. After any history of messages, when a unit's published entity
  reaches Home Assistant, the light on its topic shows the unit's dimmer, and every turn-on, brightness
  or turn-off it then sends makes the bridge call casambi-bt for exactly that unit, with that level,
  provided the unit's UUID is its own and addresses are single topic levels.
\<close>

theorem light_controls_its_unit:
  fixes env :: command_env and es :: "entity_event list" and entry_id :: string
  defines "s \<equiv> fold entity_step es (new_entities entry_id (en_network env))"
  assumes "list_all slash_free es" "et_light_ready s"
    and "parse (to_entity u) = Parsed (Some (entity_view (to_entity u)))" "entity_type (to_entity u) = ''LIGHT''"
    and "only_unit (\<lambda>v. cu_uuid v = JStr uuid) (cn_units (en_net env)) u" "uuid \<noteq> []" "CHR ''/'' \<notin> set (cu_address u)"
    and "unit_event_topic (en_network env) u = Some topic"
  shows "\<exists>l. et_lights (event_processor topic True (parse (to_entity u)) s) topic = Some l
    \<and> li_brightness l = unit_level u \<and> (li_is_on l \<longleftrightarrow> unit_level u > 0)
    \<and> (0 \<le> b \<and> b \<le> 255 \<longrightarrow> bridge_receives env (light_turn_on (Some (JInt b)) l) w = Inr (w\<lparr>cw_calls := cw_calls w @ [Set_Level u b]\<rparr>))
    \<and> bridge_receives env (light_turn_on None l) w = Inr (w\<lparr>cw_calls := cw_calls w @ [Turn_On u]\<rparr>)
    \<and> bridge_receives env (light_turn_off l) w = Inr (w\<lparr>cw_calls := cw_calls w @ [Set_Level u 0]\<rparr>)"
proof -
  have uuid: "cu_uuid u = JStr uuid" using assms(6) by (simp add: only_unit_def)
  have s: "lights_ok s" "et_network_name s = en_network env"
    using lights_ok_history[OF assms(2) lights_ok_new, of entry_id "en_network env"] unfolding s_def by simp_all
  obtain rest where rest: "topic = events_topic (en_network env) @ rest" "rest \<noteq> []"
    "topic_matches_unit rest (entity_view (to_entity u))"
    using unit_topic_matches[OF assms(9) uuid assms(7)] by blast
  obtain l where l: "et_lights (event_processor topic True (parse (to_entity u)) s) topic = Some l"
    "li_network l = en_network env" "li_address l = cu_address u" "li_unit_uuid l = uuid"
    "li_brightness l = unit_level u" "li_is_on l \<longleftrightarrow> unit_level u > 0"
    using light_after_event[OF s(1) assms(3) entity_view_valid[OF uuid] _ rest(2,3)] assms(4,5,8) rest(1) s(2) uuid
    by (auto simp: entity_view_fields)
  then show ?thesis
    using process_set_level[OF assms(6,7) refl] process_turn_on[OF assms(6,7) refl]
    by (auto simp: bridge_receives_def light_turn_on_def light_turn_off_def)
qed

text \<open>The second of two dimmers, after its light was created from an earlier state.\<close>

definition dimmer_unit :: "string \<Rightarrow> string \<Rightarrow> int \<Rightarrow> casa_unit" where
  "dimmer_unit address uuid level = (sample_unit address level)\<lparr>cu_uuid := JStr uuid,
     cu_unitType := \<lparr>ct_id = 1, ct_manufacturer = ''M'', ct_mode = ''Dim'', ct_model = ''L'', ct_stateLength = 1,
       ct_controls = [\<lparr>cc_default = 0, cc_length = 8, cc_offset = 0, cc_readonly = False, cc_type_name = ''DIMMER'',
         cc_type_value = 0\<rparr>]\<rparr>\<rparr>"

lemma dimmer_unit_simps:
  "cu_address (dimmer_unit a uuid n) = a" "cu_uuid (dimmer_unit a uuid n) = JStr uuid"
  "entity_type (to_entity (dimmer_unit a uuid n)) = ''LIGHT''" "unit_level (dimmer_unit a uuid n) = n"
  by (simp_all add: dimmer_unit_def sample_unit_def entity_type_def to_entity_def to_unit_type_def to_unit_control_def
      to_unit_control_type_def unit_level_def)

definition one_light_history :: "entity_event list" where
  "one_light_history =
     [Light_Platform, Unit_Event ''casambi/net/events/b'' True (Parsed (Some (entity_view (to_entity (dimmer_unit ''b'' ''u2'' 5)))))]"

lemma one_light_history_ready:
  "list_all slash_free one_light_history"
  "et_light_ready (fold entity_step one_light_history (new_entities ''e'' ''net''))"
proof -
  let ?u = "entity_view (to_entity (dimmer_unit ''b'' ''u2'' 5))"
  show "list_all slash_free one_light_history" by (simp add: one_light_history_def entity_view_fields dimmer_unit_simps)
  have ready: "et_light_ready (event_processor topic n p s) = et_light_ready s" for topic n p s
    by (auto simp: event_processor_def processed_def Let_def split: option.split parsed.split)
  show "et_light_ready (fold entity_step one_light_history (new_entities ''e'' ''net''))"
    by (simp add: one_light_history_def ready)
qed

theorem light_controls_its_unit_witness:
  "\<exists>l w'. bridge_receives (sample_env \<lparr>cn_units = [dimmer_unit ''a'' ''u1'' 3, dimmer_unit ''b'' ''u2'' 9], cn_scenes = []\<rparr>)
       (light_turn_on (Some (JInt 128)) l) idle_world = Inr w'
     \<and> cw_calls w' = [Set_Level (dimmer_unit ''b'' ''u2'' 9) 128] \<and> li_brightness l = 9"
proof -
  let ?env = "sample_env \<lparr>cn_units = [dimmer_unit ''a'' ''u1'' 3, dimmer_unit ''b'' ''u2'' 9], cn_scenes = []\<rparr>"
  let ?u = "dimmer_unit ''b'' ''u2'' 9" and ?topic = "''casambi/net/events/b''"
  have "en_network ?env = ''net''" by (simp add: sample_env_def)
  moreover have "only_unit (\<lambda>v. cu_uuid v = JStr ''u2'') (cn_units (en_net ?env)) ?u"
    by (simp add: filter_only_unit[symmetric] sample_env_def dimmer_unit_simps)
  moreover have "unit_event_topic ''net'' ?u = Some ?topic"
    by (simp add: unit_event_topic_def dimmer_unit_simps events_topic_def)
  ultimately show ?thesis
    using light_controls_its_unit[of one_light_history "''e''" ?env "\<lambda>e. Parsed (Some (entity_view e))" ?u "''u2''" ?topic
        128 idle_world] one_light_history_ready
    by (fastforce simp: dimmer_unit_simps idle_world_def)
qed

end
