(* ===== verification/Ha_Switches.thy ===== *)
theory Ha_Switches
  imports Ha_Entities Switch_Publisher Supervisor_State
begin

text \<open>
  Home Assistant's side of the physical switches: the decoding of the bridge's switch events (\<^verbatim>\<open>switch_events.py\<close>), the
  runtime data of one config entry, \<^verbatim>\<open>_async_process_switch_event\<close> and the restoring of known switches (\<^verbatim>\<open>__init__.py\<close>),
  the button entities (\<^verbatim>\<open>event.py\<close>) and the device triggers (\<^verbatim>\<open>device_trigger.py\<close>). The
  device registry is Home Assistant's: the model has its identifiers of the entry's own domain with the device they belong to.
  A callback that learns a button awaits the store; what follows is a step of its own.
\<close>

section \<open>The event contract\<close>

abbreviation "DEFAULT_SWITCH_BUTTONS \<equiv> [1, 2, 3, 4 :: int]"
abbreviation "SUPPORTED_PHASES \<equiv> [''PRESS'', ''RELEASE'', ''HOLD'', ''RELEASE_AFTER_HOLD'']"

text \<open>\<open>None\<close> is a payload on which \<^verbatim>\<open>json.loads\<close> raises; one it does not catch ends the callback at the same point.\<close>

definition in_byte :: "int \<Rightarrow> bool" where
  "in_byte n \<longleftrightarrow> 0 \<le> n \<and> n \<le> 255"

definition decode_switch_event :: "payload \<Rightarrow> (int \<times> int \<times> string) option" where
  "decode_switch_event payload =
     (case payload of
        Some (JObj d) \<Rightarrow>
          (if keys_of d \<noteq> {''unit_id'', ''button'', ''event''} then None
           else
             (let unit_id = get d ''unit_id''; button = get d ''button''; event_type = get d ''event'' in
              if \<not> is_int unit_id \<or> \<not> in_byte (the_int unit_id) \<or> \<not> is_int button \<or> \<not> in_byte (the_int button)
                \<or> \<not> (is_str event_type \<and> the_str event_type \<in> set SUPPORTED_PHASES)
              then None else Some (the_int unit_id, the_int button, the_str event_type)))
      | _ \<Rightarrow> None)"

section \<open>Runtime data\<close>

type_synonym switch_key = "int \<times> int \<times> string"

record switch_unit =
  su_device_id :: string
  su_buttons :: "int list"

record switches =
  sw_entry_id :: string
  sw_topic :: string
  sw_registry :: "(string \<times> string) list"
  sw_units :: "(int \<times> switch_unit) list"
  sw_button_events :: "(int \<times> int) list"
  sw_last :: "switch_key \<Rightarrow> time option"
  sw_events_ready :: bool
  sw_store :: json
  sw_waiting :: "switch_key list"
  sw_added :: "(int \<times> int) list"
  sw_signals :: "(string \<times> string option) list"

definition is_duplicate_switch_event :: "switch_key \<Rightarrow> time \<Rightarrow> switches \<Rightarrow> bool \<times> switches" where
  "is_duplicate_switch_event key now s =
     ((case sw_last s key of None \<Rightarrow> False | Some previous \<Rightarrow> now - previous < SWITCH_EVENT_DEDUP_SECONDS),
      s\<lparr>sw_last := (sw_last s)(key \<mapsto> now)\<rparr>)"

definition add_switch_unit :: "int \<Rightarrow> string \<Rightarrow> switches \<Rightarrow> switches" where
  "add_switch_unit unit_id device s =
     s\<lparr>sw_units := AList.update unit_id \<lparr>su_device_id = device, su_buttons = []\<rparr> (sw_units s)\<rparr>"

definition stored_switch_buttons :: "switches \<Rightarrow> json" where
  "stored_switch_buttons s =
     JObj (map (\<lambda>(n, u). (str_of_int n, JArr (map JInt (sort (su_buttons u)))))
       (filter (\<lambda>(n, u). su_buttons u \<noteq> []) (sw_units s)))"

definition switch_identifier :: "string \<Rightarrow> int \<Rightarrow> string" where
  "switch_identifier entry_id unit_id = entry_id @ '':switch:'' @ str_of_int unit_id"

section \<open>Signals and button entities\<close>

definition switch_event_signal :: "string \<Rightarrow> switch_key \<Rightarrow> string" where
  "switch_event_signal entry_id key =
     (case key of (unit_id, button, event_type) \<Rightarrow>
        ''casambi_mqtt_'' @ entry_id @ ''_switch_'' @ str_of_int unit_id @ ''_'' @ str_of_int button @ ''_'' @ event_type)"

definition switch_button_signal :: "string \<Rightarrow> int \<Rightarrow> int \<Rightarrow> string" where
  "switch_button_signal entry_id unit_id button =
     ''casambi_mqtt_'' @ entry_id @ ''_switch_'' @ str_of_int unit_id @ ''_'' @ str_of_int button"

definition observed_buttons :: "int \<Rightarrow> switches \<Rightarrow> int list" where
  "observed_buttons unit_id s = (case map_of (sw_units s) unit_id of None \<Rightarrow> [] | Some u \<Rightarrow> su_buttons u)"

definition switch_buttons :: "int \<Rightarrow> switches \<Rightarrow> int list" where
  "switch_buttons unit_id s = sort (remdups (DEFAULT_SWITCH_BUTTONS @ observed_buttons unit_id s))"

definition async_add_switch_buttons :: "int \<Rightarrow> switches \<Rightarrow> switches" where
  "async_add_switch_buttons unit_id s =
     (if \<not> sw_events_ready s then s
      else
        (let missing = map (Pair unit_id) (filter (\<lambda>b. (unit_id, b) \<notin> set (sw_button_events s)) (switch_buttons unit_id s)) in
         if missing = [] then s
         else s\<lparr>sw_button_events := sw_button_events s @ missing, sw_added := sw_added s @ missing\<rparr>))"

text \<open>\<^verbatim>\<open>event.async_setup_entry\<close>\<close>

definition event_platform :: "switches \<Rightarrow> switches" where
  "event_platform s = fold async_add_switch_buttons (sort (remdups (map fst (sw_units s)))) (s\<lparr>sw_events_ready := True\<rparr>)"

text \<open>The phase a button entity reports for the signal's argument, if it does.\<close>

definition EVENT_TYPES :: "string list" where
  "EVENT_TYPES = map (map ascii_lower) SUPPORTED_PHASES"

definition handle_switch_event :: "string \<Rightarrow> string option" where
  "handle_switch_event event_type =
     (let phase = map ascii_lower event_type in if phase \<notin> set EVENT_TYPES then None else Some phase)"

section \<open>Processing an event\<close>

text \<open>The end of the callback, after the store's write or at once.\<close>

definition dispatch_switch_event :: "switch_key \<Rightarrow> switches \<Rightarrow> switches" where
  "dispatch_switch_event key s =
     (case key of (unit_id, button, event_type) \<Rightarrow>
        (let s' = async_add_switch_buttons unit_id s in
         s'\<lparr>sw_signals := sw_signals s' @ [(switch_button_signal (sw_entry_id s') unit_id button, Some event_type),
           (switch_event_signal (sw_entry_id s') key, None)]\<rparr>))"

text \<open>The switch's device, created with the id \<open>new_id\<close> when the registry has none.\<close>

definition device_of_switch :: "int \<Rightarrow> string \<Rightarrow> switches \<Rightarrow> string \<times> switches" where
  "device_of_switch unit_id new_id s =
     (let identifier = switch_identifier (sw_entry_id s) unit_id in
      case map_of (sw_registry s) identifier of
        Some device \<Rightarrow> (device, s)
      | None \<Rightarrow> (new_id, s\<lparr>sw_registry := AList.update identifier new_id (sw_registry s)\<rparr>))"

definition adopt_switch :: "int \<Rightarrow> string \<Rightarrow> switches \<Rightarrow> switches" where
  "adopt_switch unit_id device s =
     (case map_of (sw_units s) unit_id of
        None \<Rightarrow> add_switch_unit unit_id device s
      | Some u \<Rightarrow>
          if su_device_id u \<noteq> device
          then s\<lparr>sw_units := AList.update unit_id (u\<lparr>su_device_id := device\<rparr>) (sw_units s)\<rparr> else s)"

definition learn_button :: "int \<Rightarrow> int \<Rightarrow> switches \<Rightarrow> switches" where
  "learn_button unit_id button s =
     (case map_of (sw_units s) unit_id of
        None \<Rightarrow> s
      | Some u \<Rightarrow>
          (let s' = s\<lparr>sw_units := AList.update unit_id (u\<lparr>su_buttons := su_buttons u @ [button]\<rparr>) (sw_units s)\<rparr> in
           s'\<lparr>sw_store := stored_switch_buttons s'\<rparr>))"

definition process_switch_event :: "string \<Rightarrow> bool \<Rightarrow> payload \<Rightarrow> time \<Rightarrow> string \<Rightarrow> switches \<Rightarrow> switches" where
  "process_switch_event topic retain payload now new_id s =
     (if topic \<noteq> sw_topic s \<or> retain then s
      else case decode_switch_event payload of
        None \<Rightarrow> s
      | Some (unit_id, button, event_type) \<Rightarrow>
          (let key = (unit_id, button, event_type); (duplicate, s1) = is_duplicate_switch_event key now s in
           if duplicate then s1
           else
             (let (device, s2) = device_of_switch unit_id new_id s1; s3 = adopt_switch unit_id device s2 in
              if button \<notin> set (observed_buttons unit_id s3)
              then (learn_button unit_id button s3)\<lparr>sw_waiting := sw_waiting s3 @ [key]\<rparr>
              else dispatch_switch_event key s3)))"

text \<open>The \<open>i\<close>-th of the callbacks that await the store goes on.\<close>

definition store_written :: "nat \<Rightarrow> switches \<Rightarrow> switches" where
  "store_written i s =
     (if i < length (sw_waiting s)
      then dispatch_switch_event (sw_waiting s ! i) (s\<lparr>sw_waiting := take i (sw_waiting s) @ drop (Suc i) (sw_waiting s)\<rparr>)
      else s)"

section \<open>Setup\<close>

definition registered_switch_unit :: "string \<times> string \<Rightarrow> switches \<Rightarrow> switches" where
  "registered_switch_unit d s =
     (case strip_prefix (sw_entry_id s @ '':switch:'') (fst d) of
        None \<Rightarrow> s
      | Some rest \<Rightarrow>
          (case py_int rest of
             None \<Rightarrow> s
           | Some unit_id \<Rightarrow> if in_byte unit_id then add_switch_unit unit_id (snd d) s else s))"

definition registered_switch_units :: "switches \<Rightarrow> switches" where
  "registered_switch_units s = fold registered_switch_unit (sw_registry s) s"

definition valid_buttons :: "json \<Rightarrow> int list option" where
  "valid_buttons v = (case v of JArr bs \<Rightarrow> if list_all (\<lambda>b. is_int b \<and> in_byte (the_int b)) bs then Some (map the_int bs) else None
     | _ \<Rightarrow> None)"

definition restore_one :: "string \<times> json \<Rightarrow> switches \<Rightarrow> switches" where
  "restore_one kv s =
     (case py_int (fst kv) of
        None \<Rightarrow> s
      | Some unit_id \<Rightarrow>
          (if \<not> in_byte unit_id then s
           else case valid_buttons (snd kv) of
             None \<Rightarrow> s
           | Some buttons \<Rightarrow>
               (case map_of (sw_registry s) (switch_identifier (sw_entry_id s) unit_id) of
                  None \<Rightarrow> s
                | Some device \<Rightarrow>
                    s\<lparr>sw_units := AList.update unit_id \<lparr>su_device_id = device, su_buttons = remdups buttons\<rparr> (sw_units s)\<rparr>)))"

definition restore_switch_buttons :: "json \<Rightarrow> switches \<Rightarrow> switches" where
  "restore_switch_buttons stored s =
     (let s1 = registered_switch_units s in
      case stored of JObj d \<Rightarrow> fold restore_one d s1 | _ \<Rightarrow> s1)"

text \<open>The switch part of \<^verbatim>\<open>async_setup_entry\<close>, with the registry and the store it finds.\<close>

definition setup_switches :: "string \<Rightarrow> string \<Rightarrow> (string \<times> string) list \<Rightarrow> json \<Rightarrow> switches" where
  "setup_switches entry_id topic registry stored =
     restore_switch_buttons stored
       \<lparr>sw_entry_id = entry_id, sw_topic = topic, sw_registry = registry, sw_units = [], sw_button_events = [],
        sw_last = Map.empty, sw_events_ready = False, sw_store = stored, sw_waiting = [], sw_added = [], sw_signals = []\<rparr>"

text \<open>
  What happens to a loaded entry: a message, the end of a store's write, the event platform's setup, a
  change of the registry by Home Assistant, and a reload or restart, which drops waiting callbacks.
\<close>

datatype switch_act =
  Received string bool payload time string
| Store_Written nat
| Platform_Ready
| Registry_Changed "(string \<times> string) list"
| Reloaded

fun switch_act_step :: "switch_act \<Rightarrow> switches \<Rightarrow> switches" where
  "switch_act_step (Received topic retain payload now new_id) s = process_switch_event topic retain payload now new_id s"
| "switch_act_step (Store_Written i) s = store_written i s"
| "switch_act_step Platform_Ready s = event_platform s"
| "switch_act_step (Registry_Changed registry) s = s\<lparr>sw_registry := registry\<rparr>"
| "switch_act_step Reloaded s = setup_switches (sw_entry_id s) (sw_topic s) (sw_registry s) (sw_store s)"

end
