(* ===== verification/Number_Text.thy ===== *)
theory Number_Text
  imports Casambi_Units Supervisor_State
begin

text \<open>
  The decimal text of an int and Python's \<^verbatim>\<open>int\<close> on it: \<^verbatim>\<open>int(str(n)) == n\<close>, so different
  ints have different texts, and the text of a natural number consists of digits.
\<close>

lemma less_ten: "n < 10 \<Longrightarrow> n \<in> {0, 1, 2, 3, 4, 5, 6, 7, 8, 9 :: nat}"
  by auto

lemma digit_of_hex: "n < 10 \<Longrightarrow> is_digit (hex_digit n) \<and> digit_value (hex_digit n) = int n"
  using less_ten[of n]
  by (auto simp: is_digit_def in_range_def hex_digit_def digit_value_def of_char_def)

lemma str_of_nat_digits: "list_all is_digit (str_of_nat n) \<and> str_of_nat n \<noteq> []"
proof (induction n rule: str_of_nat.induct)
  case (1 n)
  then show ?case by (subst (1 2) str_of_nat.simps) (auto simp: digit_of_hex)
qed

lemma py_digits_foldl:
  "list_all is_digit s \<Longrightarrow> py_digits acc s = Some (foldl (\<lambda>a c. 10 * a + digit_value c) acc s)"
  by (induction acc s rule: py_digits.induct) auto

lemma foldl_str_of_nat: "foldl (\<lambda>a c. 10 * a + digit_value c) 0 (str_of_nat n) = int n"
proof (induction n rule: str_of_nat.induct)
  case (1 n)
  show ?case
  proof (cases "n < 10")
    case True
    then show ?thesis by (subst str_of_nat.simps) (simp add: digit_of_hex)
  next
    case False
    have "10 * int (n div 10) + int (n mod 10) = int n" by presburger
    with False show ?thesis using 1[OF False] by (subst str_of_nat.simps) (simp add: digit_of_hex)
  qed
qed

lemma digit_not_space: "is_digit c \<Longrightarrow> \<not> is_space c \<and> c \<noteq> CHR ''-'' \<and> c \<noteq> CHR ''+'' \<and> c \<noteq> CHR ''_''"
  by (auto simp: is_digit_def in_range_def is_space_def of_char_def)

lemma strip_unspaced:
  assumes "s \<noteq> []" "\<not> is_space (hd s)" "\<not> is_space (last s)"
  shows "strip s = s"
proof -
  have "dropWhile is_space s = s" using assms(2) by (simp add: dropWhile_eq_self_iff)
  moreover have "dropWhile is_space (rev s) = rev s" using assms(1,3) by (simp add: dropWhile_eq_self_iff hd_rev)
  ultimately show ?thesis by (simp add: strip_def)
qed

lemma py_nat_str_of_nat [simp]: "py_nat (str_of_nat n) = Some (int n)"
  using str_of_nat_digits[of n] py_digits_foldl[of "str_of_nat n" 0] foldl_str_of_nat[of n]
  by (cases "str_of_nat n") (simp_all add: py_nat_def)

lemma py_int_str_of_int [simp]: "py_int (str_of_int n) = Some n"
proof -
  note d = str_of_nat_digits[of "nat n"] str_of_nat_digits[of "nat (- n)"]
  have last_digit: "is_digit (last s)" "is_digit (hd s)" if "list_all is_digit s" "s \<noteq> []" for s
    using that by (auto simp: list_all_iff)
  show ?thesis
  proof (cases "n < 0")
    case True
    then have "strip (str_of_int n) = str_of_int n"
      using last_digit[of "str_of_nat (nat (- n))"] d digit_not_space
      by (intro strip_unspaced) (auto simp: str_of_int_def is_space_def of_char_def)
    with True show ?thesis by (simp add: py_int_def str_of_int_def)
  next
    case False
    then have "strip (str_of_int n) = str_of_int n"
      using last_digit[of "str_of_nat (nat n)"] d digit_not_space
      by (intro strip_unspaced) (auto simp: str_of_int_def)
    with False d(1) show ?thesis using digit_not_space py_nat_str_of_nat[of "nat n"]
      by (cases "str_of_nat (nat n)") (auto simp: py_int_def str_of_int_def)
  qed
qed

lemma str_of_int_inj [simp]: "str_of_int m = str_of_int n \<longleftrightarrow> m = n"
  using py_int_str_of_int[of m] py_int_str_of_int[of n] by (metis option.inject)

lemma str_of_int_digits: "0 \<le> n \<Longrightarrow> list_all is_digit (str_of_int n) \<and> str_of_int n \<noteq> []"
  using str_of_nat_digits[of "nat n"] by (simp add: str_of_int_def)

end
