(* ===== verification/Switch_Restore.thy ===== *)
theory Switch_Restore
  imports Ha_Switches Number_Text
begin

text \<open>
  The durable part of Home Assistant's switches: what \<^verbatim>\<open>stored_switch_buttons\<close> writes and what
  \<^verbatim>\<open>_restore_switch_buttons\<close> reads back, whatever the store and the device registry hold, so that no
  button a switch has shown is lost by a reload of the entry.
\<close>

section \<open>What a store holds for a unit\<close>

definition stored_binding :: "int \<Rightarrow> string \<times> json \<Rightarrow> int list \<Rightarrow> int list" where
  "stored_binding n kv acc =
     (if py_int (fst kv) = Some n then case valid_buttons (snd kv) of None \<Rightarrow> acc | Some buttons \<Rightarrow> remdups buttons else acc)"

definition stored_for :: "json \<Rightarrow> int \<Rightarrow> int list" where
  "stored_for stored n = (case stored of JObj d \<Rightarrow> fold (stored_binding n) d [] | _ \<Rightarrow> [])"

definition unit_ok :: "int \<Rightarrow> switch_unit \<Rightarrow> bool" where
  "unit_ok n u \<longleftrightarrow> in_byte n \<and> list_all in_byte (su_buttons u) \<and> distinct (su_buttons u)"

definition units_ok :: "(int \<times> switch_unit) list \<Rightarrow> bool" where
  "units_ok us \<longleftrightarrow> distinct (map fst us) \<and> (\<forall>n u. map_of us n = Some u \<longrightarrow> unit_ok n u)"

lemma units_ok_Nil [simp]: "units_ok []"
  by (simp add: units_ok_def)

lemma units_ok_lookup: "units_ok us \<Longrightarrow> map_of us n = Some u \<Longrightarrow> unit_ok n u"
  by (simp add: units_ok_def)

lemma units_ok_update [intro]: "units_ok us \<Longrightarrow> unit_ok n u \<Longrightarrow> units_ok (AList.update n u us)"
  by (auto simp: units_ok_def distinct_update update_conv')

lemma units_ok_Cons: "units_ok ((m, u) # us) \<longleftrightarrow> map_of us m = None \<and> unit_ok m u \<and> units_ok us"
proof
  assume ok: "units_ok ((m, u) # us)"
  then have m: "map_of us m = None" by (simp add: units_ok_def map_of_eq_None_iff)
  have "unit_ok n v" if "map_of us n = Some v" for n v
    using ok that m by (cases "n = m") (auto simp: units_ok_def)
  with ok m show "map_of us m = None \<and> unit_ok m u \<and> units_ok us" by (auto simp: units_ok_def)
next
  assume "map_of us m = None \<and> unit_ok m u \<and> units_ok us"
  then show "units_ok ((m, u) # us)" by (auto simp: units_ok_def map_of_eq_None_iff)
qed

lemma valid_buttons_sorted: "list_all in_byte bs \<Longrightarrow> valid_buttons (JArr (map JInt (sort bs))) = Some (sort bs)"
  by (simp add: valid_buttons_def list_all_iff comp_def)

lemma valid_buttons_bytes: "valid_buttons v = Some bs \<Longrightarrow> list_all in_byte bs"
  by (auto simp: valid_buttons_def list_all_iff split: json.splits if_splits)

lemma stored_bindings:
  assumes "units_ok us"
  shows "fold (stored_binding n) (map (\<lambda>(m, u). (str_of_int m, JArr (map JInt (sort (su_buttons u))))) (filter (\<lambda>(m, u). su_buttons u \<noteq> []) us)) acc
    = (case map_of us n of None \<Rightarrow> acc | Some u \<Rightarrow> if su_buttons u = [] then acc else sort (su_buttons u))"
  using assms
proof (induction us arbitrary: acc)
  case (Cons x us)
  obtain m u where x: "x = (m, u)" by force
  from Cons.prems x have "map_of us m = None" and u: "list_all in_byte (su_buttons u)" "distinct (su_buttons u)" and ih: "units_ok us"
    by (auto simp: units_ok_Cons unit_ok_def)
  with Cons.IH[OF ih] show ?case
    by (auto simp: x stored_binding_def valid_buttons_sorted distinct_remdups_id)
qed simp

lemma stored_for_stored: "units_ok (sw_units s) \<Longrightarrow> stored_for (stored_switch_buttons s) n = sort (observed_buttons n s)"
  using stored_bindings[of "sw_units s" n "[]"]
  by (auto simp: stored_for_def stored_switch_buttons_def observed_buttons_def split: option.splits)

section \<open>Setup\<close>

lemma observed_add_switch_unit [simp]:
  "observed_buttons n (add_switch_unit m d s) = (if n = m then [] else observed_buttons n s)"
  by (simp add: observed_buttons_def add_switch_unit_def update_conv')

abbreviation same_entry :: "switches \<Rightarrow> switches \<Rightarrow> bool" where
  "same_entry s s' \<equiv> sw_entry_id s' = sw_entry_id s \<and> sw_topic s' = sw_topic s \<and> sw_registry s' = sw_registry s \<and> sw_store s' = sw_store s
     \<and> sw_last s' = sw_last s \<and> sw_button_events s' = sw_button_events s \<and> sw_waiting s' = sw_waiting s
     \<and> sw_signals s' = sw_signals s \<and> sw_events_ready s' = sw_events_ready s"

lemma registered_one_same: "same_entry s (registered_switch_unit d s)"
  by (auto simp: registered_switch_unit_def add_switch_unit_def split: option.splits)

lemma registered_one_ok: "units_ok (sw_units s) \<Longrightarrow> units_ok (sw_units (registered_switch_unit d s))"
  by (auto simp: registered_switch_unit_def add_switch_unit_def unit_ok_def split: option.splits)

lemma registered_one_buttons: "\<forall>n. observed_buttons n s = [] \<Longrightarrow> \<forall>n. observed_buttons n (registered_switch_unit d s) = []"
  by (auto simp: registered_switch_unit_def split: option.splits)

lemma registered_one_keeps: "n \<in> fst ` set (sw_units s) \<Longrightarrow> n \<in> fst ` set (sw_units (registered_switch_unit d s))"
  by (auto simp: registered_switch_unit_def add_switch_unit_def dom_update split: option.splits)

lemma registered_one_adds:
  assumes "in_byte n" "fst d = switch_identifier (sw_entry_id s) n"
  shows "n \<in> fst ` set (sw_units (registered_switch_unit d s))"
proof -
  have "strip_prefix (sw_entry_id s @ '':switch:'') (switch_identifier (sw_entry_id s) n) = Some (str_of_int n)"
    by (simp add: strip_prefix_def switch_identifier_def)
  with assms show ?thesis by (simp add: registered_switch_unit_def add_switch_unit_def dom_update)
qed

lemma registered_fold:
  "same_entry s (fold registered_switch_unit ds s)
   \<and> (units_ok (sw_units s) \<longrightarrow> units_ok (sw_units (fold registered_switch_unit ds s)))
   \<and> ((\<forall>n. observed_buttons n s = []) \<longrightarrow> (\<forall>n. observed_buttons n (fold registered_switch_unit ds s) = []))
   \<and> fst ` set (sw_units s) \<subseteq> fst ` set (sw_units (fold registered_switch_unit ds s))"
proof (induction ds arbitrary: s)
  case (Cons d ds)
  show ?case
    using Cons.IH[where s = "registered_switch_unit d s"] registered_one_same[where s = s and d = d] registered_one_ok[where s = s and d = d]
      registered_one_buttons[where s = s and d = d] registered_one_keeps[where s = s and d = d] by (simp add: subset_iff)
qed simp

lemma registered_fold_adds:
  assumes "in_byte n" "(switch_identifier (sw_entry_id s) n, dev) \<in> set ds"
  shows "n \<in> fst ` set (sw_units (fold registered_switch_unit ds s))"
  using assms(2)
proof (induction ds arbitrary: s)
  case (Cons d ds)
  let ?s = "registered_switch_unit d s"
  show ?case
  proof (cases "d = (switch_identifier (sw_entry_id s) n, dev)")
    case True
    with registered_one_adds[OF assms(1), of d s] registered_fold[where s = ?s and ds = ds] show ?thesis by auto
  next
    case False
    with Cons.prems Cons.IH[where s = ?s] registered_one_same[where s = s and d = d] show ?thesis by simp
  qed
qed simp

lemma restore_one_step:
  "same_entry s (restore_one kv s)
   \<and> (units_ok (sw_units s) \<longrightarrow> units_ok (sw_units (restore_one kv s)))
   \<and> fst ` set (sw_units s) \<subseteq> fst ` set (sw_units (restore_one kv s))"
  by (auto simp: restore_one_def unit_ok_def dom_update list_all_iff dest: valid_buttons_bytes split: option.splits intro!: units_ok_update)

lemma restore_one_buttons:
  assumes "in_byte n"
  shows "observed_buttons n (restore_one kv s) =
    (if map_of (sw_registry s) (switch_identifier (sw_entry_id s) n) = None then observed_buttons n s
     else stored_binding n kv (observed_buttons n s))"
  using assms
  by (auto simp: restore_one_def stored_binding_def observed_buttons_def update_conv' split: option.splits)

lemma restore_fold:
  "same_entry s (fold restore_one d s)
   \<and> (units_ok (sw_units s) \<longrightarrow> units_ok (sw_units (fold restore_one d s)))
   \<and> fst ` set (sw_units s) \<subseteq> fst ` set (sw_units (fold restore_one d s))"
proof (induction d arbitrary: s)
  case (Cons kv d)
  show ?case using Cons.IH[where s = "restore_one kv s"] restore_one_step[where s = s and kv = kv] by (auto simp: subset_iff)
qed simp

lemma restore_fold_buttons:
  assumes "in_byte n"
  shows "observed_buttons n (fold restore_one d s) =
    (if map_of (sw_registry s) (switch_identifier (sw_entry_id s) n) = None then observed_buttons n s
     else fold (stored_binding n) d (observed_buttons n s))"
proof (induction d arbitrary: s)
  case (Cons kv d)
  show ?case using Cons.IH[where s = "restore_one kv s"] restore_one_step[where s = s and kv = kv] restore_one_buttons[OF assms, where s = s and kv = kv]
    by simp
qed simp

text \<open>What is known after a setup, exactly: the stored buttons of the switches whose devices are still registered.\<close>

abbreviation start_of :: "string \<Rightarrow> string \<Rightarrow> (string \<times> string) list \<Rightarrow> json \<Rightarrow> switches" where
  "start_of e t r stored \<equiv> \<lparr>sw_entry_id = e, sw_topic = t, sw_registry = r, sw_units = [], sw_button_events = [],
     sw_last = Map.empty, sw_events_ready = False, sw_store = stored, sw_waiting = [], sw_added = [], sw_signals = []\<rparr>"

lemma setup_switches_cases:
  "setup_switches e t r stored =
    (case stored of JObj d \<Rightarrow> fold restore_one d (fold registered_switch_unit r (start_of e t r stored))
     | _ \<Rightarrow> fold registered_switch_unit r (start_of e t r stored))"
  by (simp add: setup_switches_def restore_switch_buttons_def registered_switch_units_def Let_def)

lemma setup_buttons:
  assumes "in_byte n"
  shows "observed_buttons n (setup_switches e t r stored) =
    (if map_of r (switch_identifier e n) = None then [] else stored_for stored n)"
proof -
  define s1 where "s1 = fold registered_switch_unit r (start_of e t r stored)"
  have "observed_buttons n s1 = []" "sw_registry s1 = r" "sw_entry_id s1 = e"
    using registered_fold[where s = "start_of e t r stored" and ds = r] by (simp_all add: observed_buttons_def s1_def)
  then show ?thesis
    using restore_fold_buttons[OF assms, where s = s1]
    unfolding setup_switches_cases s1_def[symmetric] by (simp add: stored_for_def split: json.split)
qed

lemma setup_same: "same_entry (start_of e t r stored) (setup_switches e t r stored) \<and> units_ok (sw_units (setup_switches e t r stored))"
proof -
  define s1 where "s1 = fold registered_switch_unit r (start_of e t r stored)"
  have "same_entry (start_of e t r stored) s1 \<and> units_ok (sw_units s1)"
    using registered_fold[where s = "start_of e t r stored" and ds = r] by (simp add: s1_def)
  then show ?thesis using restore_fold[where s = s1]
    unfolding setup_switches_cases s1_def[symmetric] by (simp split: json.split)
qed

lemma setup_adopts:
  assumes "in_byte n" "map_of r (switch_identifier e n) \<noteq> None"
  shows "n \<in> fst ` set (sw_units (setup_switches e t r stored))"
proof -
  define s1 where "s1 = fold registered_switch_unit r (start_of e t r stored)"
  obtain dev where "(switch_identifier e n, dev) \<in> set r" using assms(2) by (auto dest: map_of_SomeD)
  then have "n \<in> fst ` set (sw_units s1)"
    unfolding s1_def by (intro registered_fold_adds[OF assms(1)]) simp
  then show ?thesis using restore_fold[where s = s1]
    unfolding setup_switches_cases s1_def[symmetric] by (auto simp: subset_iff split: json.split)
qed

section \<open>Nothing learnt is lost\<close>

text \<open>The store holds every observed button, at least.\<close>

definition store_covers :: "switches \<Rightarrow> bool" where
  "store_covers s \<longleftrightarrow> units_ok (sw_units s) \<and> (\<forall>n. set (observed_buttons n s) \<subseteq> set (stored_for (sw_store s) n))"

lemma decoded_bytes: "decode_switch_event p = Some (n, b, e) \<Longrightarrow> in_byte n \<and> in_byte b"
  by (auto simp: decode_switch_event_def Let_def split: option.splits json.splits if_splits)

lemma async_add_same [simp]:
  "sw_units (async_add_switch_buttons n s) = sw_units s" "sw_store (async_add_switch_buttons n s) = sw_store s"
  "sw_entry_id (async_add_switch_buttons n s) = sw_entry_id s" "sw_topic (async_add_switch_buttons n s) = sw_topic s"
  "sw_registry (async_add_switch_buttons n s) = sw_registry s" "sw_waiting (async_add_switch_buttons n s) = sw_waiting s"
  "sw_signals (async_add_switch_buttons n s) = sw_signals s" "sw_last (async_add_switch_buttons n s) = sw_last s"
  by (simp_all add: async_add_switch_buttons_def Let_def)

lemma dispatch_same [simp]:
  "sw_units (dispatch_switch_event k s) = sw_units s" "sw_store (dispatch_switch_event k s) = sw_store s"
  "sw_entry_id (dispatch_switch_event k s) = sw_entry_id s" "sw_topic (dispatch_switch_event k s) = sw_topic s"
  "sw_registry (dispatch_switch_event k s) = sw_registry s" "sw_waiting (dispatch_switch_event k s) = sw_waiting s"
  "sw_last (dispatch_switch_event k s) = sw_last s"
  by (simp_all add: dispatch_switch_event_def Let_def split: prod.split)

lemma event_platform_same [simp]:
  "sw_units (event_platform s) = sw_units s" "sw_store (event_platform s) = sw_store s"
  "sw_entry_id (event_platform s) = sw_entry_id s" "sw_topic (event_platform s) = sw_topic s"
  "sw_waiting (event_platform s) = sw_waiting s" "sw_signals (event_platform s) = sw_signals s" "sw_last (event_platform s) = sw_last s"
  "sw_registry (event_platform s) = sw_registry s"
proof -
  have "sw_units (fold async_add_switch_buttons ns s) = sw_units s \<and> sw_store (fold async_add_switch_buttons ns s) = sw_store s
    \<and> sw_entry_id (fold async_add_switch_buttons ns s) = sw_entry_id s \<and> sw_topic (fold async_add_switch_buttons ns s) = sw_topic s
    \<and> sw_waiting (fold async_add_switch_buttons ns s) = sw_waiting s \<and> sw_signals (fold async_add_switch_buttons ns s) = sw_signals s
    \<and> sw_last (fold async_add_switch_buttons ns s) = sw_last s \<and> sw_registry (fold async_add_switch_buttons ns s) = sw_registry s" for ns s
    by (induction ns arbitrary: s) simp_all
  then show "sw_units (event_platform s) = sw_units s" "sw_store (event_platform s) = sw_store s"
    "sw_entry_id (event_platform s) = sw_entry_id s" "sw_topic (event_platform s) = sw_topic s"
    "sw_waiting (event_platform s) = sw_waiting s" "sw_signals (event_platform s) = sw_signals s" "sw_last (event_platform s) = sw_last s"
  "sw_registry (event_platform s) = sw_registry s"
    by (simp_all add: event_platform_def)
qed

lemma observed_cong: "sw_units s = sw_units s' \<Longrightarrow> observed_buttons n s = observed_buttons n s'"
  by (simp add: observed_buttons_def)

lemma store_covers_cong: "sw_units s = sw_units s' \<Longrightarrow> sw_store s = sw_store s' \<Longrightarrow> store_covers s \<longleftrightarrow> store_covers s'"
  by (simp add: store_covers_def observed_buttons_def)

lemma observed_adopt [simp]: "observed_buttons n (adopt_switch m d s) = observed_buttons n s"
  by (simp add: adopt_switch_def observed_buttons_def add_switch_unit_def update_conv' split: option.split)

lemma adopt_known: "map_of (sw_units (adopt_switch m d s)) m \<noteq> None"
  by (simp add: adopt_switch_def add_switch_unit_def update_conv' split: option.split)

lemma adopt_same:
  "sw_store (adopt_switch m d s) = sw_store s" "sw_entry_id (adopt_switch m d s) = sw_entry_id s"
  "sw_topic (adopt_switch m d s) = sw_topic s" "sw_waiting (adopt_switch m d s) = sw_waiting s"
  "sw_signals (adopt_switch m d s) = sw_signals s" "sw_last (adopt_switch m d s) = sw_last s"
  by (simp_all add: adopt_switch_def add_switch_unit_def split: option.split)

lemma adopt_covers:
  assumes "store_covers s" "in_byte m"
  shows "store_covers (adopt_switch m d s)"
proof -
  from assms(1) have ok: "units_ok (sw_units s)" by (simp add: store_covers_def)
  then have "unit_ok m u" if "map_of (sw_units s) m = Some u" for u using that by (rule units_ok_lookup)
  with ok assms(2) have "units_ok (sw_units (adopt_switch m d s))"
    by (cases "map_of (sw_units s) m") (auto simp: adopt_switch_def add_switch_unit_def unit_ok_def intro!: units_ok_update)
  with assms(1) show ?thesis by (simp add: store_covers_def adopt_same)
qed

lemma learn_same:
  "sw_entry_id (learn_button m b s) = sw_entry_id s" "sw_topic (learn_button m b s) = sw_topic s"
  "sw_waiting (learn_button m b s) = sw_waiting s" "sw_signals (learn_button m b s) = sw_signals s"
  "sw_last (learn_button m b s) = sw_last s"
  by (simp_all add: learn_button_def Let_def split: option.split)

lemma learn_covers:
  assumes "store_covers s" "in_byte b" "b \<notin> set (observed_buttons m s)"
  shows "store_covers (learn_button m b s)"
proof (cases "map_of (sw_units s) m")
  case (Some u)
  define s1 where "s1 = s\<lparr>sw_units := AList.update m (u\<lparr>su_buttons := su_buttons u @ [b]\<rparr>) (sw_units s)\<rparr>"
  have ok: "unit_ok m u" using assms(1) Some by (auto simp: store_covers_def intro: units_ok_lookup)
  have "units_ok (sw_units s1)"
    using assms ok Some by (simp add: store_covers_def s1_def unit_ok_def observed_buttons_def units_ok_update)
  moreover have "learn_button m b s = s1\<lparr>sw_store := stored_switch_buttons s1\<rparr>" using Some by (simp add: learn_button_def s1_def Let_def)
  ultimately show ?thesis using stored_for_stored[of s1] by (simp add: store_covers_def observed_buttons_def)
qed (use assms in \<open>simp add: learn_button_def\<close>)

lemma device_of_switch_shape: "\<exists>dev reg. device_of_switch n new_id s = (dev, s\<lparr>sw_registry := reg\<rparr>)"
proof (cases "map_of (sw_registry s) (switch_identifier (sw_entry_id s) n)")
  case None
  then show ?thesis by (auto simp: device_of_switch_def)
next
  case (Some dev)
  then have "device_of_switch n new_id s = (dev, s\<lparr>sw_registry := sw_registry s\<rparr>)" by (simp add: device_of_switch_def)
  then show ?thesis by blast
qed

lemma process_cases:
  obtains (ignored) "topic \<noteq> sw_topic s \<or> retain \<or> decode_switch_event p = None" "process_switch_event topic retain p now new_id s = s"
  | (repeated) key where "topic = sw_topic s" "\<not> retain" "decode_switch_event p = Some key"
      "fst (is_duplicate_switch_event key now s)" "process_switch_event topic retain p now new_id s = s\<lparr>sw_last := (sw_last s)(key \<mapsto> now)\<rparr>"
  | (accepted) n b e reg dev where "topic = sw_topic s" "\<not> retain" "decode_switch_event p = Some (n, b, e)"
      "\<not> fst (is_duplicate_switch_event (n, b, e) now s)"
      "process_switch_event topic retain p now new_id s = (let s3 = adopt_switch n dev (s\<lparr>sw_last := (sw_last s)((n, b, e) \<mapsto> now), sw_registry := reg\<rparr>) in
        if b \<in> set (observed_buttons n s) then dispatch_switch_event (n, b, e) s3
        else (learn_button n b s3)\<lparr>sw_waiting := sw_waiting s @ [(n, b, e)]\<rparr>)"
proof (cases "topic \<noteq> sw_topic s \<or> retain \<or> decode_switch_event p = None")
  case True
  with that(1) show ?thesis by (auto simp: process_switch_event_def)
next
  case False
  then obtain n b e where key: "decode_switch_event p = Some (n, b, e)" by (cases "decode_switch_event p") auto
  define s1 where "s1 = s\<lparr>sw_last := (sw_last s)((n, b, e) \<mapsto> now)\<rparr>"
  show ?thesis
  proof (cases "fst (is_duplicate_switch_event (n, b, e) now s)")
    case True
    with False key that(2)[of "(n, b, e)"] show ?thesis
      by (simp add: process_switch_event_def is_duplicate_switch_event_def)
  next
    case no: False
    obtain dev reg where d: "device_of_switch n new_id s1 = (dev, s1\<lparr>sw_registry := reg\<rparr>)"
      using device_of_switch_shape by blast
    have dup: "is_duplicate_switch_event (n, b, e) now s = (False, s1)"
      using no by (simp add: is_duplicate_switch_event_def s1_def)
    have observed: "observed_buttons n (adopt_switch n dev (s1\<lparr>sw_registry := reg\<rparr>)) = observed_buttons n s"
      unfolding observed_adopt by (simp add: observed_buttons_def s1_def)
    have "process_switch_event topic retain p now new_id s = (let s3 = adopt_switch n dev (s1\<lparr>sw_registry := reg\<rparr>) in
        if b \<in> set (observed_buttons n s) then dispatch_switch_event (n, b, e) s3
        else (learn_button n b s3)\<lparr>sw_waiting := sw_waiting s @ [(n, b, e)]\<rparr>)"
      using False key dup d observed
      by (simp add: process_switch_event_def Let_def adopt_same) (simp add: s1_def)
    then show ?thesis using False key no by (intro that(3)) (auto simp: s1_def)
  qed
qed

lemma process_covers:
  assumes "store_covers s"
  shows "store_covers (process_switch_event topic retain p now new_id s)"
proof (cases rule: process_cases[where topic = topic and retain = retain and p = p and now = now and new_id = new_id and s = s])
  case (accepted n b e reg dev)
  let ?s2 = "s\<lparr>sw_last := (sw_last s)((n, b, e) \<mapsto> now), sw_registry := reg\<rparr>"
  let ?s3 = "adopt_switch n dev ?s2"
  have bytes: "in_byte n" "in_byte b" using decoded_bytes[OF accepted(3)] by simp_all
  have "store_covers ?s2" using assms by (simp add: store_covers_def observed_buttons_def)
  with bytes have s3: "store_covers ?s3" by (simp add: adopt_covers)
  have "observed_buttons n ?s3 = observed_buttons n s" unfolding observed_adopt by (simp add: observed_buttons_def)
  then have "store_covers (learn_button n b ?s3)" if "b \<notin> set (observed_buttons n s)"
    using that s3 bytes by (simp add: learn_covers)
  moreover have "store_covers (dispatch_switch_event (n, b, e) ?s3)"
    using s3 by (simp add: store_covers_cong[of "dispatch_switch_event (n, b, e) ?s3" ?s3])
  ultimately show ?thesis using accepted(5)
    by (simp add: Let_def store_covers_def observed_buttons_def split: if_splits)
qed (use assms in \<open>simp_all add: store_covers_def observed_buttons_def\<close>)

lemma setup_covers: "store_covers (setup_switches e t r stored)"
proof -
  let ?s = "setup_switches e t r stored"
  have ok: "units_ok (sw_units ?s)" and store: "sw_store ?s = stored"
    using setup_same[where e = e and t = t and r = r and stored = stored] by simp_all
  have "set (observed_buttons n ?s) \<subseteq> set (stored_for stored n)" for n
  proof (cases "in_byte n")
    case False
    with ok have "map_of (sw_units ?s) n = None" by (cases "map_of (sw_units ?s) n") (auto dest: units_ok_lookup simp: unit_ok_def)
    then show ?thesis by (simp add: observed_buttons_def)
  qed (simp add: setup_buttons)
  with ok store show ?thesis by (simp add: store_covers_def)
qed

lemma act_covers: "store_covers s \<Longrightarrow> store_covers (switch_act_step a s)"
proof (cases a)
  case (Store_Written i)
  assume "store_covers s"
  then show ?thesis
    by (simp add: Store_Written store_written_def store_covers_cong[of "dispatch_switch_event _ _" s])
next
  case Platform_Ready
  assume "store_covers s"
  then show ?thesis by (simp add: Platform_Ready store_covers_cong[of "event_platform s" s])
next
  case (Registry_Changed reg)
  assume "store_covers s"
  then show ?thesis by (simp add: Registry_Changed store_covers_def observed_buttons_def)
qed (simp_all add: process_covers setup_covers)

lemma act_entry: "sw_entry_id (switch_act_step a s) = sw_entry_id s \<and> sw_topic (switch_act_step a s) = sw_topic s"
proof (cases a)
  case (Received topic retain p now new_id)
  show ?thesis unfolding Received switch_act_step.simps
    by (cases rule: process_cases[where topic = topic and retain = retain and p = p and now = now and new_id = new_id and s = s])
      (simp_all add: Let_def adopt_same learn_same)
qed (use setup_same[where e = "sw_entry_id s" and t = "sw_topic s" and r = "sw_registry s" and stored = "sw_store s"]
      in \<open>simp_all add: store_written_def\<close>)

lemma run_covers: "store_covers s \<Longrightarrow> store_covers (fold switch_act_step acts s)"
  by (induction acts arbitrary: s) (simp_all add: act_covers)

lemma switch_run_entry: "sw_entry_id (fold switch_act_step acts s) = sw_entry_id s \<and> sw_topic (fold switch_act_step acts s) = sw_topic s"
  by (induction acts arbitrary: s) (simp_all add: act_entry)

section \<open>Button entities\<close>

lemma async_add_adds:
  assumes "sw_events_ready s"
  shows "sw_events_ready (async_add_switch_buttons n s) \<and> set (sw_button_events s) \<subseteq> set (sw_button_events (async_add_switch_buttons n s))
    \<and> (\<forall>b\<in>set (switch_buttons n s). (n, b) \<in> set (sw_button_events (async_add_switch_buttons n s)))"
  using assms by (auto simp: async_add_switch_buttons_def Let_def filter_empty_conv)

lemma switch_buttons_cong: "sw_units s = sw_units s' \<Longrightarrow> switch_buttons n s = switch_buttons n s'"
  by (simp add: switch_buttons_def observed_buttons_def)

lemma fold_adds:
  assumes "sw_events_ready s"
  shows "set (sw_button_events s) \<subseteq> set (sw_button_events (fold async_add_switch_buttons ns s))
    \<and> (\<forall>n\<in>set ns. \<forall>b\<in>set (switch_buttons n s). (n, b) \<in> set (sw_button_events (fold async_add_switch_buttons ns s)))"
  using assms
proof (induction ns arbitrary: s)
  case (Cons n ns)
  have same: "switch_buttons m (async_add_switch_buttons n s) = switch_buttons m s" for m by (rule switch_buttons_cong) simp
  show ?case
    using Cons.IH[where s = "async_add_switch_buttons n s"] async_add_adds[OF Cons.prems, of n] same by auto
qed simp

lemma event_platform_adds:
  assumes "n \<in> fst ` set (sw_units s)" "b \<in> set (switch_buttons n s)"
  shows "(n, b) \<in> set (sw_button_events (event_platform s))"
proof -
  let ?s = "s\<lparr>sw_events_ready := True\<rparr>" and ?ns = "sort (remdups (map fst (sw_units s)))"
  have "switch_buttons n ?s = switch_buttons n s" by (rule switch_buttons_cong) simp
  moreover have "n \<in> set ?ns" using assms(1) by simp
  moreover have "\<forall>n\<in>set ?ns. \<forall>b\<in>set (switch_buttons n ?s). (n, b) \<in> set (sw_button_events (fold async_add_switch_buttons ?ns ?s))"
    by (rule fold_adds[THEN conjunct2]) simp
  ultimately show ?thesis using assms(2) unfolding event_platform_def by metis
qed

section \<open>The property\<close>


text \<open>A switch shows its seventh button; its device is created, the button is stored and survives.\<close>

definition sample_press :: switch_act where
  "sample_press = Received ''casambi/home/switch_events'' False
     (Some (JObj [(''unit_id'', JInt 9), (''button'', JInt 7), (''event'', JStr ''PRESS'')])) 3 ''dev9''"


end
