(* ===== verification/Switch_Signals.thy ===== *)
theory Switch_Signals
  imports Switch_Restore "HOL-Library.Multiset"
begin

text \<open>
  From the bridge's switch events to the signals of event entities and device triggers: which payloads are
  decoded, which of the decoded events are dispatched under any interleaving of messages with the store's writes,
  and that a signal's name belongs to one event only.
\<close>

section \<open>Decoding\<close>

lemma decode_object:
  "decode_switch_event (Some (JObj d)) = Some (n, b, e) \<longleftrightarrow>
     keys_of d = {''unit_id'', ''button'', ''event''} \<and> get d ''unit_id'' = JInt n \<and> get d ''button'' = JInt b \<and> get d ''event'' = JStr e
     \<and> in_byte n \<and> in_byte b \<and> e \<in> set SUPPORTED_PHASES"
proof -
  have "is_int v \<and> in_byte (the_int v) \<and> the_int v = m \<longleftrightarrow> v = JInt m \<and> in_byte m"
    "is_str v \<and> the_str v \<in> set SUPPORTED_PHASES \<and> the_str v = t \<longleftrightarrow> v = JStr t \<and> t \<in> set SUPPORTED_PHASES" for v m t
    by (cases v; auto)+
  then show ?thesis unfolding decode_switch_event_def Let_def option.case json.case by (auto split: if_splits)
qed

lemma decode_not_object: "(\<nexists>d. payload = Some (JObj d)) \<Longrightarrow> decode_switch_event payload = None"
  by (simp add: decode_switch_event_def split: option.split json.split)

text \<open>
  C34: the contract of switch events. Home Assistant decodes a payload exactly when it is an object with the three
  keys of the contract whose unit and button are integers from 0 to 255, not booleans, and whose event is one of the four
  phases; and what the bridge lets out of its sanitizer is decoded to the very same unit, button and phase.
\<close>

theorem switch_contract_exact:
  "(decode_switch_event payload = Some (unit_id, button, event_type) \<longleftrightarrow>
      (\<exists>d. payload = Some (JObj d) \<and> keys_of d = {''unit_id'', ''button'', ''event''}
        \<and> get d ''unit_id'' = JInt unit_id \<and> get d ''button'' = JInt button \<and> get d ''event'' = JStr event_type
        \<and> 0 \<le> unit_id \<and> unit_id \<le> 255 \<and> 0 \<le> button \<and> button \<le> 255
        \<and> event_type \<in> {''PRESS'', ''RELEASE'', ''HOLD'', ''RELEASE_AFTER_HOLD''}))
   \<and> (case sanitize_switch_event event of
        None \<Rightarrow> True
      | Some r \<Rightarrow> decode_switch_event (Some (record_json r)) = Some (sr_unit_id r, sr_button r, sr_event r))"
proof
  show "decode_switch_event payload = Some (unit_id, button, event_type) \<longleftrightarrow>
      (\<exists>d. payload = Some (JObj d) \<and> keys_of d = {''unit_id'', ''button'', ''event''}
        \<and> get d ''unit_id'' = JInt unit_id \<and> get d ''button'' = JInt button \<and> get d ''event'' = JStr event_type
        \<and> 0 \<le> unit_id \<and> unit_id \<le> 255 \<and> 0 \<le> button \<and> button \<le> 255
        \<and> event_type \<in> {''PRESS'', ''RELEASE'', ''HOLD'', ''RELEASE_AFTER_HOLD''})"
  proof (cases "\<exists>d. payload = Some (JObj d)")
    case True
    then obtain d where d: "payload = Some (JObj d)" ..
    show ?thesis unfolding d decode_object by (auto simp: in_byte_def)
  qed (simp add: decode_not_object)
next
  show "case sanitize_switch_event event of
        None \<Rightarrow> True
      | Some r \<Rightarrow> decode_switch_event (Some (record_json r)) = Some (sr_unit_id r, sr_button r, sr_event r)"
    by (auto simp: sanitize_switch_event_def decode_switch_event_def record_json_def in_byte_def SUPPORTED_SWITCH_EVENTS_def
        is_int_iff member_hash_True Let_def insert_commute split: option.splits if_splits)
qed

section \<open>Names of signals\<close>

lemma split_at_separator:
  assumes "c \<notin> set xs" "c \<notin> set xs'"
  shows "xs @ c # ys = xs' @ c # ys' \<longleftrightarrow> xs = xs' \<and> ys = ys'"
proof
  assume eq: "xs @ c # ys = xs' @ c # ys'"
  have "takeWhile (\<lambda>x. x \<noteq> c) (xs @ c # ys) = xs" "takeWhile (\<lambda>x. x \<noteq> c) (xs' @ c # ys') = xs'"
    using assms by (auto simp: takeWhile_append2 takeWhile_tail)
  with eq show "xs = xs' \<and> ys = ys'" by auto
qed simp

lemma no_separator: "0 \<le> n \<Longrightarrow> CHR ''_'' \<notin> set (str_of_int n)"
  using str_of_int_digits[of n] digit_not_space by (auto simp: list_all_iff)

abbreviation key_ok :: "switch_key \<Rightarrow> bool" where
  "key_ok key \<equiv> 0 \<le> fst key \<and> 0 \<le> fst (snd key)"

lemma event_signal_inj:
  assumes "key_ok key" "key_ok key'"
  shows "switch_event_signal e key = switch_event_signal e key' \<longleftrightarrow> key = key'"
proof -
  obtain n b p n' b' p' where k: "key = (n, b, p)" "key' = (n', b', p')" by (metis prod.exhaust)
  with assms show ?thesis
    by (simp add: switch_event_signal_def split_at_separator no_separator)
qed

lemma event_not_button_signal:
  assumes "key_ok key" "0 \<le> n" "0 \<le> b"
  shows "switch_event_signal e key \<noteq> switch_button_signal e n b"
proof
  obtain m c p where k: "key = (m, c, p)" by (metis prod.exhaust)
  assume "switch_event_signal e key = switch_button_signal e n b"
  with assms k have "str_of_int c @ ''_'' @ p = str_of_int b"
    by (simp add: switch_event_signal_def switch_button_signal_def split_at_separator no_separator)
  then have "CHR ''_'' \<in> set (str_of_int b)" by (metis append_Cons in_set_conv_decomp)
  with assms(3) show False by (simp add: no_separator)
qed

section \<open>Which events are dispatched\<close>

text \<open>The decoded events that arrive live on the topic, with their times.\<close>

fun receptions :: "string \<Rightarrow> switch_act \<Rightarrow> (switch_key \<times> time) list" where
  "receptions wanted (Received topic retain payload now new_id) =
     (if topic = wanted \<and> \<not> retain
      then (case decode_switch_event payload of None \<Rightarrow> [] | Some key \<Rightarrow> [(key, now)]) else [])"
| "receptions wanted _ = []"

text \<open>An event is accepted unless an identical one was received within the last quarter of a second; \<open>seen\<close> is what came before.\<close>

definition recently :: "(switch_key \<times> time) list \<Rightarrow> switch_key \<Rightarrow> time \<Rightarrow> bool" where
  "recently seen key t \<longleftrightarrow> list_ex (\<lambda>(key', t'). key' = key \<and> t - t' < 1 / 4) seen"

fun accepted_keys :: "(switch_key \<times> time) list \<Rightarrow> (switch_key \<times> time) list \<Rightarrow> switch_key list" where
  "accepted_keys seen [] = []"
| "accepted_keys seen ((key, t) # rs) =
     (if recently seen key t then [] else [key]) @ accepted_keys ((key, t) # seen) rs"

definition event_signals :: "string \<Rightarrow> switch_key \<Rightarrow> (string \<times> string option) list" where
  "event_signals entry_id key = (case key of (unit_id, button, event_type) \<Rightarrow>
     [(switch_button_signal entry_id unit_id button, Some event_type), (switch_event_signal entry_id key, None)])"

text \<open>The entry's memory of receptions is the latest of each event.\<close>

definition remembers :: "(switch_key \<times> time) list \<Rightarrow> switches \<Rightarrow> bool" where
  "remembers seen s \<longleftrightarrow> sw_last s = map_of seen \<and> sorted_wrt (\<ge>) (map snd seen)"

lemma latest_is_newest:
  assumes "sorted_wrt (\<ge>) (map snd seen)" "map_of seen key = Some (t :: time)" "(key, t') \<in> set seen"
  shows "t' \<le> t"
  using assms by (induction seen) (auto split: if_splits)

lemma duplicate_iff:
  assumes "remembers seen s"
  shows "fst (is_duplicate_switch_event key now s) \<longleftrightarrow> recently seen key now"
proof (cases "map_of seen key")
  case None
  then have "(key, t) \<notin> set seen" for t by (force simp: map_of_eq_None_iff)
  with None assms show ?thesis by (auto simp: is_duplicate_switch_event_def remembers_def recently_def list_ex_iff)
next
  case (Some t)
  then have "(key, t) \<in> set seen" by (rule map_of_SomeD)
  moreover have "now - t < 1 / 4" if "(key, t') \<in> set seen" "now - t' < 1 / 4" for t'
    using latest_is_newest[OF _ Some that(1)] assms that(2) by (simp add: remembers_def)
  ultimately show ?thesis using Some assms by (auto simp: is_duplicate_switch_event_def remembers_def recently_def list_ex_iff)
qed

lemma accepted_append:
  "accepted_keys seen (rs @ rs') = accepted_keys seen rs @ accepted_keys (rev rs @ seen) rs'"
  by (induction seen rs rule: accepted_keys.induct) simp_all

lemma accepted_received: "set (accepted_keys seen rs) \<subseteq> fst ` set rs"
  by (induction seen rs rule: accepted_keys.induct) auto

lemma decoded_ok: "decode_switch_event p = Some key \<Longrightarrow> key_ok key"
  using decoded_bytes[of p "fst key" "fst (snd key)" "snd (snd key)"] by (simp add: in_byte_def)

lemma received_ok: "x \<in> set (receptions wanted a) \<Longrightarrow> key_ok (fst x)"
proof (cases a)
  case (Received topic retain p now new_id)
  assume "x \<in> set (receptions wanted a)"
  then have "decode_switch_event p = Some (fst x)"
    by (cases "decode_switch_event p"; cases "topic = wanted \<and> \<not> retain") (simp_all add: Received)
  then show ?thesis by (rule decoded_ok)
qed simp_all

lemma dispatched: "sw_signals (dispatch_switch_event key s) = sw_signals s @ event_signals (sw_entry_id s) key"
  by (simp add: dispatch_switch_event_def event_signals_def Let_def split: prod.split)

text \<open>After a run: what was received, what was accepted and what was dispatched.\<close>

definition run_inv :: "(switch_key \<times> time) list \<Rightarrow> switch_key list \<Rightarrow> switch_key list \<Rightarrow> switches \<Rightarrow> bool" where
  "run_inv seen accepted sent s \<longleftrightarrow> remembers seen s \<and> sw_signals s = concat (map (event_signals (sw_entry_id s)) sent)
     \<and> mset sent + mset (sw_waiting s) = mset accepted"

lemma run_inv_process:
  assumes inv: "run_inv seen accepted sent s" and later: "\<forall>x\<in>set seen. snd x \<le> now"
    and rs: "receptions (sw_topic s) (Received topic retain p now new_id) = rs"
  shows "\<exists>sent'. run_inv (rev rs @ seen) (accepted @ accepted_keys seen rs) sent' (process_switch_event topic retain p now new_id s)"
proof (cases rule: process_cases[where topic = topic and retain = retain and p = p and now = now and new_id = new_id and s = s])
  case ignored
  then have "rs = []" using rs by auto
  with ignored inv show ?thesis by (auto simp: run_inv_def)
next
  case (repeated key)
  have "remembers ((key, now) # seen) (s\<lparr>sw_last := (sw_last s)(key \<mapsto> now)\<rparr>)"
    using inv later by (auto simp: run_inv_def remembers_def)
  moreover have "rs = [(key, now)]" using repeated rs by auto
  moreover have "recently seen key now"
    using repeated(4) inv duplicate_iff[of seen s] by (simp add: run_inv_def)
  ultimately show ?thesis using inv repeated(5) by (auto simp: run_inv_def)
next
  case (accepted n b e reg dev)
  let ?key = "(n, b, e)"
  let ?s3 = "adopt_switch n dev (s\<lparr>sw_last := (sw_last s)(?key \<mapsto> now), sw_registry := reg\<rparr>)"
  let ?s' = "process_switch_event topic retain p now new_id s"
  have rs: "rs = [(?key, now)]" using accepted rs by auto
  have fresh: "\<not> recently seen ?key now"
    using accepted(4) inv duplicate_iff[of seen s] by (simp add: run_inv_def)
  have r: "remembers (rev rs @ seen) ?s'"
    using inv later rs accepted(5) by (auto simp: run_inv_def remembers_def Let_def adopt_same learn_same)
  show ?thesis
  proof (cases "b \<in> set (observed_buttons n s)")
    case True
    with accepted(5) inv r rs fresh have "run_inv (rev rs @ seen) (accepted @ accepted_keys seen rs) (sent @ [?key]) ?s'"
      by (simp add: run_inv_def Let_def dispatched adopt_same)
    then show ?thesis ..
  next
    case False
    with accepted(5) inv r rs fresh have "run_inv (rev rs @ seen) (accepted @ accepted_keys seen rs) sent ?s'"
      by (simp add: run_inv_def Let_def adopt_same learn_same)
    then show ?thesis ..
  qed
qed

lemma run_inv_written:
  assumes "run_inv seen accepted sent s"
  shows "\<exists>sent'. run_inv seen accepted sent' (store_written i s)"
proof (cases "i < length (sw_waiting s)")
  case True
  let ?k = "sw_waiting s ! i"
  have "mset (sw_waiting s) = add_mset ?k (mset (take i (sw_waiting s) @ drop (Suc i) (sw_waiting s)))"
    by (metis True append_take_drop_id Cons_nth_drop_Suc mset_append mset.simps(2) union_mset_add_mset_right)
  with True assms have "run_inv seen accepted (sent @ [?k]) (store_written i s)"
    by (simp add: run_inv_def store_written_def dispatched remembers_def)
  then show ?thesis ..
next
  case False
  with assms show ?thesis by (auto simp: store_written_def)
qed

lemma run_inv_act:
  assumes "run_inv seen accepted sent s" "a \<noteq> Reloaded"
    and "\<forall>x\<in>set seen. \<forall>y\<in>set (receptions (sw_topic s) a). snd x \<le> snd y"
  shows "\<exists>sent'. run_inv (rev (receptions (sw_topic s) a) @ seen) (accepted @ accepted_keys seen (receptions (sw_topic s) a)) sent' (switch_act_step a s)"
proof (cases a)
  case (Received topic retain p now new_id)
  show ?thesis
  proof (cases "receptions (sw_topic s) a = []")
    case True
    then have "process_switch_event topic retain p now new_id s = s"
      by (cases "decode_switch_event p") (auto simp: Received process_switch_event_def split: if_splits)
    with assms(1) True show ?thesis by (auto simp: Received)
  next
    case False
    then obtain key where "receptions (sw_topic s) a = [(key, now)]" by (auto simp: Received split: if_splits option.splits)
    with assms(3) have "\<forall>x\<in>set seen. snd x \<le> now" by simp
    from run_inv_process[OF assms(1) this refl] show ?thesis by (simp add: Received)
  qed
next
  case (Store_Written i)
  with run_inv_written[OF assms(1)] show ?thesis by simp
next
  case Platform_Ready
  with assms(1) have "run_inv seen accepted sent (event_platform s)" by (simp add: run_inv_def remembers_def)
  with Platform_Ready show ?thesis by auto
next
  case (Registry_Changed r)
  with assms(1) have "run_inv seen accepted sent (s\<lparr>sw_registry := r\<rparr>)" by (simp add: run_inv_def remembers_def)
  with Registry_Changed show ?thesis by auto
qed (use assms(2) in simp)

lemma run_inv_run:
  assumes "run_inv seen accepted sent s" "Reloaded \<notin> set acts"
    and "sorted (map snd (rev seen @ concat (map (receptions (sw_topic s)) acts)))"
  shows "\<exists>sent'. run_inv (rev (concat (map (receptions (sw_topic s)) acts)) @ seen)
      (accepted @ accepted_keys seen (concat (map (receptions (sw_topic s)) acts))) sent' (fold switch_act_step acts s)"
  using assms
proof (induction acts arbitrary: s seen accepted sent)
  case (Cons a acts)
  let ?rs = "receptions (sw_topic s) a" and ?s = "switch_act_step a s"
  have topic: "sw_topic ?s = sw_topic s" by (simp add: act_entry)
  have "\<forall>x\<in>set seen. \<forall>y\<in>set ?rs. snd x \<le> snd y" using Cons.prems(3) by (auto simp: sorted_append)
  moreover have "a \<noteq> Reloaded" using Cons.prems(2) by auto
  ultimately obtain sent' where "run_inv (rev ?rs @ seen) (accepted @ accepted_keys seen ?rs) sent' ?s"
    using run_inv_act[OF Cons.prems(1)] by blast
  from Cons.IH[OF this] Cons.prems(2,3) show ?case by (simp add: topic accepted_append)
qed auto

text \<open>Counting signals by name counts the events.\<close>

lemma count_event_signal:
  assumes "\<forall>k\<in>set ks. key_ok k" "key_ok key"
  shows "count_list (map fst (concat (map (event_signals e) ks))) (switch_event_signal e key) = count_list ks key"
  using assms(1)
proof (induction ks)
  case (Cons k ks)
  obtain n b p where k: "k = (n, b, p)" by (metis prod.exhaust)
  have "switch_button_signal e n b \<noteq> switch_event_signal e key"
    using event_not_button_signal[OF assms(2), of n b e] Cons.prems k by auto
  moreover have "switch_event_signal e k = switch_event_signal e key \<longleftrightarrow> k = key"
    using event_signal_inj Cons.prems assms(2) by simp
  ultimately show ?case using Cons.IH Cons.prems by (simp add: event_signals_def k)
qed simp

lemma button_signal_inj:
  assumes "0 \<le> n" "0 \<le> b" "0 \<le> n'" "0 \<le> b'"
  shows "switch_button_signal e n b = switch_button_signal e n' b' \<longleftrightarrow> n = n' \<and> b = b'"
  using assms by (simp add: switch_button_signal_def split_at_separator no_separator)

lemma count_button_signal:
  assumes "\<forall>k\<in>set ks. key_ok k" "0 \<le> n" "0 \<le> b"
  shows "count_list (concat (map (event_signals e) ks)) (switch_button_signal e n b, Some p) = count_list ks (n, b, p)"
  using assms(1)
proof (induction ks)
  case (Cons k ks)
  obtain m c q where k: "k = (m, c, q)" by (metis prod.exhaust)
  have "switch_button_signal e m c = switch_button_signal e n b \<longleftrightarrow> m = n \<and> c = b"
    using Cons.prems k assms(2,3) by (intro button_signal_inj) auto
  then show ?case using Cons.IH Cons.prems by (auto simp: event_signals_def k)
qed simp

text \<open>Switches all of whose buttons are known do not wait for the store.\<close>

lemma known_act:
  assumes "run_inv seen accepted accepted s" "sw_waiting s = []" "a \<noteq> Reloaded"
    and "\<forall>x\<in>set seen. \<forall>y\<in>set (receptions (sw_topic s) a). snd x \<le> snd y"
    and "\<forall>(n, b, p)\<in>set (accepted_keys seen (receptions (sw_topic s) a)). b \<in> set (observed_buttons n s)"
  shows "sw_waiting (switch_act_step a s) = []
    \<and> sw_signals (switch_act_step a s) = sw_signals s @ concat (map (event_signals (sw_entry_id s)) (accepted_keys seen (receptions (sw_topic s) a)))
    \<and> (\<forall>n. observed_buttons n (switch_act_step a s) = observed_buttons n s)"
proof (cases a)
  case (Received topic retain p now new_id)
  have rem: "remembers seen s" using assms(1) by (simp add: run_inv_def)
  show ?thesis
  proof (cases rule: process_cases[where topic = topic and retain = retain and p = p and now = now and new_id = new_id and s = s])
    case ignored
    then show ?thesis using assms(2) by (auto simp: Received)
  next
    case (repeated key)
    then have "recently seen key now" by (simp add: duplicate_iff[OF rem])
    with repeated show ?thesis using assms(2) by (simp add: Received observed_buttons_def)
  next
    case (accepted n b e reg dev)
    have "\<not> recently seen (n, b, e) now" using accepted(4) by (simp add: duplicate_iff[OF rem])
    with accepted assms(5) have b: "b \<in> set (observed_buttons n s)" by (simp add: Received)
    have "observed_buttons m (dispatch_switch_event (n, b, e) (adopt_switch n dev (s\<lparr>sw_last := l, sw_registry := reg\<rparr>)))
        = observed_buttons m s" for m l
      by (subst observed_cong[OF dispatch_same(1)]) (simp add: observed_buttons_def[of m s] observed_buttons_def[of m "s\<lparr>sw_last := l, sw_registry := reg\<rparr>"])
    with accepted b \<open>\<not> recently seen (n, b, e) now\<close> assms(2) show ?thesis
      by (simp add: Received Let_def dispatched adopt_same)
  qed
next
  case Platform_Ready
  then show ?thesis using assms(2) by (simp add: observed_cong[of "event_platform s" s])
qed (use assms(2,3) in \<open>simp_all add: store_written_def observed_buttons_def\<close>)

lemma known_run:
  assumes "run_inv seen accepted accepted s" "sw_waiting s = []" "Reloaded \<notin> set acts"
    and "sorted (map snd (rev seen @ concat (map (receptions (sw_topic s)) acts)))"
    and "\<forall>(n, b, p)\<in>set (accepted_keys seen (concat (map (receptions (sw_topic s)) acts))). b \<in> set (observed_buttons n s)"
  shows "sw_waiting (fold switch_act_step acts s) = []
    \<and> sw_signals (fold switch_act_step acts s) = sw_signals s
        @ concat (map (event_signals (sw_entry_id s)) (accepted_keys seen (concat (map (receptions (sw_topic s)) acts))))"
  using assms
proof (induction acts arbitrary: s seen accepted)
  case (Cons a acts)
  let ?rs = "receptions (sw_topic s) a" and ?s = "switch_act_step a s"
  have topic: "sw_topic ?s = sw_topic s" and id: "sw_entry_id ?s = sw_entry_id s" by (simp_all add: act_entry)
  have later: "\<forall>x\<in>set seen. \<forall>y\<in>set ?rs. snd x \<le> snd y" using Cons.prems(4) by (auto simp: sorted_append)
  have live: "a \<noteq> Reloaded" using Cons.prems(3) by auto
  have known: "\<forall>(n, b, p)\<in>set (accepted_keys seen ?rs). b \<in> set (observed_buttons n s)"
    using Cons.prems(5) by (auto simp: accepted_append)
  note step = known_act[OF Cons.prems(1,2) live later known]
  obtain sent' where inv: "run_inv (rev ?rs @ seen) (accepted @ accepted_keys seen ?rs) sent' ?s"
    using run_inv_act[OF Cons.prems(1) live later] by blast
  have "sw_signals s = concat (map (event_signals (sw_entry_id s)) accepted)" using Cons.prems(1) by (simp add: run_inv_def)
  with inv step have inv: "run_inv (rev ?rs @ seen) (accepted @ accepted_keys seen ?rs) (accepted @ accepted_keys seen ?rs) ?s"
    by (simp add: run_inv_def id)
  have "sw_waiting (fold switch_act_step acts ?s) = []
    \<and> sw_signals (fold switch_act_step acts ?s) = sw_signals ?s
        @ concat (map (event_signals (sw_entry_id ?s)) (accepted_keys (rev ?rs @ seen) (concat (map (receptions (sw_topic ?s)) acts))))"
    using step Cons.prems(3-5) topic by (intro Cons.IH[OF inv]) (auto simp: accepted_append)
  with step show ?case by (simp add: topic id accepted_append)
qed simp

lemma setup_run_inv: "run_inv [] [] [] (setup_switches entry_id topic registry stored)
  \<and> sw_topic (setup_switches entry_id topic registry stored) = topic \<and> sw_entry_id (setup_switches entry_id topic registry stored) = entry_id
  \<and> sw_waiting (setup_switches entry_id topic registry stored) = []"
  using setup_same[where e = entry_id and t = topic and r = registry and stored = stored]
  by (simp add: run_inv_def remembers_def)

section \<open>The property\<close>

text \<open>
  C11: every physical action is reported once. Let messages arrive in the order of their times, interleaved in any way with
  the ends of store writes, the setup of the event platform and changes of the device registry. Then for each event
  (unit, button, phase) the signal of its device trigger, by name, and the signal of its button
  entity with that phase have been sent once per accepted reception that is not still waiting for the store; a
  reception is accepted unless an identical one came within the last 0.25 s. If the buttons were known from
  the start, nothing waits and the signals are those of the accepted events in their order.
\<close>

theorem switch_signals_exact:
  fixes entry_id :: string and registry :: "(string \<times> string) list" and stored :: json
  assumes "Reloaded \<notin> set acts" and "sorted (map snd (concat (map (receptions topic) acts)))"
  defines "initial \<equiv> setup_switches entry_id topic registry stored"
    and "accepted \<equiv> accepted_keys [] (concat (map (receptions topic) acts))"
  shows "(0 \<le> unit_id \<and> 0 \<le> button \<longrightarrow>
      count_list (map fst (sw_signals (fold switch_act_step acts initial))) (switch_event_signal entry_id (unit_id, button, phase))
        + count_list (sw_waiting (fold switch_act_step acts initial)) (unit_id, button, phase)
        = count_list accepted (unit_id, button, phase)
      \<and> count_list (sw_signals (fold switch_act_step acts initial)) (switch_button_signal entry_id unit_id button, Some phase)
        + count_list (sw_waiting (fold switch_act_step acts initial)) (unit_id, button, phase)
        = count_list accepted (unit_id, button, phase))
    \<and> ((\<forall>(n, b, p)\<in>set accepted. b \<in> set (observed_buttons n initial)) \<longrightarrow>
      sw_waiting (fold switch_act_step acts initial) = []
      \<and> sw_signals (fold switch_act_step acts initial) = concat (map (event_signals entry_id) accepted))"
proof -
  let ?s = "fold switch_act_step acts initial"
  have init: "run_inv [] [] [] initial" "sw_topic initial = topic" "sw_entry_id initial = entry_id" "sw_waiting initial = []"
    using setup_run_inv by (simp_all add: initial_def)
  have id: "sw_entry_id ?s = entry_id" using switch_run_entry init(3) by simp
  obtain sent where "run_inv (rev (concat (map (receptions topic) acts))) accepted sent ?s"
    using run_inv_run[OF init(1) assms(1)] assms(2) by (auto simp: init(2) accepted_def)
  then have sent: "sw_signals ?s = concat (map (event_signals entry_id) sent)" "mset sent + mset (sw_waiting ?s) = mset accepted"
    by (simp_all add: run_inv_def id)
  have "key_ok k" if "k \<in> set accepted" for k
    using that accepted_received[of "[]" "concat (map (receptions topic) acts)"] received_ok by (fastforce simp: accepted_def)
  moreover have "set sent \<subseteq> set accepted" using sent(2) by (metis mset_subset_eq_add_left set_mset_mono set_mset_mset)
  ultimately have ok: "\<forall>k\<in>set sent. key_ok k" by auto
  have count: "count_list sent key + count_list (sw_waiting ?s) key = count_list accepted key" for key
    using arg_cong[OF sent(2), of "\<lambda>m. count m key"] by (simp add: count_mset)
  have "(\<forall>(n, b, p)\<in>set accepted. b \<in> set (observed_buttons n initial)) \<longrightarrow>
      sw_waiting ?s = [] \<and> sw_signals ?s = concat (map (event_signals entry_id) accepted)"
    using known_run[OF init(1,4) assms(1)] assms(2) init by (auto simp: accepted_def run_inv_def)
  then show ?thesis using count count_event_signal[OF ok] count_button_signal[OF ok] by (simp add: sent(1))
qed

definition switch_message :: "int \<Rightarrow> int \<Rightarrow> string \<Rightarrow> time \<Rightarrow> switch_act" where
  "switch_message unit_id button phase now = Received ''casambi/home/switch_events'' False
     (Some (record_json \<lparr>sr_unit_id = unit_id, sr_button = button, sr_event = phase\<rparr>)) now ''dev''"

lemmas switch_run_evals = switch_message_def record_json_def setup_switches_def restore_switch_buttons_def
  registered_switch_units_def process_switch_event_def decode_switch_event_def in_byte_def is_duplicate_switch_event_def
  device_of_switch_def adopt_switch_def add_switch_unit_def observed_buttons_def learn_button_def store_written_def Let_def

definition sample_switch_run :: "switch_act list" where
  "sample_switch_run = [switch_message 9 2 ''PRESS'' 1, Platform_Ready, switch_message 9 2 ''PRESS'' (11 / 10),
     switch_message 9 2 ''RELEASE'' (6 / 5), Store_Written 0]"

theorem switch_signals_exact_witness:
  "count_list (map fst (sw_signals (fold switch_act_step sample_switch_run (setup_switches ''e'' ''casambi/home/switch_events'' [] JNull))))
     (switch_event_signal ''e'' (9, 2, ''PRESS'')) = 1"
proof -
  let ?t = "''casambi/home/switch_events''"
  have rs: "concat (map (receptions ?t) sample_switch_run) =
      [((9, 2, ''PRESS''), 1), ((9, 2, ''PRESS''), 11 / 10), ((9, 2, ''RELEASE''), 6 / 5)]"
    by (simp add: sample_switch_run_def switch_message_def record_json_def decode_switch_event_def in_byte_def Let_def insert_commute)
  have pre: "Reloaded \<notin> set sample_switch_run" "sorted (map snd (concat (map (receptions ?t) sample_switch_run)))"
    by (simp add: sample_switch_run_def switch_message_def) (simp add: rs)
  have waiting: "sw_waiting (fold switch_act_step sample_switch_run (setup_switches ''e'' ?t [] JNull)) = []"
    by (simp add: sample_switch_run_def switch_run_evals insert_commute)
  show ?thesis
    using switch_signals_exact[OF pre, of 9 2 "''e''" "[]" JNull "''PRESS''"] unfolding waiting rs by (simp add: recently_def)
qed

text \<open>The press that teaches a button waits for the store, so that its own release can be reported before it.\<close>

lemma release_overtakes_press:
  "filter (\<lambda>x. snd x = None) (sw_signals (fold switch_act_step [switch_message 9 2 ''PRESS'' 1, switch_message 9 2 ''RELEASE'' 2, Store_Written 0]
     (setup_switches ''e'' ''casambi/home/switch_events'' [] JNull)))
   = [(switch_event_signal ''e'' (9, 2, ''RELEASE''), None), (switch_event_signal ''e'' (9, 2, ''PRESS''), None)]"
  by (simp add: switch_run_evals insert_commute dispatched event_signals_def)

text \<open>
  Two presses of one button 0.2 s apart are different actions to the decoder, so the bridge publishes both; what
  Home Assistant sees of them is identical, and it accepts the first only.
\<close>

lemma quick_second_press_lost:
  defines "actions \<equiv> decode_packets [(0, [0, 0, 29, 0, 17, 5, 6, 0, 0]), (1 / 10, [0, 0, 29, 0, 19, 5, 6, 0, 0]),
     (1 / 5, [0, 0, 29, 0, 21, 5, 6, 0, 0])] Map.empty"
  shows "map (se_event \<circ> snd) actions = [PRESS, RELEASE, PRESS] \<and> distinct (map (se_dedup_identity \<circ> snd) actions)
    \<and> accepted_keys [] (map (\<lambda>(t, e). ((se_unit_id e, se_button e, phase_name (se_event e)), t)) actions)
      = [(5, 1, ''PRESS''), (5, 1, ''RELEASE'')]"
proof -
  have "actions = [(0, \<lparr>se_unit_id = 5, se_button = 1, se_event = PRESS, se_dedup_identity = Some (5, 0, 17)\<rparr>),
     (1 / 10, \<lparr>se_unit_id = 5, se_button = 1, se_event = RELEASE, se_dedup_identity = Some (5, 0, 19)\<rparr>),
     (1 / 5, \<lparr>se_unit_id = 5, se_button = 1, se_event = PRESS, se_dedup_identity = Some (5, 0, 21)\<rparr>)]"
    unfolding actions_def by code_simp
  then show ?thesis by (simp add: recently_def)
qed

end
