(* ===== verification/Device_Triggers.thy ===== *)
theory Device_Triggers
  imports Switch_Signals
begin

text \<open>
  \<^verbatim>\<open>device_trigger.py\<close>: the triggers that Home Assistant's automation editor offers for a switch, their validation and
  what an automation attaches to. Home Assistant's registries are the arguments \<open>devices\<close> and \<open>entries\<close>;
  \<open>base_schema\<close> is \<^verbatim>\<open>DEVICE_TRIGGER_BASE_SCHEMA\<close> and \<open>coerce\<close> voluptuous' \<^verbatim>\<open>Coerce(int)\<close> on a JSON value.
\<close>

abbreviation "DOMAIN \<equiv> ''casambi_mqtt''"

record ha_device =
  dv_config_entries :: "string list"
  dv_identifiers :: "(string \<times> string) list"

text \<open>An entry with its runtime data, if it is loaded.\<close>

record ha_entry =
  he_entry_id :: string
  he_domain :: string
  he_runtime_data :: "switches option"

record trigger =
  tr_platform :: string
  tr_domain :: string
  tr_device_id :: string
  tr_type :: string
  tr_subtype :: json

section \<open>Resolving a device\<close>

definition switch_of_entry :: "ha_device \<Rightarrow> ha_entry \<Rightarrow> (ha_entry \<times> int) option" where
  "switch_of_entry device entry =
     (if he_domain entry \<noteq> DOMAIN then None
      else case List.map_filter (\<lambda>(domain, v). if domain = DOMAIN then strip_prefix (he_entry_id entry @ '':switch:'') v else None)
          (dv_identifiers device) of
        [rest] \<Rightarrow> (case py_int rest of None \<Rightarrow> None | Some unit_id \<Rightarrow> if \<not> in_byte unit_id then None else Some (entry, unit_id))
      | _ \<Rightarrow> None)"

fun first_switch :: "(string \<Rightarrow> ha_entry option) \<Rightarrow> ha_device \<Rightarrow> string list \<Rightarrow> (ha_entry \<times> int) option" where
  "first_switch entries device [] = None"
| "first_switch entries device (entry_id # rest) =
     (case entries entry_id of
        None \<Rightarrow> first_switch entries device rest
      | Some entry \<Rightarrow>
          (case switch_of_entry device entry of None \<Rightarrow> first_switch entries device rest | Some found \<Rightarrow> Some found))"

definition switch_for_device :: "(string \<Rightarrow> ha_device option) \<Rightarrow> (string \<Rightarrow> ha_entry option) \<Rightarrow> string \<Rightarrow> (ha_entry \<times> int) option" where
  "switch_for_device devices entries device_id =
     (case devices device_id of None \<Rightarrow> None | Some device \<Rightarrow> first_switch entries device (dv_config_entries device))"

definition trigger_buttons :: "ha_entry \<Rightarrow> int \<Rightarrow> int list" where
  "trigger_buttons entry unit_id =
     sort (remdups (DEFAULT_SWITCH_BUTTONS @ (case he_runtime_data entry of None \<Rightarrow> [] | Some s \<Rightarrow> observed_buttons unit_id s)))"

section \<open>The triggers\<close>

definition async_get_triggers :: "(string \<Rightarrow> ha_device option) \<Rightarrow> (string \<Rightarrow> ha_entry option) \<Rightarrow> string \<Rightarrow> trigger list" where
  "async_get_triggers devices entries device_id =
     (case switch_for_device devices entries device_id of
        None \<Rightarrow> []
      | Some (entry, unit_id) \<Rightarrow>
          [\<lparr>tr_platform = ''device'', tr_domain = DOMAIN, tr_device_id = device_id, tr_type = event_type, tr_subtype = JInt button\<rparr>.
             button \<leftarrow> trigger_buttons entry unit_id, event_type \<leftarrow> EVENT_TYPES])"

datatype trigger_error = Invalid_Config | Invalid_Device

text \<open>\<^verbatim>\<open>TRIGGER_SCHEMA\<close>: the configuration with its button as an int.\<close>

definition trigger_schema :: "(trigger \<Rightarrow> bool) \<Rightarrow> (json \<Rightarrow> int option) \<Rightarrow> trigger \<Rightarrow> (trigger \<times> int) option" where
  "trigger_schema base_schema coerce config =
     (if \<not> base_schema config \<or> tr_type config \<notin> set EVENT_TYPES then None
      else case coerce (tr_subtype config) of
        None \<Rightarrow> None
      | Some button \<Rightarrow> if \<not> in_byte button then None else Some (config\<lparr>tr_subtype := JInt button\<rparr>, button))"

definition async_validate_trigger_config ::
    "(trigger \<Rightarrow> bool) \<Rightarrow> (json \<Rightarrow> int option) \<Rightarrow> (string \<Rightarrow> ha_device option) \<Rightarrow> (string \<Rightarrow> ha_entry option) \<Rightarrow> trigger \<Rightarrow> trigger_error + trigger" where
  "async_validate_trigger_config base_schema coerce devices entries config =
     (case trigger_schema base_schema coerce config of
        None \<Rightarrow> Inl Invalid_Config
      | Some (config', button) \<Rightarrow>
          if switch_for_device devices entries (tr_device_id config') = None then Inl Invalid_Device else Inr config')"

definition ascii_upper :: "char \<Rightarrow> char" where
  "ascii_upper c = (if in_range (CHR ''a'') (CHR ''z'') c then char_of (of_char c - 32 :: nat) else c)"

text \<open>The signal to which the automation's action is connected.\<close>

definition async_attach_trigger ::
    "(trigger \<Rightarrow> bool) \<Rightarrow> (json \<Rightarrow> int option) \<Rightarrow> (string \<Rightarrow> ha_device option) \<Rightarrow> (string \<Rightarrow> ha_entry option) \<Rightarrow> trigger \<Rightarrow> trigger_error + string" where
  "async_attach_trigger base_schema coerce devices entries config =
     (case trigger_schema base_schema coerce config of
        None \<Rightarrow> Inl Invalid_Config
      | Some (config', button) \<Rightarrow>
          (case switch_for_device devices entries (tr_device_id config') of
             None \<Rightarrow> Inl Invalid_Device
           | Some (entry, unit_id) \<Rightarrow>
               Inr (switch_event_signal (he_entry_id entry) (unit_id, button, map ascii_upper (tr_type config')))))"

section \<open>What an automation can attach to\<close>

lemma upper_lower: "p \<in> set SUPPORTED_PHASES \<Longrightarrow> map ascii_upper (map ascii_lower p) = p"
proof -
  have "list_all (\<lambda>p. map ascii_upper (map ascii_lower p) = p) SUPPORTED_PHASES" by code_simp
  then show "p \<in> set SUPPORTED_PHASES \<Longrightarrow> map ascii_upper (map ascii_lower p) = p" by (auto simp: list_all_iff)
qed

lemma event_types_iff: "q \<in> set EVENT_TYPES \<longleftrightarrow> (\<exists>p\<in>set SUPPORTED_PHASES. q = map ascii_lower p)"
  by (auto simp: EVENT_TYPES_def)

lemma own_device_resolves:
  assumes "entries e = Some entry" "he_entry_id entry = e" "he_domain entry = DOMAIN" "in_byte n"
    and "devices dev = Some \<lparr>dv_config_entries = [e], dv_identifiers = [(DOMAIN, switch_identifier e n)]\<rparr>"
  shows "switch_for_device devices entries dev = Some (entry, n)"
proof -
  have "strip_prefix (e @ '':switch:'') (switch_identifier e n) = Some (str_of_int n)"
    by (simp add: strip_prefix_def switch_identifier_def)
  with assms show ?thesis by (simp add: switch_for_device_def switch_of_entry_def map_filter_simps)
qed

lemma observed_bytes: "store_covers s \<Longrightarrow> b \<in> set (observed_buttons n s) \<Longrightarrow> in_byte b"
  by (cases "map_of (sw_units s) n") (auto simp: store_covers_def observed_buttons_def unit_ok_def list_all_iff dest: units_ok_lookup)

lemma trigger_buttons_loaded: "he_runtime_data entry = Some s \<Longrightarrow> trigger_buttons entry n = switch_buttons n s"
  by (simp add: trigger_buttons_def switch_buttons_def)

lemma set_switch_buttons: "set (switch_buttons n s) = {1, 2, 3, 4} \<union> set (observed_buttons n s)"
  by (simp only: switch_buttons_def set_sort set_remdups set_append) simp

lemma distinct_switch_buttons: "distinct (switch_buttons n s)"
  by (simp only: switch_buttons_def distinct_sort distinct_remdups)

lemma switch_buttons_bytes: "store_covers s \<Longrightarrow> b \<in> set (switch_buttons n s) \<Longrightarrow> in_byte b"
  using observed_bytes[of s b n] by (auto simp: set_switch_buttons in_byte_def)

lemma in_two_lists: "x \<in> set [f b p. b \<leftarrow> bs, p \<leftarrow> ps] \<longleftrightarrow> (\<exists>b\<in>set bs. \<exists>p\<in>set ps. x = f b p)"
  by auto

lemma distinct_attached:
  assumes "distinct bs" "distinct ps" "\<forall>b\<in>set bs. 0 \<le> b" "0 \<le> n"
  shows "distinct [Inr (switch_event_signal e (n, b, p)) :: trigger_error + string. b \<leftarrow> bs, p \<leftarrow> ps]"
proof -
  have "[Inr (switch_event_signal e (n, b, p)) :: trigger_error + string. b \<leftarrow> bs, p \<leftarrow> ps]
      = map (\<lambda>x. Inr (switch_event_signal e (n, x))) (List.product bs ps)"
    by (simp add: product_concat_map map_concat comp_def)
  moreover have "inj_on (\<lambda>x. Inr (switch_event_signal e (n, x)) :: trigger_error + string) (set (List.product bs ps))"
    using assms(3,4) by (auto simp: inj_on_def event_signal_inj)
  ultimately show ?thesis using assms(1,2) by (simp add: distinct_map distinct_product)
qed

text \<open>
  C20: the triggers offered for a switch are exactly its events. For the device that a loaded entry has created for a switch,
  after any history of the entry, each offered trigger is valid as it stands, and attaching the offered
  triggers connects to the signals of the four phases of each of the switch's buttons, the standard four and
  all it has shown, one trigger for each and none for anything else.
\<close>

theorem offered_triggers_exact:
  assumes "entries e = Some entry" "he_entry_id entry = e" "he_domain entry = DOMAIN"
    and "he_runtime_data entry = Some s" "s = fold switch_act_step acts (setup_switches e topic registry stored)"
    and "devices dev = Some \<lparr>dv_config_entries = [e], dv_identifiers = [(DOMAIN, switch_identifier e unit_id)]\<rparr>"
    and "0 \<le> unit_id" "unit_id \<le> 255"
    and "\<forall>config. tr_platform config = ''device'' \<and> tr_domain config = DOMAIN \<and> tr_device_id config = dev \<longrightarrow> base_schema config"
    and "\<forall>b. coerce (JInt b) = Some b"
  shows "(\<forall>t\<in>set (async_get_triggers devices entries dev). async_validate_trigger_config base_schema coerce devices entries t = Inr t)
    \<and> map (async_attach_trigger base_schema coerce devices entries) (async_get_triggers devices entries dev)
      = [Inr (switch_event_signal e (unit_id, button, phase)). button \<leftarrow> switch_buttons unit_id s, phase \<leftarrow> SUPPORTED_PHASES]
    \<and> distinct (map (async_attach_trigger base_schema coerce devices entries) (async_get_triggers devices entries dev))
    \<and> {1, 2, 3, 4} \<union> set (observed_buttons unit_id s) = set (switch_buttons unit_id s)"
proof -
  have n: "in_byte unit_id" using assms(7,8) by (simp add: in_byte_def)
  have found: "switch_for_device devices entries dev = Some (entry, unit_id)" 
    using own_device_resolves[where entries = entries and devices = devices and e = e and dev = dev and n = unit_id] assms(1-3,6) n by simp
  have covers: "store_covers s" unfolding assms(5) by (intro run_covers setup_covers)
  define trig where "trig b q = \<lparr>tr_platform = ''device'', tr_domain = DOMAIN, tr_device_id = dev, tr_type = q, tr_subtype = JInt b\<rparr>" for b q
  have ts: "async_get_triggers devices entries dev = [trig b (map ascii_lower p). b \<leftarrow> switch_buttons unit_id s, p \<leftarrow> SUPPORTED_PHASES]"
    using found by (simp add: async_get_triggers_def trigger_buttons_loaded[OF assms(4)] EVENT_TYPES_def trig_def)
  have schema: "trigger_schema base_schema coerce (trig b (map ascii_lower p)) = Some (trig b (map ascii_lower p), b)"
    if "b \<in> set (switch_buttons unit_id s)" "p \<in> set SUPPORTED_PHASES" for b p
  proof -
    have "base_schema (trig b (map ascii_lower p))" using assms(9) by (simp add: trig_def)
    moreover have "map ascii_lower p \<in> set EVENT_TYPES" using that(2) unfolding event_types_iff by blast
    ultimately show ?thesis using switch_buttons_bytes[OF covers that(1)] assms(10)
      by (simp add: trigger_schema_def) (simp add: trig_def)
  qed
  have device: "tr_device_id (trig b q) = dev" "tr_type (trig b q) = q" for b q by (simp_all add: trig_def)
  have attach: "async_attach_trigger base_schema coerce devices entries (trig b (map ascii_lower p)) = Inr (switch_event_signal e (unit_id, b, p))"
    if "b \<in> set (switch_buttons unit_id s)" "p \<in> set SUPPORTED_PHASES" for b p
    unfolding async_attach_trigger_def schema[OF that] using found assms(2) upper_lower[OF that(2)] by (simp add: device)
  have valid: "\<forall>t\<in>set (async_get_triggers devices entries dev). async_validate_trigger_config base_schema coerce devices entries t = Inr t"
  proof
    fix t assume "t \<in> set (async_get_triggers devices entries dev)"
    then obtain b p where t: "b \<in> set (switch_buttons unit_id s)" "p \<in> set SUPPORTED_PHASES" "t = trig b (map ascii_lower p)"
      unfolding ts in_two_lists by blast
    then show "async_validate_trigger_config base_schema coerce devices entries t = Inr t"
      unfolding t(3) async_validate_trigger_config_def schema[OF t(1,2)] by (simp add: device found)
  qed
  have maps: "map (async_attach_trigger base_schema coerce devices entries) (async_get_triggers devices entries dev)
      = [Inr (switch_event_signal e (unit_id, b, p)). b \<leftarrow> switch_buttons unit_id s, p \<leftarrow> SUPPORTED_PHASES]"
    unfolding ts map_concat map_map comp_def using attach by (intro arg_cong[of _ _ concat] map_cong refl) auto
  have "distinct (map (async_attach_trigger base_schema coerce devices entries) (async_get_triggers devices entries dev))"
    unfolding maps using switch_buttons_bytes[OF covers] assms(7)
    by (intro distinct_attached distinct_switch_buttons) (simp_all add: in_byte_def)
  with valid maps show ?thesis by (simp only: set_switch_buttons conj_assoc simp_thms)
qed

definition sample_entry :: ha_entry where
  "sample_entry = \<lparr>he_entry_id = ''e'', he_domain = DOMAIN,
     he_runtime_data = Some (fold switch_act_step [switch_message 9 7 ''PRESS'' 1] (setup_switches ''e'' ''casambi/home/switch_events'' [] JNull))\<rparr>"

definition int_only :: "json \<Rightarrow> int option" where
  "int_only v = (if is_int v then Some (the_int v) else None)"

theorem offered_triggers_exact_witness:
  "length (async_get_triggers [''dev'' \<mapsto> \<lparr>dv_config_entries = [''e''], dv_identifiers = [(DOMAIN, switch_identifier ''e'' 9)]\<rparr>]
     [''e'' \<mapsto> sample_entry] ''dev'') = 20"
proof -
  let ?s = "fold switch_act_step [switch_message 9 7 ''PRESS'' 1] (setup_switches ''e'' ''casambi/home/switch_events'' [] JNull)"
  let ?devices = "[''dev'' \<mapsto> \<lparr>dv_config_entries = [''e''], dv_identifiers = [(DOMAIN, switch_identifier ''e'' 9)]\<rparr>]"
  have pre: "[''e'' \<mapsto> sample_entry] ''e'' = Some sample_entry" "he_entry_id sample_entry = ''e''" "he_domain sample_entry = DOMAIN"
    "he_runtime_data sample_entry = Some ?s" "\<forall>b. int_only (JInt b) = Some b"
    by (simp_all add: sample_entry_def int_only_def)
  have "observed_buttons 9 ?s = [7]" by (simp add: switch_run_evals insert_commute)
  then have buttons: "switch_buttons 9 ?s = [1, 2, 3, 4, 7]" by (simp add: switch_buttons_def)
  have "map (async_attach_trigger (\<lambda>_. True) int_only ?devices [''e'' \<mapsto> sample_entry]) (async_get_triggers ?devices [''e'' \<mapsto> sample_entry] ''dev'')
      = [Inr (switch_event_signal ''e'' (9, button, phase)). button \<leftarrow> switch_buttons 9 ?s, phase \<leftarrow> SUPPORTED_PHASES]"
    using offered_triggers_exact[where entries = "[''e'' \<mapsto> sample_entry]" and e = "''e''" and entry = sample_entry and s = ?s
        and acts = "[switch_message 9 7 ''PRESS'' 1]" and topic = "''casambi/home/switch_events''" and registry = "[]" and stored = JNull
        and devices = ?devices and dev = "''dev''" and unit_id = 9 and base_schema = "\<lambda>_. True" and coerce = int_only] pre
    by (simp del: fold_simps set_simps)
  from arg_cong[OF this, of length] show ?thesis unfolding buttons by simp
qed

end
