(* ===== verification/Entry_Migration.thy ===== *)
theory Entry_Migration
  imports Ha_Entities Health_Settings
begin

text \<open>
  The config entries of Home Assistant: their network names (\<^verbatim>\<open>const.py\<close>), the flows that create and change
  them (\<^verbatim>\<open>config_flow.py\<close>), and the migration of version 1 (\<^verbatim>\<open>__init__.py\<close>). The entity registry is Home Assistant's: its
  rows are data, and what changes them, \<open>update\<close> (None is a ValueError) and \<open>remove\<close>, is a parameter.
\<close>

section \<open>Entries and their network names\<close>

abbreviation "CONF_NETWORK_NAME \<equiv> ''mqtt_network_name''"
abbreviation "CONFIG_ENTRY_VERSION \<equiv> 2 :: int"
abbreviation "LEGACY_ADDRESSLESS_LIGHT_UNIQUE_ID \<equiv> ''casambi_mqtt_light_''"

record config_entry =
  ne_entry_id :: string
  ne_version :: int
  ne_options :: "(string \<times> json) list"
  ne_data :: "(string \<times> json) list"
  ne_unique_id :: json

text \<open>Python's truth of a value.\<close>

fun truthy :: "json \<Rightarrow> bool" where
  "truthy JNull = False"
| "truthy (JBool b) = b"
| "truthy (JInt n) = (n \<noteq> 0)"
| "truthy (JFloat x) = (x \<noteq> 0)"
| "truthy (JStr s) = (s \<noteq> [])"
| "truthy (JArr xs) = (xs \<noteq> [])"
| "truthy (JObj d) = (d \<noteq> [])"

definition configured_network_name :: "(string \<times> json) list \<Rightarrow> (string \<times> json) list \<Rightarrow> json" where
  "configured_network_name options data =
     (if truthy (get options CONF_NETWORK_NAME) then get options CONF_NETWORK_NAME
      else if truthy (get data CONF_NETWORK_NAME) then get data CONF_NETWORK_NAME
      else JStr ''default'')"

abbreviation name_of :: "config_entry \<Rightarrow> json" where
  "name_of entry \<equiv> configured_network_name (ne_options entry) (ne_data entry)"

section \<open>Migration of the entity registry\<close>

record registry_entry =
  er_entity_id :: string
  er_config_entry_id :: string
  er_domain :: string
  er_platform :: string
  er_unique_id :: string

definition async_get_entity_id :: "registry_entry list \<Rightarrow> string \<Rightarrow> string \<Rightarrow> string \<Rightarrow> string option" where
  "async_get_entity_id registry domain platform unique_id =
     map_option er_entity_id (List.find (\<lambda>x. er_domain x = domain \<and> er_platform x = platform \<and> er_unique_id x = unique_id) registry)"

definition migrated_unique_id :: "string \<Rightarrow> string \<Rightarrow> string option" where
  "migrated_unique_id entry_id unique_id =
     (if unique_id = LEGACY_ADDRESSLESS_LIGHT_UNIQUE_ID then None
      else if list_ex (\<lambda>p. strip_prefix p unique_id \<noteq> None) [''casambi_mqtt_light_'', ''casambi_mqtt_scene_'', ''casambi_mqtt_reload_entities'']
      then Some (entry_scoped_unique_id entry_id unique_id) else Some [])"

text \<open>The loop over the entry's rows: the updates and the removals, or None when it returns False.\<close>

fun migration_plan :: "string \<Rightarrow> registry_entry list \<Rightarrow> registry_entry list \<Rightarrow> ((string \<times> string) list \<times> string list) option" where
  "migration_plan entry_id registry [] = Some ([], [])"
| "migration_plan entry_id registry (x # xs) =
     (if er_platform x \<noteq> ''casambi_mqtt'' \<or> strip_prefix (entry_id @ ''_'') (er_unique_id x) \<noteq> None
      then migration_plan entry_id registry xs
      else case migrated_unique_id entry_id (er_unique_id x) of
        None \<Rightarrow> map_option (\<lambda>(updates, removals). (updates, er_entity_id x # removals)) (migration_plan entry_id registry xs)
      | Some target \<Rightarrow>
          (if target = [] then None
           else if async_get_entity_id registry (er_domain x) ''casambi_mqtt'' target \<notin> {None, Some (er_entity_id x)} then None
           else map_option (\<lambda>(updates, removals). ((er_entity_id x, target) # updates, removals)) (migration_plan entry_id registry xs)))"

text \<open>The updates in turn; a ValueError leaves the ones before it.\<close>

fun apply_updates :: "(registry_entry list \<Rightarrow> string \<Rightarrow> string \<Rightarrow> registry_entry list option) \<Rightarrow> (string \<times> string) list
    \<Rightarrow> registry_entry list \<Rightarrow> bool \<times> registry_entry list" where
  "apply_updates update [] registry = (True, registry)"
| "apply_updates update ((entity_id, target) # us) registry =
     (case update registry entity_id target of None \<Rightarrow> (False, registry) | Some registry' \<Rightarrow> apply_updates update us registry')"

definition async_migrate_entry :: "(registry_entry list \<Rightarrow> string \<Rightarrow> string \<Rightarrow> registry_entry list option)
    \<Rightarrow> (string \<Rightarrow> registry_entry list \<Rightarrow> registry_entry list) \<Rightarrow> config_entry list \<Rightarrow> config_entry \<Rightarrow> registry_entry list
    \<Rightarrow> bool \<times> registry_entry list \<times> config_entry" where
  "async_migrate_entry update remove entries entry registry =
     (if ne_version entry = CONFIG_ENTRY_VERSION then (True, registry, entry)
      else if ne_version entry \<noteq> 1 then (False, registry, entry)
      else if list_ex (\<lambda>c. ne_entry_id c \<noteq> ne_entry_id entry \<and> name_of c = name_of entry) entries then (False, registry, entry)
      else case migration_plan (ne_entry_id entry) registry (filter (\<lambda>x. er_config_entry_id x = ne_entry_id entry) registry) of
        None \<Rightarrow> (False, registry, entry)
      | Some (updates, removals) \<Rightarrow>
          (case apply_updates update updates registry of
             (False, registry') \<Rightarrow> (False, registry', entry)
           | (True, registry') \<Rightarrow> (True, fold remove removals registry', entry\<lparr>ne_version := CONFIG_ENTRY_VERSION, ne_unique_id := name_of entry\<rparr>)))"

text \<open>\<^verbatim>\<open>_remove_legacy_addressless_light\<close>\<close>

definition remove_legacy_addressless_light :: "(string \<Rightarrow> registry_entry list \<Rightarrow> registry_entry list) \<Rightarrow> string
    \<Rightarrow> registry_entry list \<Rightarrow> registry_entry list" where
  "remove_legacy_addressless_light remove entry_id registry =
     (case async_get_entity_id registry ''light'' ''casambi_mqtt'' LEGACY_ADDRESSLESS_LIGHT_UNIQUE_ID of
        None \<Rightarrow> registry
      | Some entity_id \<Rightarrow>
          (case List.find (\<lambda>x. er_entity_id x = entity_id) registry of
             None \<Rightarrow> registry
           | Some x \<Rightarrow> if er_config_entry_id x = entry_id then remove entity_id registry else registry))"

section \<open>What a migration does\<close>

text \<open>The registry: entity ids are unique, and so are unique ids within a domain and platform.\<close>

definition registry_ok :: "registry_entry list \<Rightarrow> bool" where
  "registry_ok registry \<longleftrightarrow> distinct (map er_entity_id registry) \<and> distinct (map (\<lambda>x. (er_domain x, er_platform x, er_unique_id x)) registry)"

text \<open>Home Assistant's \<^verbatim>\<open>async_update_entity\<close> raises exactly on a unique id in use; both change the one row.\<close>

definition update_law :: "(registry_entry list \<Rightarrow> string \<Rightarrow> string \<Rightarrow> registry_entry list option) \<Rightarrow> bool" where
  "update_law update \<longleftrightarrow> (\<forall>registry. \<forall>x\<in>set registry. \<forall>target.
     (\<forall>y\<in>set registry. er_domain y = er_domain x \<and> er_platform y = er_platform x \<and> er_unique_id y = target \<longrightarrow> er_entity_id y = er_entity_id x) \<longrightarrow>
     update registry (er_entity_id x) target =
       Some (map (\<lambda>y. if er_entity_id y = er_entity_id x then y\<lparr>er_unique_id := target\<rparr> else y) registry))"

definition remove_law :: "(string \<Rightarrow> registry_entry list \<Rightarrow> registry_entry list) \<Rightarrow> bool" where
  "remove_law remove \<longleftrightarrow> (\<forall>entity_id registry. remove entity_id registry = filter (\<lambda>x. er_entity_id x \<noteq> entity_id) registry)"

text \<open>The intended result, row by row.\<close>

definition unscoped :: "string \<Rightarrow> registry_entry \<Rightarrow> bool" where
  "unscoped entry_id x \<longleftrightarrow> er_config_entry_id x = entry_id \<and> er_platform x = ''casambi_mqtt''
     \<and> strip_prefix (entry_id @ ''_'') (er_unique_id x) = None"

definition scope_row :: "string \<Rightarrow> registry_entry \<Rightarrow> registry_entry" where
  "scope_row entry_id x = (if unscoped entry_id x then x\<lparr>er_unique_id := entry_id @ ''_'' @ er_unique_id x\<rparr> else x)"

definition legacy_row :: "string \<Rightarrow> registry_entry \<Rightarrow> bool" where
  "legacy_row entry_id x \<longleftrightarrow> unscoped entry_id x \<and> er_unique_id x = LEGACY_ADDRESSLESS_LIGHT_UNIQUE_ID"

lemma get_entity_id_iff:
  assumes "registry_ok registry" "x \<in> set registry"
    and "async_get_entity_id registry (er_domain x) p t \<in> {None, Some (er_entity_id x)}"
    and "y \<in> set registry" "er_domain y = er_domain x" "er_platform y = p" "er_unique_id y = t"
  shows "y = x"
proof -
  let ?P = "\<lambda>z. er_domain z = er_domain x \<and> er_platform z = p \<and> er_unique_id z = t"
  obtain z where z: "List.find ?P registry = Some z"
    using assms(4-7) by (cases "List.find ?P registry") (auto simp: find_None_iff)
  then have zP: "z \<in> set registry" "?P z" by (auto simp: find_Some_iff)
  with assms(3) z have "er_entity_id z = er_entity_id x" by (simp add: async_get_entity_id_def)
  with assms(1,2) zP have "z = x" by (auto simp: registry_ok_def distinct_map inj_on_def)
  moreover have "y = z" using assms(1,4-7) zP by (auto simp: registry_ok_def distinct_map inj_on_def)
  ultimately show ?thesis by simp
qed

lemma plan_rows:
  assumes "migration_plan e registry xs = Some (us, rs)" "\<forall>x\<in>set xs. er_config_entry_id x = e"
  shows "us = map (\<lambda>x. (er_entity_id x, e @ ''_'' @ er_unique_id x)) (filter (\<lambda>x. unscoped e x \<and> \<not> legacy_row e x) xs)
    \<and> rs = map er_entity_id (filter (legacy_row e) xs)
    \<and> (\<forall>x\<in>set xs. unscoped e x \<and> \<not> legacy_row e x \<longrightarrow>
        async_get_entity_id registry (er_domain x) ''casambi_mqtt'' (e @ ''_'' @ er_unique_id x) \<in> {None, Some (er_entity_id x)})"
  using assms
proof (induction xs arbitrary: us rs)
  case (Cons x xs)
  have x: "er_config_entry_id x = e" and xs: "\<forall>x\<in>set xs. er_config_entry_id x = e" using Cons.prems(2) by auto
  show ?case
  proof (cases "unscoped e x")
    case False
    with Cons.prems(1) x have "migration_plan e registry xs = Some (us, rs)" by (auto simp: unscoped_def)
    from Cons.IH[OF this xs] False show ?thesis by (simp add: legacy_row_def)
  next
    case True
    show ?thesis
    proof (cases "er_unique_id x = LEGACY_ADDRESSLESS_LIGHT_UNIQUE_ID")
      case legacy: True
      then obtain rs' where "migration_plan e registry xs = Some (us, rs')" "rs = er_entity_id x # rs'"
        using Cons.prems(1) True by (auto simp: unscoped_def migrated_unique_id_def)
      from Cons.IH[OF this(1) xs] True legacy this(2) show ?thesis by (simp add: legacy_row_def)
    next
      case False
      let ?t = "e @ ''_'' @ er_unique_id x"
      have lookup: "async_get_entity_id registry (er_domain x) ''casambi_mqtt'' ?t \<in> {None, Some (er_entity_id x)}"
        and "\<exists>us'. migration_plan e registry xs = Some (us', rs) \<and> us = (er_entity_id x, ?t) # us'"
        using Cons.prems(1) True False
        by (auto simp: unscoped_def migrated_unique_id_def entry_scoped_unique_id_def split: if_splits)
      then obtain us' where us': "migration_plan e registry xs = Some (us', rs)" "us = (er_entity_id x, ?t) # us'" by blast
      from Cons.IH[OF us'(1) xs] True False us'(2) lookup show ?thesis by (simp add: legacy_row_def)
    qed
  qed
qed simp

definition scoped_by :: "string \<Rightarrow> string set \<Rightarrow> registry_entry \<Rightarrow> registry_entry" where
  "scoped_by e W y = (if er_entity_id y \<in> W then y\<lparr>er_unique_id := e @ ''_'' @ er_unique_id y\<rparr> else y)"

lemma scoped_by_same [simp]:
  "er_entity_id (scoped_by e W y) = er_entity_id y" "er_domain (scoped_by e W y) = er_domain y"
  "er_platform (scoped_by e W y) = er_platform y" "er_config_entry_id (scoped_by e W y) = er_config_entry_id y"
  by (simp_all add: scoped_by_def)

lemma same_row: "registry_ok registry \<Longrightarrow> x \<in> set registry \<Longrightarrow> y \<in> set registry \<Longrightarrow> er_entity_id x = er_entity_id y \<Longrightarrow> x = y"
  by (auto simp: registry_ok_def distinct_map inj_on_def)

lemma id_in_filter:
  assumes "registry_ok registry" "x \<in> set registry"
  shows "er_entity_id x \<in> er_entity_id ` set (filter P registry) \<longleftrightarrow> P x"
proof
  assume "er_entity_id x \<in> er_entity_id ` set (filter P registry)"
  then obtain y where "y \<in> set registry" "P y" "er_entity_id x = er_entity_id y" by auto
  with same_row[OF assms(1,2)] show "P x" by blast
qed (use assms(2) in auto)

lemma same_key:
  "registry_ok registry \<Longrightarrow> x \<in> set registry \<Longrightarrow> y \<in> set registry \<Longrightarrow> er_domain x = er_domain y \<Longrightarrow> er_platform x = er_platform y
    \<Longrightarrow> er_unique_id x = er_unique_id y \<Longrightarrow> x = y"
  by (auto simp: registry_ok_def distinct_map inj_on_def)

lemma apply_scoped:
  assumes law: "update_law update" and ok: "registry_ok registry"
    and todo: "set todo \<subseteq> set registry" "distinct (map er_entity_id todo)" "\<forall>x\<in>set todo. unscoped e x
        \<and> async_get_entity_id registry (er_domain x) ''casambi_mqtt'' (e @ ''_'' @ er_unique_id x) \<in> {None, Some (er_entity_id x)}"
    and W: "W \<inter> er_entity_id ` set todo = {}" "\<forall>y\<in>set registry. er_entity_id y \<in> W \<longrightarrow> unscoped e y"
  shows "apply_updates update (map (\<lambda>x. (er_entity_id x, e @ ''_'' @ er_unique_id x)) todo) (map (scoped_by e W) registry)
    = (True, map (scoped_by e (W \<union> er_entity_id ` set todo)) registry)"
  using todo W
proof (induction todo arbitrary: W)
  case (Cons x todo)
  let ?t = "e @ ''_'' @ er_unique_id x" and ?reg = "map (scoped_by e W) registry"
  have x: "x \<in> set registry" "unscoped e x" "er_entity_id x \<notin> W"
    and free: "async_get_entity_id registry (er_domain x) ''casambi_mqtt'' ?t \<in> {None, Some (er_entity_id x)}"
    using Cons.prems by auto
  have px: "er_platform x = ''casambi_mqtt''" using x(2) by (simp add: unscoped_def)
  have unused: "y = x" if y: "y \<in> set registry" "er_domain y = er_domain x" "er_platform y = er_platform x" "er_unique_id (scoped_by e W y) = ?t" for y
  proof (cases "er_entity_id y \<in> W")
    case True
    with y show ?thesis by (intro same_key[OF ok _ x(1)]) (simp_all add: scoped_by_def)
  next
    case False
    with y px show ?thesis by (intro get_entity_id_iff[OF ok x(1) free]) (simp_all add: scoped_by_def)
  qed
  have "x \<in> set ?reg" using x by (force simp: scoped_by_def)
  moreover have "\<forall>y\<in>set ?reg. er_domain y = er_domain x \<and> er_platform y = er_platform x \<and> er_unique_id y = ?t \<longrightarrow> er_entity_id y = er_entity_id x"
    using unused by auto
  ultimately have "update ?reg (er_entity_id x) ?t = Some (map (\<lambda>y. if er_entity_id y = er_entity_id x then y\<lparr>er_unique_id := ?t\<rparr> else y) ?reg)"
    using law by (simp only: update_law_def)
  also have "map (\<lambda>y. if er_entity_id y = er_entity_id x then y\<lparr>er_unique_id := ?t\<rparr> else y) ?reg = map (scoped_by e (insert (er_entity_id x) W)) registry"
    using same_row[OF ok _ x(1)] x(3) by (auto simp: scoped_by_def)
  finally have step: "update ?reg (er_entity_id x) ?t = Some (map (scoped_by e (insert (er_entity_id x) W)) registry)" .
  have W': "\<forall>y\<in>set registry. er_entity_id y \<in> insert (er_entity_id x) W \<longrightarrow> unscoped e y"
  proof (intro ballI impI)
    fix y assume y: "y \<in> set registry" "er_entity_id y \<in> insert (er_entity_id x) W"
    show "unscoped e y"
    proof (cases "er_entity_id y = er_entity_id x")
      case True
      with same_row[OF ok y(1) x(1)] x(2) show ?thesis by simp
    qed (use y Cons.prems(5) in auto)
  qed
  have "apply_updates update (map (\<lambda>x. (er_entity_id x, e @ ''_'' @ er_unique_id x)) todo) (map (scoped_by e (insert (er_entity_id x) W)) registry)
      = (True, map (scoped_by e (insert (er_entity_id x) W \<union> er_entity_id ` set todo)) registry)"
    using Cons.prems x W' by (intro Cons.IH) auto
  with step show ?case by simp
qed simp

lemma fold_removes: "remove_law remove \<Longrightarrow> fold remove ids registry = filter (\<lambda>x. er_entity_id x \<notin> set ids) registry"
  by (induction ids arbitrary: registry) (auto simp: remove_law_def intro: filter_cong)

lemma distinct_filter_ids: "registry_ok registry \<Longrightarrow> distinct (map er_entity_id (filter P registry))"
  by (simp add: registry_ok_def distinct_map_filter)

text \<open>A plan that exists is carried out without an error, and to the intended result.\<close>

lemma planned_migration:
  assumes ok: "registry_ok registry" and laws: "update_law update" "remove_law remove"
    and plan: "migration_plan e registry (filter (\<lambda>x. er_config_entry_id x = e) registry) = Some (us, rs)"
  shows "\<exists>registry'. apply_updates update us registry = (True, registry')
    \<and> fold remove rs registry' = map (scope_row e) (filter (\<lambda>x. \<not> legacy_row e x) registry)"
proof -
  let ?rows = "filter (\<lambda>x. er_config_entry_id x = e) registry"
  let ?todo = "filter (\<lambda>x. unscoped e x \<and> \<not> legacy_row e x) ?rows"
  have "\<forall>x\<in>set ?rows. er_config_entry_id x = e" by simp
  note pr = plan_rows[OF plan this]
  have us: "us = map (\<lambda>x. (er_entity_id x, e @ ''_'' @ er_unique_id x)) ?todo" using pr by (rule conjunct1)
  have rs: "rs = map er_entity_id (filter (legacy_row e) ?rows)" using pr[THEN conjunct2] by (rule conjunct1)
  have free: "\<forall>x\<in>set ?todo. unscoped e x
      \<and> async_get_entity_id registry (er_domain x) ''casambi_mqtt'' (e @ ''_'' @ er_unique_id x) \<in> {None, Some (er_entity_id x)}"
    using pr[THEN conjunct2, THEN conjunct2] unfolding set_filter[of _ ?rows] by blast
  let ?W = "er_entity_id ` set ?todo"
  have "apply_updates update us (map (scoped_by e {}) registry) = (True, map (scoped_by e ({} \<union> ?W)) registry)"
    unfolding us using free distinct_filter_ids[OF ok]
    by (intro apply_scoped[OF laws(1) ok]) (simp_all add: filter_filter subset_iff)
  then have updated: "apply_updates update us registry = (True, map (scoped_by e ?W) registry)"
    by (simp add: scoped_by_def[abs_def])
  have scope: "scoped_by e ?W x = scope_row e x" if "x \<in> set registry" "\<not> legacy_row e x" for x
  proof -
    have "er_entity_id x \<in> ?W \<longleftrightarrow> unscoped e x"
      using id_in_filter[OF ok that(1)] that(2) by (simp only: filter_filter) (auto simp: unscoped_def)
    then show ?thesis by (simp add: scoped_by_def scope_row_def)
  qed
  have old: "er_entity_id x \<in> set rs \<longleftrightarrow> legacy_row e x" if "x \<in> set registry" for x
    using id_in_filter[OF ok that] unfolding rs set_map by (simp only: filter_filter) (auto simp: legacy_row_def unscoped_def)
  have "fold remove rs (map (scoped_by e ?W) registry) = map (scoped_by e ?W) (filter (\<lambda>x. er_entity_id x \<notin> set rs) registry)"
    unfolding fold_removes[OF laws(2)] by (simp add: filter_map comp_def)
  also have "filter (\<lambda>x. er_entity_id x \<notin> set rs) registry = filter (\<lambda>x. \<not> legacy_row e x) registry"
    using old by (auto intro: filter_cong)
  also have "map (scoped_by e ?W) (filter (\<lambda>x. \<not> legacy_row e x) registry) = map (scope_row e) (filter (\<lambda>x. \<not> legacy_row e x) registry)"
    using scope by auto
  finally show ?thesis using updated by blast
qed

text \<open>
  C23: migrating an entry is all or nothing. If it fails, neither the registry nor the entry has changed. If it succeeds on
  an entry of version 1, the entry has version 2 and its network name as its unique id, no other entry has that name, and the
  registry is the old one without the addressless light of old and with each remaining entity of the entry
  that was not yet scoped prefixed by the entry's id; entity ids and foreign rows are as before.
\<close>

theorem migration_all_or_nothing:
  assumes "registry_ok registry" "update_law update" "remove_law remove"
    and "async_migrate_entry update remove entries entry registry = (migrated, registry', entry')"
  shows "(\<not> migrated \<longrightarrow> registry' = registry \<and> entry' = entry)
    \<and> (migrated \<and> ne_version entry \<noteq> 2 \<longrightarrow> ne_version entry = 1
      \<and> entry' = entry\<lparr>ne_version := 2, ne_unique_id := name_of entry\<rparr>
      \<and> (\<forall>c\<in>set entries. ne_entry_id c \<noteq> ne_entry_id entry \<longrightarrow> name_of c \<noteq> name_of entry)
      \<and> registry' = map (scope_row (ne_entry_id entry)) (filter (\<lambda>x. \<not> legacy_row (ne_entry_id entry) x) registry))"
proof (cases "ne_version entry = 1 \<and> \<not> list_ex (\<lambda>c. ne_entry_id c \<noteq> ne_entry_id entry \<and> name_of c = name_of entry) entries")
  case False
  then show ?thesis using assms(4) by (auto simp: async_migrate_entry_def split: if_splits)
next
  case True
  let ?e = "ne_entry_id entry" and ?rows = "filter (\<lambda>x. er_config_entry_id x = ne_entry_id entry) registry"
  show ?thesis
  proof (cases "migration_plan ?e registry ?rows")
    case None
    with True assms(4) show ?thesis by (simp add: async_migrate_entry_def)
  next
    case (Some plan)
    obtain us rs where plan: "plan = (us, rs)" by force
    with planned_migration[OF assms(1-3)] Some obtain reg where reg: "apply_updates update us registry = (True, reg)"
      "fold remove rs reg = map (scope_row ?e) (filter (\<lambda>x. \<not> legacy_row ?e x) registry)" by blast
    with True Some plan have "async_migrate_entry update remove entries entry registry
        = (True, fold remove rs reg, entry\<lparr>ne_version := 2, ne_unique_id := name_of entry\<rparr>)"
      by (simp add: async_migrate_entry_def)
    with assms(4) reg(2) True show ?thesis by (auto simp: list_ex_iff)
  qed
qed

text \<open>A registry that behaves as documented, with the old addressless light and one more.\<close>

definition sample_update :: "registry_entry list \<Rightarrow> string \<Rightarrow> string \<Rightarrow> registry_entry list option" where
  "sample_update registry entity_id target =
     (if list_ex (\<lambda>x. er_entity_id x = entity_id \<and> list_all (\<lambda>y. er_domain y = er_domain x \<and> er_platform y = er_platform x
          \<and> er_unique_id y = target \<longrightarrow> er_entity_id y = entity_id) registry) registry
      then Some (map (\<lambda>y. if er_entity_id y = entity_id then y\<lparr>er_unique_id := target\<rparr> else y) registry) else None)"

definition sample_remove :: "string \<Rightarrow> registry_entry list \<Rightarrow> registry_entry list" where
  "sample_remove entity_id registry = filter (\<lambda>x. er_entity_id x \<noteq> entity_id) registry"

definition sample_registry :: "registry_entry list" where
  "sample_registry =
    [\<lparr>er_entity_id = ''light.old'', er_config_entry_id = ''e'', er_domain = ''light'', er_platform = ''casambi_mqtt'',
       er_unique_id = ''casambi_mqtt_light_''\<rparr>,
     \<lparr>er_entity_id = ''light.hall'', er_config_entry_id = ''e'', er_domain = ''light'', er_platform = ''casambi_mqtt'',
       er_unique_id = ''casambi_mqtt_light_ab''\<rparr>]"

definition old_entry :: config_entry where
  "old_entry = \<lparr>ne_entry_id = ''e'', ne_version = 1, ne_options = [], ne_data = [(CONF_NETWORK_NAME, JStr ''home'')], ne_unique_id = JNull\<rparr>"

theorem migration_all_or_nothing_witness:
  "map er_unique_id (fst (snd (async_migrate_entry sample_update sample_remove [old_entry] old_entry sample_registry))) = [''e_casambi_mqtt_light_ab'']"
proof -
  have ok: "registry_ok sample_registry" by (simp add: registry_ok_def sample_registry_def)
  have update: "update_law sample_update" by (auto simp: update_law_def sample_update_def list_ex_iff list_all_iff)
  have remove: "remove_law sample_remove" by (simp add: remove_law_def sample_remove_def)
  obtain m r x where run: "async_migrate_entry sample_update sample_remove [old_entry] old_entry sample_registry = (m, r, x)"
    by (metis prod.exhaust)
  have "fst (async_migrate_entry sample_update sample_remove [old_entry] old_entry sample_registry)"
    by (simp add: async_migrate_entry_def old_entry_def sample_registry_def strip_prefix_def migrated_unique_id_def
        async_get_entity_id_def sample_update_def entry_scoped_unique_id_def)
  then have "m" using run by simp
  with migration_all_or_nothing[OF ok update remove run]
  have "r = map (scope_row ''e'') (filter (\<lambda>x. \<not> legacy_row ''e'' x) sample_registry)" by (simp add: old_entry_def)
  then show ?thesis
    using run by (simp add: sample_registry_def legacy_row_def scope_row_def unscoped_def strip_prefix_def)
qed

end
