(* ===== verification/Entry_Flows.thy ===== *)
theory Entry_Flows
  imports Entry_Migration
begin

text \<open>
  \<^verbatim>\<open>config_flow.py\<close>: the flow that adds a config entry and the one that changes its options. What
  Home Assistant does with a flow's result is part of a step: a created entry is added, the data of an options
  flow replaces the options. Submitting a form is one step; a form's input has passed its schema.
\<close>

section \<open>The flows\<close>

text \<open>A set of names hashes them: None is the TypeError of a list or a dict.\<close>

definition configured_network_names :: "config_entry list \<Rightarrow> string option \<Rightarrow> json list option" where
  "configured_network_names entries exclude_entry_id =
     (let names = map name_of (filter (\<lambda>c. exclude_entry_id \<noteq> Some (ne_entry_id c)) entries) in
      if list_ex (\<lambda>v. member_hash v [] = None) names then None else Some names)"

datatype flow_result =
  Show_Form "(string \<times> string) list"
| Abort string
| Create_Entry json "(string \<times> json) list"
| Type_Error
| Key_Error

definition async_step_user :: "config_entry list \<Rightarrow> (string \<times> json) list option \<Rightarrow> flow_result" where
  "async_step_user entries user_input =
     (case user_input of
        None \<Rightarrow> Show_Form []
      | Some input \<Rightarrow>
          (case map_of input CONF_NETWORK_NAME of
             None \<Rightarrow> Key_Error
           | Some network_name \<Rightarrow>
               if \<not> is_valid_network_name network_name then Show_Form [(CONF_NETWORK_NAME, ''invalid_network_name'')]
               else (case configured_network_names entries None of
                       None \<Rightarrow> Type_Error
                     | Some names \<Rightarrow>
                         if network_name \<in> set names then Show_Form [(CONF_NETWORK_NAME, ''network_name_in_use'')]
                         else if network_name \<in> set (map ne_unique_id entries) then Abort ''already_configured''
                         else Create_Entry network_name [(CONF_NETWORK_NAME, network_name)])))"

text \<open>The options flow of one entry, with the unique id it gives the entry, if it does.\<close>

definition options_step_init :: "config_entry list \<Rightarrow> config_entry \<Rightarrow> (string \<times> json) list option \<Rightarrow> flow_result \<times> json option" where
  "options_step_init entries entry user_input =
     (case user_input of
        None \<Rightarrow> (Show_Form [], None)
      | Some input \<Rightarrow>
          (case map_of input CONF_NETWORK_NAME of
             None \<Rightarrow> (Key_Error, None)
           | Some network_name \<Rightarrow>
               (case configured_network_names entries (Some (ne_entry_id entry)) of
                  None \<Rightarrow> (Type_Error, None)
                | Some names \<Rightarrow>
                    if \<not> is_valid_network_name network_name then (Show_Form [(CONF_NETWORK_NAME, ''invalid_network_name'')], None)
                    else if network_name \<in> set names then (Show_Form [(CONF_NETWORK_NAME, ''network_name_in_use'')], None)
                    else (Create_Entry network_name ((CONF_NETWORK_NAME, network_name)
                            # [(key, get input key). key \<leftarrow> map fst SETTING_RANGES @ [CONF_RECOVERY_ENABLED], map_of input key \<noteq> None]),
                          Some network_name))))"

text \<open>Whether \<^verbatim>\<open>_async_options_updated\<close> reloads the entry: dicts are equal when they have the same items.\<close>

definition options_reload :: "(string \<times> json) list \<Rightarrow> (string \<times> json) list \<Rightarrow> bool" where
  "options_reload applied options \<longleftrightarrow> \<not> (keys_of options = keys_of applied \<and> list_all (\<lambda>(k, _). get options k = get applied k) options)"

section \<open>Entries over time\<close>

datatype entry_act =
  User_Flow "(string \<times> json) list option" string
| Options_Flow string "(string \<times> json) list option"
| Remove_Entry string

text \<open>A new entry gets an id that no entry has.\<close>

definition change_entry :: "string \<Rightarrow> (config_entry \<Rightarrow> config_entry) \<Rightarrow> config_entry list \<Rightarrow> config_entry list" where
  "change_entry entry_id f = map (\<lambda>c. if ne_entry_id c = entry_id then f c else c)"

fun entry_step :: "entry_act \<Rightarrow> config_entry list \<Rightarrow> config_entry list" where
  "entry_step (User_Flow input new_id) entries =
     (case async_step_user entries input of
        Create_Entry title data \<Rightarrow>
          (if new_id \<in> set (map ne_entry_id entries) then entries
           else entries @ [\<lparr>ne_entry_id = new_id, ne_version = 2, ne_options = [], ne_data = data, ne_unique_id = title\<rparr>])
      | _ \<Rightarrow> entries)"
| "entry_step (Options_Flow entry_id input) entries =
     (case List.find (\<lambda>c. ne_entry_id c = entry_id) entries of
        None \<Rightarrow> entries
      | Some entry \<Rightarrow>
          (case options_step_init entries entry input of
             (Create_Entry title data, Some unique_id) \<Rightarrow>
               change_entry entry_id (\<lambda>c. c\<lparr>ne_unique_id := unique_id, ne_options := data\<rparr>) entries
           | _ \<Rightarrow> entries))"
| "entry_step (Remove_Entry entry_id) entries = filter (\<lambda>c. ne_entry_id c \<noteq> entry_id) entries"

section \<open>Names stay valid and distinct\<close>

definition entries_ok :: "config_entry list \<Rightarrow> bool" where
  "entries_ok entries \<longleftrightarrow> distinct (map ne_entry_id entries) \<and> distinct (map name_of entries)
     \<and> (\<forall>c\<in>set entries. is_valid_network_name (name_of c) \<and> ne_unique_id c = name_of c)"

lemma valid_name_truthy: "is_valid_network_name v \<Longrightarrow> truthy v"
  by (cases v) (auto simp: is_valid_network_name_def)

lemma name_of_named:
  "is_valid_network_name v \<Longrightarrow> configured_network_name ((CONF_NETWORK_NAME, v) # rest) data = v"
  "is_valid_network_name v \<Longrightarrow> configured_network_name [] [(CONF_NETWORK_NAME, v)] = v"
  by (simp_all add: configured_network_name_def valid_name_truthy)

lemma user_creates:
  assumes "async_step_user entries input = Create_Entry title data"
  shows "is_valid_network_name title \<and> data = [(CONF_NETWORK_NAME, title)] \<and> title \<notin> set (map name_of entries)"
  using assms by (auto simp: async_step_user_def configured_network_names_def Let_def split: option.splits if_splits)

lemma options_creates:
  assumes "options_step_init entries entry input = (Create_Entry title data, Some uid)"
  shows "is_valid_network_name title \<and> uid = title \<and> (\<exists>rest. data = (CONF_NETWORK_NAME, title) # rest)
    \<and> (\<forall>c\<in>set entries. ne_entry_id c \<noteq> ne_entry_id entry \<longrightarrow> name_of c \<noteq> title)"
  using assms by (auto simp: options_step_init_def configured_network_names_def Let_def split: option.splits if_splits)

lemma change_entry_ok:
  assumes ok: "entries_ok entries" and f: "\<And>c. ne_entry_id (f c) = ne_entry_id c" "\<And>c. name_of (f c) = v" "\<And>c. ne_unique_id (f c) = v"
    and v: "is_valid_network_name v" "\<forall>c\<in>set entries. ne_entry_id c \<noteq> e \<longrightarrow> name_of c \<noteq> v"
  shows "entries_ok (change_entry e f entries)"
proof -
  have ids: "map ne_entry_id (change_entry e f entries) = map ne_entry_id entries" using f(1) by (simp add: change_entry_def)
  have "inj_on (\<lambda>c. name_of (if ne_entry_id c = e then f c else c)) (set entries)"
    using ok v(2) f(2) by (auto simp: inj_on_def entries_ok_def distinct_map)
  moreover have "distinct entries" using ok by (auto simp: entries_ok_def distinct_map)
  ultimately have "distinct (map name_of (change_entry e f entries))" by (simp add: change_entry_def distinct_map comp_def)
  then show ?thesis using ok f(2,3) v(1) unfolding entries_ok_def ids by (auto simp: change_entry_def)
qed

lemma entry_step_ok:
  assumes "entries_ok entries"
  shows "entries_ok (entry_step a entries)"
proof (cases a)
  case (User_Flow input new_id)
  show ?thesis
  proof (cases "async_step_user entries input")
    case (Create_Entry title data)
    note user_creates[OF this]
    with assms Create_Entry show ?thesis by (auto simp: User_Flow entries_ok_def name_of_named)
  qed (use assms in \<open>simp_all add: User_Flow\<close>)
next
  case (Options_Flow e input)
  show ?thesis
  proof (cases "List.find (\<lambda>c. ne_entry_id c = e) entries")
    case (Some entry)
    then have e: "ne_entry_id entry = e" by (auto simp: find_Some_iff)
    obtain r u where r: "options_step_init entries entry input = (r, u)" by force
    show ?thesis
    proof (cases "\<exists>title data uid. r = Create_Entry title data \<and> u = Some uid")
      case True
      then obtain title data uid where c: "options_step_init entries entry input = (Create_Entry title data, Some uid)" using r by auto
      from options_creates[OF c] obtain rest where o: "is_valid_network_name title" "uid = title" "data = (CONF_NETWORK_NAME, title) # rest"
        "\<forall>c\<in>set entries. ne_entry_id c \<noteq> e \<longrightarrow> name_of c \<noteq> title" using e by auto
      have "entries_ok (change_entry e (\<lambda>c. c\<lparr>ne_unique_id := uid, ne_options := data\<rparr>) entries)"
        using o by (intro change_entry_ok[OF assms, where v = title]) (simp_all add: name_of_named)
      then show ?thesis using c Some by (simp add: Options_Flow)
    next
      case False
      then have "entry_step a entries = entries"
        using Some r by (cases r; cases u) (simp_all add: Options_Flow)
      then show ?thesis using assms by simp
    qed
  qed (use assms in \<open>simp add: Options_Flow\<close>)
next
  case (Remove_Entry e)
  with assms show ?thesis by (auto simp: entries_ok_def distinct_map_filter)
qed

lemma entries_run_ok: "entries_ok entries \<Longrightarrow> entries_ok (fold entry_step acts entries)"
  by (induction acts arbitrary: entries) (simp_all add: entry_step_ok)

section \<open>Topics and settings\<close>

text \<open>The topics of a network: everything below its level.\<close>

definition topic_of_network :: "json \<Rightarrow> string \<Rightarrow> bool" where
  "topic_of_network name topic \<longleftrightarrow> strip_prefix (TOPIC_PREFIX @ ''/'' @ the_str name @ ''/'') topic \<noteq> None"

lemma slash_prefix:
  assumes "CHR ''/'' \<notin> set x" "CHR ''/'' \<notin> set y" "x @ CHR ''/'' # r = y @ CHR ''/'' # r'"
  shows "x = y"
proof -
  have "takeWhile (\<lambda>c. c \<noteq> CHR ''/'') (x @ CHR ''/'' # r) = x" "takeWhile (\<lambda>c. c \<noteq> CHR ''/'') (y @ CHR ''/'' # r') = y"
    using assms(1,2) by (auto simp: takeWhile_append2 takeWhile_tail)
  with assms(3) show ?thesis by simp
qed

lemma under_topic: "topic_of_network name topic \<longleftrightarrow> (\<exists>r. topic = TOPIC_PREFIX @ ''/'' @ the_str name @ CHR ''/'' # r)"
proof
  assume "topic_of_network name topic"
  then have "take (length (TOPIC_PREFIX @ ''/'' @ the_str name @ ''/'')) topic = TOPIC_PREFIX @ ''/'' @ the_str name @ ''/''"
    unfolding topic_of_network_def strip_prefix_def by (simp only: split: if_splits) simp
  then have "topic = (TOPIC_PREFIX @ ''/'' @ the_str name @ ''/'') @ drop (length (TOPIC_PREFIX @ ''/'' @ the_str name @ ''/'')) topic"
    by (metis append_take_drop_id)
  then show "\<exists>r. topic = TOPIC_PREFIX @ ''/'' @ the_str name @ CHR ''/'' # r" by (metis append.assoc append_Cons append_Nil)
qed (auto simp: topic_of_network_def strip_prefix_def)

lemma networks_disjoint:
  assumes "is_valid_network_name v" "is_valid_network_name w" "topic_of_network v topic" "topic_of_network w topic"
  shows "v = w"
proof -
  have "CHR ''/'' \<notin> set (the_str v)" "CHR ''/'' \<notin> set (the_str w)" "is_str v" "is_str w"
    using assms(1,2) by (auto simp: is_valid_network_name_def)
  moreover obtain r r' where "the_str v @ CHR ''/'' # r = the_str w @ CHR ''/'' # r'" using assms(3,4) by (auto simp: under_topic)
  ultimately show ?thesis using slash_prefix[of "the_str v" "the_str w"] by (cases v; cases w) auto
qed

lemma map_of_picked:
  "map_of [(k, get input k). k \<leftarrow> ks, map_of input k \<noteq> None] key = (if key \<in> set ks then map_of input key else None)"
proof (induction ks)
  case (Cons k ks)
  show ?case
  proof (cases "map_of input k")
    case None
    with Cons.IH show ?thesis by auto
  next
    case (Some v)
    with Cons.IH show ?thesis by (auto simp: get_def)
  qed
qed simp

lemma saved_settings:
  assumes "options_step_init entries entry (Some input) = (Create_Entry title data, Some uid)"
  shows "from_options data = from_options input"
proof -
  let ?ks = "map fst SETTING_RANGES @ [CONF_RECOVERY_ENABLED]"
  have data: "data = (CONF_NETWORK_NAME, title) # [(k, get input k). k \<leftarrow> ?ks, map_of input k \<noteq> None]"
    using assms by (auto simp: options_step_init_def split: option.splits if_splits)
  have "CONF_NETWORK_NAME \<notin> set ?ks" by (simp add: SETTING_RANGES_def)
  then have "map_of data key = map_of input key" if "key \<in> set ?ks" for key
    using map_of_picked[of input ?ks key] that unfolding data by auto
  then have saved: "get_default data key v = get_default input key v" if "key \<in> set ?ks" for key v
    using that by (simp only: get_default_def)
  then have "option_value data key = option_value input key" if "key \<in> set (map fst SETTING_RANGES)" for key
    unfolding option_value_def by (subst saved) (use that in auto)
  with saved[of CONF_RECOVERY_ENABLED "JBool True"] show ?thesis by (simp add: from_options_def SETTING_RANGES_def)
qed

text \<open>
  C22: networks never mix. However entries are added, renamed by their options and removed, each has a valid network
  name, no two have the same, each entry's unique id is its name, and no topic belongs to the networks of two entries;
  and the settings read back from saved options are those of the submitted form.
\<close>

theorem network_names_stay_separate:
  assumes "entries_ok entries"
  shows "distinct (map name_of (fold entry_step acts entries))
    \<and> (\<forall>c\<in>set (fold entry_step acts entries). is_valid_network_name (name_of c) \<and> ne_unique_id c = name_of c)
    \<and> (\<forall>c\<in>set (fold entry_step acts entries). \<forall>c'\<in>set (fold entry_step acts entries).
        topic_of_network (name_of c) topic \<and> topic_of_network (name_of c') topic \<longrightarrow> c = c')
    \<and> (case options_step_init (fold entry_step acts entries) entry (Some input) of
        (Create_Entry title data, Some uid) \<Rightarrow> from_options data = from_options input | _ \<Rightarrow> True)"
proof -
  let ?es = "fold entry_step acts entries"
  have ok: "entries_ok ?es" by (rule entries_run_ok[OF assms])
  have "c = c'" if "c \<in> set ?es" "c' \<in> set ?es" "topic_of_network (name_of c) topic" "topic_of_network (name_of c') topic" for c c'
  proof -
    have "name_of c = name_of c'" using ok that networks_disjoint unfolding entries_ok_def by blast
    with ok that(1,2) show ?thesis by (auto simp: entries_ok_def distinct_map inj_on_def)
  qed
  moreover have "case options_step_init ?es entry (Some input) of
        (Create_Entry title data, Some uid) \<Rightarrow> from_options data = from_options input | _ \<Rightarrow> True"
    using saved_settings[of ?es entry input] by (auto split: prod.split flow_result.split option.split)
  ultimately show ?thesis using ok unfolding entries_ok_def by blast
qed

theorem network_names_stay_separate_witness:
  "map name_of (fold entry_step [User_Flow (Some [(CONF_NETWORK_NAME, JStr ''home'')]) ''a'', User_Flow (Some [(CONF_NETWORK_NAME, JStr ''home'')]) ''b'',
      User_Flow (Some [(CONF_NETWORK_NAME, JStr ''attic'')]) ''c'', Options_Flow ''a'' (Some [(CONF_NETWORK_NAME, JStr ''attic'')])] []) = [JStr ''home'', JStr ''attic'']
   \<and> distinct (map name_of (fold entry_step [User_Flow (Some [(CONF_NETWORK_NAME, JStr ''home'')]) ''a'', User_Flow (Some [(CONF_NETWORK_NAME, JStr ''home'')]) ''b'',
      User_Flow (Some [(CONF_NETWORK_NAME, JStr ''attic'')]) ''c'', Options_Flow ''a'' (Some [(CONF_NETWORK_NAME, JStr ''attic'')])] []))"
proof -
  have "entries_ok []" by (simp add: entries_ok_def)
  note network_names_stay_separate[OF this, THEN conjunct1, of "[User_Flow (Some [(CONF_NETWORK_NAME, JStr ''home'')]) ''a'',
      User_Flow (Some [(CONF_NETWORK_NAME, JStr ''home'')]) ''b'', User_Flow (Some [(CONF_NETWORK_NAME, JStr ''attic'')]) ''c'',
      Options_Flow ''a'' (Some [(CONF_NETWORK_NAME, JStr ''attic'')])]"]
  then show ?thesis
    by (simp add: async_step_user_def options_step_init_def configured_network_names_def configured_network_name_def is_valid_network_name_def)
qed

end
