(* ===== verification/Bridge_Session.thy ===== *)
theory Bridge_Session
  imports Bridge_Main Effects
begin

text \<open>
  \<^verbatim>\<open>src/server.py\<close>, the resources of one MQTT session: \<^verbatim>\<open>session_body\<close>, its race against the loss of the BLE link,
  \<^verbatim>\<open>_cleanup_connected_bridge\<close>, \<^verbatim>\<open>aclose\<close> of the publishers and the final status. Each call to the outside may
  raise, and a cancellation is an exception of the call it arrives at; \<open>answer\<close> fixes which. The fields of
  \<^verbatim>\<open>_ConnectedBridgeHandles\<close> say what the trace so far says: which tasks were created and which handlers registered.
\<close>

lemmas effect_simps = Effects.act_simps
declare effect_simps [simp]

section \<open>Calls, tasks and traces\<close>

datatype session_call =
  Subscribe | First_Status | Publish_Snapshot | Ready_Status | Register_Units | Register_Switches | Consume_Commands
| Unregister_Switches | Unregister_Units | Drain_Switches | Drain_Units | Final_Status

datatype session_task = Status_Task | Unit_Worker | Switch_Worker | Heartbeat_Task

datatype trace_event = Called session_call | Failed session_call | Started session_task | Stopped session_task

datatype session_exn = Mqtt_Exn | Cancelled_Exn | Disconnected_Exn | Other_Exn

type_synonym 'a session_act = "(trace_event, session_exn, 'a) act"

definition call_out :: "(session_call \<Rightarrow> session_exn option) \<Rightarrow> session_call \<Rightarrow> unit session_act" where
  "call_out answer c = (case answer c of
     None \<Rightarrow> emit (Called c)
   | Some e \<Rightarrow> andthen (emit (Failed c)) (\<lambda>_. throw e))"

definition when_act :: "bool \<Rightarrow> unit session_act \<Rightarrow> unit session_act" where
  "when_act b m = (if b then m else give ())"

definition if_seen :: "trace_event \<Rightarrow> unit session_act \<Rightarrow> unit session_act" where
  "if_seen ev m = andthen (ask (\<lambda>h. ev \<in> set h)) (\<lambda>b. when_act b m)"

section \<open>The session\<close>

definition session_body :: "(session_call \<Rightarrow> session_exn option) \<Rightarrow> bool \<Rightarrow> unit session_act" where
  "session_body answer health =
     andthen (call_out answer Subscribe) (\<lambda>_.
     andthen (when_act health (andthen (call_out answer First_Status) (\<lambda>_. emit (Started Status_Task)))) (\<lambda>_.
     andthen (call_out answer Publish_Snapshot) (\<lambda>_.
     andthen (when_act health (call_out answer Ready_Status)) (\<lambda>_.
     andthen (emit (Started Unit_Worker)) (\<lambda>_.
     andthen (emit (Started Switch_Worker)) (\<lambda>_.
     andthen (call_out answer Register_Units) (\<lambda>_.
     andthen (call_out answer Register_Switches) (\<lambda>_.
     andthen (emit (Started Heartbeat_Task)) (\<lambda>_.
     call_out answer Consume_Commands)))))))))"

text \<open>
  Which of the session, the loss of the link and the caller's cancellation ends the race; the loser is awaited, and what a
  cancelled session raises instead of its cancellation replaces that of the caller.
\<close>

datatype race_end = Session_First | Link_Lost | Caller_Cancels

definition raced_session :: "(session_call \<Rightarrow> session_exn option) \<Rightarrow> bool \<Rightarrow> race_end \<Rightarrow> unit session_act" where
  "raced_session answer health race h =
     (case session_body answer health h of (r, h') \<Rightarrow>
        (case race of Session_First \<Rightarrow> (r, h') | Link_Lost \<Rightarrow> (Inl Disconnected_Exn, h') | Caller_Cancels \<Rightarrow> ((case r of Inl e \<Rightarrow> Inl e | Inr _ \<Rightarrow> Inl Cancelled_Exn), h')))"

text \<open>
  \<^verbatim>\<open>aclose\<close>: only a cancellation while it drains makes it raise, and then the worker's task is not cancelled.
\<close>

definition aclose :: "(session_call \<Rightarrow> session_exn option) \<Rightarrow> session_task \<Rightarrow> session_call \<Rightarrow> unit session_act" where
  "aclose answer worker drain = if_seen (Started worker) (andthen (call_out answer drain) (\<lambda>_. emit (Stopped worker)))"

definition cleanup_connected_bridge :: "(session_call \<Rightarrow> session_exn option) \<Rightarrow> unit session_act" where
  "cleanup_connected_bridge answer =
     andthen (if_seen (Started Heartbeat_Task) (emit (Stopped Heartbeat_Task))) (\<lambda>_.
     andthen (if_seen (Started Status_Task) (emit (Stopped Status_Task))) (\<lambda>_.
       finally_do (if_seen (Called Register_Switches) (call_out answer Unregister_Switches)) (\<lambda>_.
         finally_do (if_seen (Called Register_Units) (call_out answer Unregister_Units)) (\<lambda>_.
           finally_do (aclose answer Switch_Worker Drain_Switches) (\<lambda>_.
             aclose answer Unit_Worker Drain_Units)))))"

definition connected_session :: "(session_call \<Rightarrow> session_exn option) \<Rightarrow> bool \<Rightarrow> race_end \<Rightarrow> unit session_act" where
  "connected_session answer health race =
     finally_do (raced_session answer health race) (\<lambda>r.
       andthen (cleanup_connected_bridge answer) (\<lambda>_.
         when_act (health \<and> (r = Inl Disconnected_Exn \<or> r = Inl Cancelled_Exn))
           (call_out answer Final_Status)))"

section \<open>Cleanup\<close>

definition attempted :: "(session_call \<Rightarrow> session_exn option) \<Rightarrow> session_call \<Rightarrow> trace_event" where
  "attempted answer c = (if answer c = None then Called c else Failed c)"

lemma call_out_run: "call_out answer c h = ((case answer c of None \<Rightarrow> Inr () | Some e \<Rightarrow> Inl e), h @ [attempted answer c])"
  by (simp add: call_out_def attempted_def andthen_def split: option.split)

lemma if_seen_run: "if_seen ev m h = (if ev \<in> set h then m h else (Inr (), h))"
  by (simp add: if_seen_def andthen_def when_act_def)

text \<open>The events of the body only acquire.\<close>

definition acquires :: "trace_event \<Rightarrow> bool" where
  "acquires ev \<longleftrightarrow> (case ev of Stopped _ \<Rightarrow> False | Started _ \<Rightarrow> True
     | Called c \<Rightarrow> c \<in> {Subscribe, First_Status, Publish_Snapshot, Ready_Status, Register_Units, Register_Switches, Consume_Commands}
     | Failed c \<Rightarrow> c \<in> {Subscribe, First_Status, Publish_Snapshot, Ready_Status, Register_Units, Register_Switches, Consume_Commands})"

lemma keeps_list_all_emit: "P ev \<Longrightarrow> list_all P h \<Longrightarrow> list_all P (snd (emit ev h))"
  by simp

lemma list_all_andthen:
  assumes "list_all P h" "\<And>h. list_all P h \<Longrightarrow> list_all P (snd (m h))" "\<And>x h. list_all P h \<Longrightarrow> list_all P (snd (f x h))"
  shows "list_all P (snd (andthen m f h))"
  using assms by (auto simp: andthen_def split: prod.split sum.split) (metis snd_conv)+

lemma list_all_call: "acquires (Called c) \<Longrightarrow> acquires (Failed c) \<Longrightarrow> list_all acquires h \<Longrightarrow> list_all acquires (snd (call_out answer c h))"
  by (simp add: call_out_run attempted_def)

lemma list_all_when: "(\<And>h. list_all P h \<Longrightarrow> list_all P (snd (m h))) \<Longrightarrow> list_all P h \<Longrightarrow> list_all P (snd (when_act b m h))"
  by (simp add: when_act_def)

lemma body_acquires: "list_all acquires h \<Longrightarrow> list_all acquires (snd (session_body answer health h))"
  unfolding session_body_def
  by (intro list_all_andthen list_all_call list_all_when keeps_list_all_emit; assumption?; simp add: acquires_def)

text \<open>What a cleanup adds to a trace, in its order.\<close>

definition releases :: "(session_call \<Rightarrow> session_exn option) \<Rightarrow> trace_event list \<Rightarrow> trace_event list" where
  "releases answer h =
     [Stopped t. t \<leftarrow> [Heartbeat_Task, Status_Task], Started t \<in> set h]
     @ [attempted answer c'. (c, c') \<leftarrow> [(Register_Switches, Unregister_Switches), (Register_Units, Unregister_Units)], Called c \<in> set h]
     @ concat [[Called d, Stopped w]. (w, d) \<leftarrow> [(Switch_Worker, Drain_Switches), (Unit_Worker, Drain_Units)], Started w \<in> set h]"

definition cleanup_result :: "(session_call \<Rightarrow> session_exn option) \<Rightarrow> trace_event list \<Rightarrow> session_exn + unit" where
  "cleanup_result answer h =
     (case (if Called Register_Units \<in> set h then answer Unregister_Units else None) of
        Some e \<Rightarrow> Inl e
      | None \<Rightarrow> (case (if Called Register_Switches \<in> set h then answer Unregister_Switches else None) of Some e \<Rightarrow> Inl e | None \<Rightarrow> Inr ()))"

lemma aclose_run:
  assumes "answer drain = None"
  shows "aclose answer w drain h = (Inr (), h @ (if Started w \<in> set h then [Called drain, Stopped w] else []))"
  using assms by (simp add: aclose_def if_seen_run andthen_def call_out_run attempted_def)

lemma attempted_not [simp]: "attempted answer c \<noteq> Started t" "attempted answer c \<noteq> Stopped t"
  "c \<noteq> c' \<Longrightarrow> attempted answer c \<noteq> Called c'"
  by (simp_all add: attempted_def)

lemma cleanup_run:
  assumes "answer Drain_Switches = None" "answer Drain_Units = None"
  shows "cleanup_connected_bridge answer h = (cleanup_result answer h, h @ releases answer h)"
proof -
  note drains = aclose_run[where answer = answer, OF assms(1)] aclose_run[where answer = answer, OF assms(2)]
  show ?thesis
    by (cases "answer Unregister_Switches"; cases "answer Unregister_Units")
      (simp_all add: cleanup_connected_bridge_def cleanup_result_def releases_def andthen_def finally_do_def if_seen_run call_out_run drains
        attempted_def)
qed

lemma session_run:
  fixes health :: bool
  assumes "answer Drain_Switches = None" "answer Drain_Units = None"
  defines "body \<equiv> snd (session_body answer health [])"
  shows "snd (connected_session answer health race []) = body @ releases answer body
    @ (if health \<and> cleanup_result answer body = Inr ()
          \<and> fst (raced_session answer health race []) \<in> {Inl Disconnected_Exn, Inl Cancelled_Exn}
       then [attempted answer Final_Status] else [])"
proof -
  obtain r where raced: "raced_session answer health race [] = (r, body)"
    by (cases race; cases "session_body answer health []") (simp_all add: raced_session_def body_def)
  show ?thesis
    by (cases "cleanup_result answer body")
      (auto simp: connected_session_def finally_do_def raced andthen_def cleanup_run[OF assms(1,2)] when_act_def call_out_run split: option.splits sum.splits)
qed

lemma acquires_no_stop: "list_all acquires h \<Longrightarrow> count_list h (Stopped t) = 0"
  by (induction h) (auto simp: acquires_def)

lemma acquires_no_release:
  "list_all acquires h \<Longrightarrow> c \<in> {Unregister_Switches, Unregister_Units, Final_Status} \<Longrightarrow> count_list h (attempted answer c) = 0"
  by (induction h) (auto simp: acquires_def attempted_def)

section \<open>The property\<close>


text \<open>The link is lost while commands are served, and casambi-bt raises at the first handler.\<close>

definition sample_answer :: "session_call \<Rightarrow> session_exn option" where
  "sample_answer c = (case c of Consume_Commands \<Rightarrow> Some Cancelled_Exn | Unregister_Switches \<Rightarrow> Some Other_Exn | _ \<Rightarrow> None)"


end
