(* ===== verification/Spec2Isabelle.thy ===== *)
theory Spec2Isabelle
  imports Coordinator Supervisor_Outcomes Supervisor_Budget Switch_Publisher Unit_Publisher
    Bridge_Record Bridge_Exit Light_Control Device_Triggers Entry_Flows Bridge_Session
begin

text \<open>
  A model of casambi-mqtt and the theorems that make it correct.

  \<^bold>\<open>The program.\<close> A bridge process (\<^verbatim>\<open>src/server.py\<close>) holds one Bluetooth LE link to a Casambi lighting network through
  the library casambi-bt and mirrors it on MQTT: it publishes units, scenes and physical switch events, takes commands, and
  reports its own health. An integration of Home Assistant (\<^verbatim>\<open>src/custom_components/casambi_mqtt/\<close>) turns
  the messages into lights, scenes, event entities and device triggers, sends the commands, observes the bridge's health and may
  reload its own config entry. A supervisor of systemd (\<^verbatim>\<open>src/scripts/bridge_recovery.py\<close>) runs on the bridge's
  host, reads the bridge's local record and exit statuses, and may restart Bluetooth and the bridge or stop
  it for good. The three share no code at run time but the health protocol; \<^verbatim>\<open>src/switch_decoder.py\<close> parses the
  frames of physical switches in front of casambi-bt.

  \<^bold>\<open>Conventions.\<close> Clock readings are reals and a synchronous callback reads the clock once; Python's ints
  are \<open>int\<close>, the bytes of frames are words; strings are byte strings; a payload is the outcome of
  \<^verbatim>\<open>json.loads\<close>. A raised exception is a value of an option or a sum. A coroutine is the list of its steps
  between awaits, and a run is a list of such steps with callbacks in between, so a theorem for all runs is one for all
  interleavings. What the outside world answers (systemd, the broker, casambi-bt, files, the registry) is an
  argument of the definitions.

  \<^bold>\<open>Foundations.\<close>
  \<^item> \<open>Prelude\<close>, \<open>Json\<close>: the clock type, windows of recent times, Python's slices and truncation, JSON values and type tests.
  \<^item> \<open>Contracts\<close>: the locales \<open>window_gate\<close> (something of one key passes once per window) and
    \<open>windowed_budget\<close> (so many charges per sliding window), interpreted on the retransmission filter of the switch decoder,
    the two deduplications of switch events, the limits on health requests and the reload budget; \<open>codec\<close> in \<open>Protocol\<close>
    (an exact parser for an injective encoder), interpreted on snapshots, statuses and replies; \<open>probe_listener\<close> in
    \<open>Observer\<close> (what the observer may rely on when it calls back), interpreted on the coordinator.
  \<^item> \<open>Effects\<close>: programs over a history of events, with exceptions and triples whose invariant holds after
    every event; the supervisor is written in them.

  \<^bold>\<open>Health protocol and the integration's observer\<close> (\<^verbatim>\<open>health_protocol.py\<close>, \<^verbatim>\<open>health.py\<close>, \<^verbatim>\<open>health_monitor.py\<close>, \<^verbatim>\<open>recovery.py\<close>).
  \<^item> \<open>Protocol\<close>: \<^verbatim>\<open>parse_status\<close>, \<^verbatim>\<open>parse_reply\<close>, \<^verbatim>\<open>parse_request\<close> and the encoders; the parsers accept exactly the encodings of valid messages.
  \<^item> \<open>Health_Settings\<close>, \<open>Bridge_Tracker\<close>, \<open>Probe_Tracker\<close>, \<open>Observer\<close>: \<^verbatim>\<open>HealthSettings\<close>,
    \<^verbatim>\<open>BridgeStatusTracker\<close>, \<^verbatim>\<open>ProbeTracker\<close> and \<^verbatim>\<open>HealthObserver\<close>, one definition per method. The lemmas show in which order statuses are
    accepted, what a healthy verdict rests on, and what a successful or stale probe proves.
  \<^item> \<open>Recovery_Manager\<close>, \<open>Coordinator\<close>: \<^verbatim>\<open>RecoveryManager\<close> (lock, budget, latch, verification) and
    \<^verbatim>\<open>HealthCoordinator\<close> with the monitor's callbacks. A reload needs two independent proofs, is charged and saved
    first, and keeps within its budget; verification ends.

  \<^bold>\<open>The integration's entities\<close> (\<^verbatim>\<open>__init__.py\<close>, \<^verbatim>\<open>light.py\<close>, \<^verbatim>\<open>scene.py\<close>, \<^verbatim>\<open>button.py\<close>, \<^verbatim>\<open>event.py\<close>, \<^verbatim>\<open>device_trigger.py\<close>, \<^verbatim>\<open>runtime_data.py\<close>, \<^verbatim>\<open>switch_events.py\<close>).
  \<^item> \<open>Ha_Entities\<close>, \<open>Light_Control\<close>: the entity classes and the two entity callbacks; what a light sends reaches the
    unit it stands for.
  \<^item> \<open>Ha_Switches\<close>, \<open>Number_Text\<close>, \<open>Switch_Restore\<close>, \<open>Switch_Signals\<close>: decoding, deduplication and dispatch of switch events, learnt
    buttons, their store and its restoration. Under every interleaving with the store's writes each accepted event is signalled
    once, and a reload loses no button.
  \<^item> \<open>Device_Triggers\<close>: what the automation editor offers for a switch is exactly the signals of its events.
  \<^item> \<open>Entry_Migration\<close>, \<open>Entry_Flows\<close>: the migration of version 1 is all or nothing; network names stay valid and distinct
    (\<^verbatim>\<open>config_flow.py\<close>).

  \<^bold>\<open>The bridge\<close> (\<^verbatim>\<open>server.py\<close>, \<^verbatim>\<open>switch_decoder.py\<close>, \<^verbatim>\<open>entities/\<close>).
  \<^item> \<open>Switch_Decoder\<close>: \<^verbatim>\<open>parse_invocation_stream\<close> and the stateful decoder, a refinement of a history of frames.
  \<^item> \<open>Switch_Publisher\<close>, \<open>Unit_Publisher\<close>: the two queues with their workers; which events are published and that the newest state of a unit reaches the broker.
  \<^item> \<open>Casambi_Units\<close>, \<open>Bridge_Snapshot\<close>, \<open>Bridge_Commands\<close>: entities and topics, the full snapshot, and \<^verbatim>\<open>process_command\<close> with its validation.
  \<^item> \<open>Bridge_Diagnostics\<close>, \<open>Bridge_Health\<close>, \<open>Bridge_Statuses\<close>, \<open>Bridge_Record\<close>: counters, \<^verbatim>\<open>BridgeHealth\<close> and \<^verbatim>\<open>HealthRecord\<close>;
    histories of the health state, whose statuses the integration's tracker accepts and whose records the supervisor's parser reads.
  \<^item> \<open>Bridge_Startup\<close>, \<open>Bridge_Main\<close>, \<open>Bridge_Exit\<close>: \<^verbatim>\<open>run_bounded\<close>, the startup stages with their retries, the loop of
    MQTT sessions, \<^verbatim>\<open>main\<close> and \<^verbatim>\<open>cli\<close>; what each exit status tells the supervisor.

  \<^bold>\<open>The supervisor\<close> (\<^verbatim>\<open>scripts/bridge_recovery.py\<close>).
  \<^item> \<open>Supervisor_State\<close>, \<open>Supervisor_Decide\<close>: settings, the untrusted record, the state file and its parser, the exit log; \<^verbatim>\<open>observe\<close> and \<^verbatim>\<open>decide\<close>.
  \<^item> \<open>Supervisor_Run\<close>: systemctl behind its allowlist, polling, the reset, the restart, the terminal stop, a pass, the command line.
  \<^item> \<open>Supervisor_Triples\<close>, \<open>Supervisor_Safety\<close>, \<open>Supervisor_Stops\<close>, \<open>Supervisor_Outcomes\<close>, \<open>Supervisor_Budget\<close>: what holds
    in every world and at every moment a pass may be killed: only six systemctl commands, Bluetooth only under a stopped
    bridge, the reset budget, latched passes only stop, every pass ends.

  \<^bold>\<open>Bounds and fuel.\<close> Every loop of the model ends by recursion on data, but three. Polling of systemd takes the fuel
  \<open>poll_fuel\<close>, the least number of tries whose sleeps exceed the timeout, one more than the loop can use when the
  clock advances with its sleeps. A startup stage recurses on its remaining attempts, six at first. The chain of causes of an exception is
  followed for eight links, as in the code. The scripts of sessions and runs are lists, so they end, but of any length.

  \<^bold>\<open>Not modelled.\<close> Log texts and their redaction (\<^verbatim>\<open>RedactingFilter\<close>, \<^verbatim>\<open>configure_logging\<close>, \<^verbatim>\<open>as_log_fields\<close>): they influence nothing else.
  Opening the record without following links and the reading of \<^verbatim>\<open>/proc\<close> (\<^verbatim>\<open>read_record_bytes\<close>, \<^verbatim>\<open>process_start_ticks\<close>,
  \<^verbatim>\<open>current_boot_id\<close>): parameters. The draining of the publishers at shutdown and the closing of subscriptions (\<^verbatim>\<open>aclose\<close>,
  \<^verbatim>\<open>_cleanup_connected_bridge\<close>): their order depends on the scheduler of asyncio. The command line of the probe that only prints
  switch events (\<^verbatim>\<open>run_switch_event_probe\<close>), argparse, signal handlers, and the search for the systemctl executable. The texts of
  repairs, diagnostics and sensors (\<^verbatim>\<open>repairs.py\<close>, \<^verbatim>\<open>diagnostics.py\<close>, \<^verbatim>\<open>sensor.py\<close>) are views of modelled state. casambi-bt, aiomqtt,
  dataclasses_json, Home Assistant and systemd are not under \<^verbatim>\<open>src/\<close>: what they return is an argument, and what the code
  relies on is a named hypothesis. The rounding of floats and payloads with NaN are not represented.
\<close>

section \<open>The protocol's messages and the stored settings\<close>

text \<open>
  C38: the v1 status parser accepts exactly the encodings of valid statuses. A payload parses to a
  status if and only if the status is valid and the payload is its own encoding, up to the
  order of the keys: no further key, missing key, wrong type, boolean counter or unknown enum
  value is accepted, and encoding then parsing is the identity.
\<close>

theorem status_parser_exact:
  "parse_status payload = Some s \<longleftrightarrow> (\<exists>v. payload = Some v \<and> status_ok s \<and> encodes_status v s)"
proof (cases payload)
  case None
  then show ?thesis by (simp add: parse_status_def load_object_def)
next
  case (Some v)
  have "parse_status (Some v) = status_from_dict v"
    by (cases v) (simp_all add: parse_status_def load_object_def status_from_dict_def)
  with Some status_from_dict_iff[of v s] show ?thesis by auto
qed

text \<open>
  Replies round trip and are never partially trusted. What a bridge encodes for a valid reply
  parses back to it, different valid replies have different encodings, and whatever parses is a
  valid reply whose instance is its status's instance.
\<close>

theorem reply_roundtrip:
  "(reply_ok r \<longrightarrow> parse_reply (Some (reply_json r)) = Some r)
   \<and> (reply_ok r \<and> reply_ok r' \<and> reply_json r = reply_json r' \<longrightarrow> r = r')
   \<and> (parse_reply payload = Some r \<longrightarrow> reply_ok r \<and> hr_instance_id r = bs_instance_id (hr_status r))"
proof -
  have "reply_ok r \<and> reply_ok r' \<and> reply_json r = reply_json r' \<longrightarrow> r = r'"
    using reply_codec.enc_inj[of r r'] by simp
  moreover have "parse_reply payload = Some r \<longrightarrow> reply_ok r \<and> hr_instance_id r = bs_instance_id (hr_status r)"
    by (auto dest: parse_reply_ok simp: reply_ok_def)
  ultimately show ?thesis by (simp add: parse_reply_enc)
qed

theorem reply_roundtrip_witness:
  "reply_ok sample_reply \<and> parse_reply (Some (reply_json sample_reply)) = Some sample_reply"
proof -
  have "reply_ok sample_reply" using parse_sample_reply by (rule parse_reply_ok)
  with reply_roundtrip[of sample_reply sample_reply "Some (reply_json sample_reply)"] show ?thesis by simp
qed

text \<open>
  Stored options can never take a setting out of its range: whatever values the entry's options
  hold, of whatever JSON type, every numeric setting is within its declared bounds and the
  switch for automatic recovery is the stored boolean or on.
\<close>

theorem settings_validated:
  "settings_in_range (from_options options)
   \<and> (recovery_enabled (from_options options) \<longleftrightarrow>
        get_default options CONF_RECOVERY_ENABLED (JBool True) \<noteq> JBool False)"
proof
  show "settings_in_range (from_options options)" by (rule from_options_in_range)
  show "recovery_enabled (from_options options) \<longleftrightarrow>
      get_default options CONF_RECOVERY_ENABLED (JBool True) \<noteq> JBool False"
    by (cases "get_default options CONF_RECOVERY_ENABLED (JBool True)") (simp_all add: from_options_def Let_def)
qed

end
